(* ===== verification/Prelude.thy ===== *)
theory Prelude
  imports Complex_Main "HOL-Library.List_Lexorder" "HOL-Library.Product_Lexorder"
begin

text \<open>
  What every component shares: Python strings as lists of code points, instants and durations
  in microseconds with Python's range checks, the exceptions the standard library raises, the
  rows of a table as a list with the three statements the code uses (lookup by primary key,
  INSERT, UPDATE ... WHERE), and the generic lemmas on such tables. The locales at the end
  state the interfaces the components are used through; each is interpreted in the theory of
  the component that provides it.
\<close>

named_theorems row_simps \<open>lookups and updates of table rows\<close>
named_theorems guard_simps \<open>definitions of pure guards, unfolded by the component proofs\<close>

subsection \<open>Python strings\<close>

text \<open>A Python \<^verbatim>\<open>str\<close> is a sequence of code points, and its length counts code points.\<close>

type_synonym pystr = "nat list"

definition lit :: "string \<Rightarrow> pystr" where
  "lit s = map of_char s"

lemma lit_Nil [simp]: "lit [] = []"
  by (simp add: lit_def)

lemma lit_Cons: "lit (c # s) = of_char c # lit s"
  by (simp add: lit_def)

lemma lit_append: "lit (s @ t) = lit s @ lit t"
  by (simp add: lit_def)

lemma length_lit [simp]: "length (lit s) = length s"
  by (simp add: lit_def)

subsection \<open>Exceptions of the standard library\<close>

datatype py_exn =
    OverflowError
  | UnicodeEncodeError
  | KeyError pystr
  | ValueError
  | NoResultFound
  | MultipleResultsFound
  | IntegrityError
  | DatabaseError

subsection \<open>Instants and durations\<close>

text \<open>
  An aware \<^verbatim>\<open>datetime\<close> in UTC is the number of microseconds since the Unix epoch, within the years
  1 to 9999; a \<^verbatim>\<open>timedelta\<close> is a number of microseconds. Adding them raises when the
  result leaves the range of \<^verbatim>\<open>datetime\<close>.
\<close>

type_synonym time = int
type_synonym duration = int

definition dt_min :: time where "dt_min = - 62135596800000000"
definition dt_max :: time where "dt_max = 253402300799999999"

definition dt_add :: "time \<Rightarrow> duration \<Rightarrow> py_exn + time" where
  "dt_add t d = (if dt_min \<le> t + d \<and> t + d \<le> dt_max then Inr (t + d) else Inl OverflowError)"

text \<open>
  \<^verbatim>\<open>timedelta(seconds=x)\<close> rounds to the nearest microsecond, ties to even, and raises beyond
  999999999 days.
\<close>

definition round_half_even :: "rat \<Rightarrow> int" where
  "round_half_even x =
     (let f = \<lfloor>x\<rfloor>; d = x - of_int f
      in if d < 1 / 2 then f else if 1 / 2 < d then f + 1 else if even f then f else f + 1)"

definition day_us :: int where "day_us = 86400000000"

definition timedelta_us :: "int \<Rightarrow> py_exn + duration" where
  "timedelta_us u = (if \<bar>u div day_us\<bar> \<le> 999999999 then Inr u else Inl OverflowError)"

definition timedelta_seconds :: "rat \<Rightarrow> py_exn + duration" where
  "timedelta_seconds x = timedelta_us (round_half_even (x * 1000000))"

lemma round_half_even_of_int [simp]: "round_half_even (of_int n) = n"
  by (simp add: round_half_even_def)

lemma round_half_even_bounds:
  "\<lfloor>x\<rfloor> \<le> round_half_even x \<and> round_half_even x \<le> \<lfloor>x\<rfloor> + 1"
  by (simp add: round_half_even_def Let_def)

lemma round_half_even_mono:
  assumes "x \<le> y"
  shows "round_half_even x \<le> round_half_even y"
proof (cases "\<lfloor>x\<rfloor> = \<lfloor>y\<rfloor>")
  case True
  with assms show ?thesis by (auto simp: round_half_even_def Let_def)
next
  case False
  with assms have "\<lfloor>x\<rfloor> + 1 \<le> \<lfloor>y\<rfloor>" using floor_mono [OF assms] by linarith
  then show ?thesis using round_half_even_bounds [of x] round_half_even_bounds [of y] by linarith
qed

lemma round_half_even_nonneg: "0 \<le> x \<Longrightarrow> 0 \<le> round_half_even x"
  using round_half_even_mono [of 0 x] round_half_even_of_int [of 0] by simp

lemma dt_add_Inr: "dt_add t d = Inr u \<Longrightarrow> u = t + d"
  by (auto simp: dt_add_def split: if_splits)

lemma timedelta_us_Inr: "timedelta_us u = Inr d \<Longrightarrow> d = u"
  by (auto simp: timedelta_us_def split: if_splits)

lemma timedelta_seconds_Inr:
  "timedelta_seconds x = Inr d \<Longrightarrow> d = round_half_even (x * 1000000)"
  unfolding timedelta_seconds_def by (rule timedelta_us_Inr)


subsection \<open>Rows of a table\<close>

text \<open>
  A table is the list of its rows, in whatever order the database holds them. No theorem
  assumes an order of the list, so a query without ORDER BY, or with ties in it, is covered
  for every order the database may choose.
\<close>

definition find_row :: "('row \<Rightarrow> 'k) \<Rightarrow> 'row list \<Rightarrow> 'k \<Rightarrow> 'row option" where
  "find_row key rows k = find (\<lambda>r. key r = k) rows"

definition update_rows :: "('row \<Rightarrow> bool) \<Rightarrow> ('row \<Rightarrow> 'row) \<Rightarrow> 'row list \<Rightarrow> 'row list" where
  "update_rows P f rows = map (\<lambda>r. if P r then f r else r) rows"

definition rows_matching :: "('row \<Rightarrow> bool) \<Rightarrow> 'row list \<Rightarrow> nat" where
  "rows_matching P rows = length (filter P rows)"

definition order_desc :: "('row \<Rightarrow> 'o::linorder) \<Rightarrow> 'row list \<Rightarrow> 'row list" where
  "order_desc rank rows = rev (sort_key rank rows)"

lemma find_row_Nil [simp]: "find_row key [] k = None"
  by (simp add: find_row_def)

lemma find_row_Cons [simp]:
  "find_row key (r # rows) k = (if key r = k then Some r else find_row key rows k)"
  by (simp add: find_row_def)

lemma find_row_append:
  "find_row key (rows @ rows') k =
     (case find_row key rows k of None \<Rightarrow> find_row key rows' k | Some r \<Rightarrow> Some r)"
  by (induction rows) auto

lemma find_row_SomeD: "find_row key rows k = Some r \<Longrightarrow> r \<in> set rows \<and> key r = k"
  by (induction rows) (auto split: if_splits)

lemma find_row_None_iff: "find_row key rows k = None \<longleftrightarrow> k \<notin> key ` set rows"
  by (induction rows) auto

lemma find_row_Some_iff:
  "distinct (map key rows) \<Longrightarrow> find_row key rows k = Some r \<longleftrightarrow> r \<in> set rows \<and> key r = k"
  by (induction rows) (auto simp: image_iff)

lemma find_row_not_None: "find_row key rows k \<noteq> None \<longleftrightarrow> k \<in> key ` set rows"
  by (induction rows) auto

lemma update_rows_Nil [simp]: "update_rows P f [] = []"
  by (simp add: update_rows_def)

lemma update_rows_Cons [simp]:
  "update_rows P f (r # rows) = (if P r then f r else r) # update_rows P f rows"
  by (simp add: update_rows_def)

lemma set_update_rows:
  "set (update_rows P f rows) = (\<lambda>r. if P r then f r else r) ` set rows"
  by (simp add: update_rows_def)

lemma length_update_rows [simp]: "length (update_rows P f rows) = length rows"
  by (simp add: update_rows_def)

lemma map_update_rows [row_simps]:
  "(\<And>r. g (f r) = g r) \<Longrightarrow> map g (update_rows P f rows) = map g rows"
  by (auto simp: update_rows_def)

lemma map_update_rows_on:
  "(\<And>r. r \<in> set rows \<Longrightarrow> P r \<Longrightarrow> g (f r) = g r) \<Longrightarrow> map g (update_rows P f rows) = map g rows"
  by (auto simp: update_rows_def)

lemma update_rows_none: "(\<And>r. r \<in> set rows \<Longrightarrow> \<not> P r) \<Longrightarrow> update_rows P f rows = rows"
  by (induction rows) auto

lemma find_row_update [row_simps]:
  "(\<And>r. key (f r) = key r) \<Longrightarrow>
   find_row key (update_rows P f rows) k = map_option (\<lambda>r. if P r then f r else r) (find_row key rows k)"
  by (induction rows) auto

lemma rows_matching_Nil [simp]: "rows_matching P [] = 0"
  by (simp add: rows_matching_def)

lemma rows_matching_Cons [simp]:
  "rows_matching P (r # rows) = (if P r then 1 else 0) + rows_matching P rows"
  by (simp add: rows_matching_def)

lemma rows_matching_0: "(\<And>r. r \<in> set rows \<Longrightarrow> \<not> P r) \<Longrightarrow> rows_matching P rows = 0"
  by (simp add: rows_matching_def)

text \<open>A statement addressed by primary key touches the one row that holds the key.\<close>

lemma rows_matching_key [row_simps]:
  assumes "distinct (map key rows)"
  shows "rows_matching (\<lambda>r. key r = k \<and> Q r) rows =
           (case find_row key rows k of None \<Rightarrow> 0 | Some r \<Rightarrow> if Q r then 1 else 0)"
  using assms
proof (induction rows)
  case Nil
  then show ?case by simp
next
  case (Cons r rows)
  show ?case
  proof (cases "key r = k")
    case True
    then have "k \<notin> key ` set rows" using Cons.prems by auto
    then have "rows_matching (\<lambda>r. key r = k \<and> Q r) rows = 0"
      by (intro rows_matching_0) auto
    with True show ?thesis by simp
  next
    case False
    with Cons show ?thesis by simp
  qed
qed

lemma distinct_key_filter: "distinct (map key rows) \<Longrightarrow> distinct (map key (filter P rows))"
  by (induction rows) auto

lemma distinct_map_inj: "distinct (map key rows) \<Longrightarrow> r \<in> set rows \<Longrightarrow> s \<in> set rows \<Longrightarrow> key r = key s \<Longrightarrow> r = s"
  by (auto simp: distinct_map inj_on_def)

lemma set_order_desc [simp]: "set (order_desc rank rows) = set rows"
  by (simp add: order_desc_def)

lemma length_order_desc [simp]: "length (order_desc rank rows) = length rows"
  by (simp add: order_desc_def)

lemma sorted_order_desc: "sorted_wrt (\<lambda>r s. rank s \<le> rank r) (order_desc rank rows)"
proof -
  have "sorted (map rank (sort_key rank rows))" by simp
  then have "sorted_wrt (\<lambda>r s. rank r \<le> rank s) (sort_key rank rows)"
    by (simp add: sorted_map)
  then show ?thesis by (simp add: order_desc_def sorted_wrt_rev)
qed

lemma distinct_order_desc: "distinct (map key rows) \<Longrightarrow> distinct (map key (order_desc rank rows))"
proof -
  assume "distinct (map key rows)"
  then have "distinct rows" "inj_on key (set rows)" by (auto simp: distinct_map)
  then show ?thesis by (auto simp: order_desc_def distinct_map rev_map [symmetric])
qed

text \<open>The shape of an operation that returned rather than raised.\<close>

lemma returned: "\<not> isl (fst p) \<Longrightarrow> \<exists>x d. p = (Inr x, d)"
  by (cases p; cases "fst p") auto

subsection \<open>Interfaces\<close>

text \<open>
  What a client relies on of a table addressed by primary key: a row that was inserted is
  found under its key, an UPDATE that keeps keys changes exactly the rows its WHERE selects,
  and both keep the table well formed.
\<close>

locale row_store =
  fixes key :: "'row \<Rightarrow> 'k"
    and lookup :: "'tab \<Rightarrow> 'k \<Rightarrow> 'row option"
    and insert_row :: "'tab \<Rightarrow> 'row \<Rightarrow> 'tab"
    and modify :: "('row \<Rightarrow> bool) \<Rightarrow> ('row \<Rightarrow> 'row) \<Rightarrow> 'tab \<Rightarrow> 'tab"
    and ok :: "'tab \<Rightarrow> bool"
  assumes lookup_key: "lookup t k = Some r \<Longrightarrow> key r = k"
    and lookup_insert:
      "ok t \<Longrightarrow> lookup t (key r) = None \<Longrightarrow>
       lookup (insert_row t r) k = (if k = key r then Some r else lookup t k)"
    and lookup_modify:
      "ok t \<Longrightarrow> (\<And>r. key (f r) = key r) \<Longrightarrow>
       lookup (modify P f t) k = map_option (\<lambda>r. if P r then f r else r) (lookup t k)"
    and ok_insert: "ok t \<Longrightarrow> lookup t (key r) = None \<Longrightarrow> ok (insert_row t r)"
    and ok_modify: "ok t \<Longrightarrow> (\<And>r. key (f r) = key r) \<Longrightarrow> ok (modify P f t)"
begin

lemma modify_other:
  "ok t \<Longrightarrow> (\<And>r. key (f r) = key r) \<Longrightarrow> k \<noteq> k' \<Longrightarrow>
   lookup (modify (\<lambda>r. key r = k \<and> P r) f t) k' = lookup t k'"
  by (cases "lookup t k'") (auto simp: lookup_modify dest: lookup_key)

lemma modify_same:
  "ok t \<Longrightarrow> (\<And>r. key (f r) = key r) \<Longrightarrow> lookup t k = Some r \<Longrightarrow> P r \<Longrightarrow>
   lookup (modify (\<lambda>r. key r = k \<and> P r) f t) k = Some (f r)"
  using lookup_key by (fastforce simp: lookup_modify)

lemma modify_guarded:
  "ok t \<Longrightarrow> (\<And>r. key (f r) = key r) \<Longrightarrow> lookup t k = Some r \<Longrightarrow> \<not> P r \<Longrightarrow>
   lookup (modify (\<lambda>r. key r = k \<and> P r) f t) k = Some r"
  by (auto simp: lookup_modify)

lemma modify_missing:
  "ok t \<Longrightarrow> (\<And>r. key (f r) = key r) \<Longrightarrow> lookup t k = None \<Longrightarrow>
   lookup (modify P f t) k = None"
  by (simp add: lookup_modify)

lemma insert_then_modify:
  assumes "ok t" "lookup t (key r) = None" "\<And>r. key (f r) = key r" "P r"
  shows "lookup (modify (\<lambda>r'. key r' = key r \<and> P r') f (insert_row t r)) (key r) = Some (f r)"
  using assms by (intro modify_same) (auto simp: lookup_insert ok_insert)

end

text \<open>
  A system given by its initial states and its steps, with a property that holds at the start
  and that every step keeps: it holds wherever the system can get to.
\<close>

locale invariant_system =
  fixes init :: "'s \<Rightarrow> bool"
    and step :: "'s \<Rightarrow> 's \<Rightarrow> bool"
    and inv :: "'s \<Rightarrow> bool"
  assumes init_inv: "init s \<Longrightarrow> inv s"
    and step_inv: "inv s \<Longrightarrow> step s t \<Longrightarrow> inv t"
begin

lemma run_inv: "rtranclp step s t \<Longrightarrow> inv s \<Longrightarrow> inv t"
  by (induction rule: rtranclp_induct) (auto intro: step_inv)

lemma reach_inv: "init s \<Longrightarrow> rtranclp step s t \<Longrightarrow> inv t"
  by (blast intro: run_inv init_inv)

end

end
