(* ===== verification/Text.thy ===== *)
theory Text
  imports Prelude "HOL-Library.Word"
begin

text \<open>
  The parts of Python's \<^verbatim>\<open>str\<close> and \<^verbatim>\<open>bytes\<close> the program uses: prefix tests, stripping, splitting,
  lower-casing, decimal and hexadecimal rendering, and UTF-8 encoding, which raises on a lone
  surrogate. The last section is the interface of a self-delimiting text encoding, on which the
  JSON theory builds.
\<close>

subsection \<open>Characters\<close>

definition is_digit :: "nat \<Rightarrow> bool" where
  "is_digit c \<longleftrightarrow> 48 \<le> c \<and> c \<le> 57"

definition is_lower :: "nat \<Rightarrow> bool" where
  "is_lower c \<longleftrightarrow> 97 \<le> c \<and> c \<le> 122"

definition is_upper :: "nat \<Rightarrow> bool" where
  "is_upper c \<longleftrightarrow> 65 \<le> c \<and> c \<le> 90"

text \<open>C0 and C1 controls and DEL, the class \<^verbatim>\<open>[\x00-\x1f\x7f-\x9f]\<close>.\<close>

definition is_control :: "nat \<Rightarrow> bool" where
  "is_control c \<longleftrightarrow> c \<le> 31 \<or> (127 \<le> c \<and> c \<le> 159)"

definition is_surrogate :: "nat \<Rightarrow> bool" where
  "is_surrogate c \<longleftrightarrow> 55296 \<le> c \<and> c \<le> 57343"

text \<open>What \<^verbatim>\<open>str.isspace\<close> accepts, and so what \<^verbatim>\<open>str.strip\<close> removes.\<close>

definition is_space :: "nat \<Rightarrow> bool" where
  "is_space c \<longleftrightarrow>
     (9 \<le> c \<and> c \<le> 13) \<or> (28 \<le> c \<and> c \<le> 32) \<or> c = 133 \<or> c = 160 \<or> c = 5760 \<or>
     (8192 \<le> c \<and> c \<le> 8202) \<or> c = 8232 \<or> c = 8233 \<or> c = 8239 \<or> c = 8287 \<or> c = 12288"

text \<open>Evaluation compares code points as integers, whose numerals are binary.\<close>

lemma is_surrogate_code [code]: "is_surrogate c \<longleftrightarrow> (let i = int c in 55296 \<le> i \<and> i \<le> 57343)"
  by (simp add: is_surrogate_def Let_def)

lemma is_space_code [code]:
  "is_space c \<longleftrightarrow>
     (let i = int c in
      (9 \<le> i \<and> i \<le> 13) \<or> (28 \<le> i \<and> i \<le> 32) \<or> i = 133 \<or> i = 160 \<or> i = 5760 \<or>
      (8192 \<le> i \<and> i \<le> 8202) \<or> i = 8232 \<or> i = 8233 \<or> i = 8239 \<or> i = 8287 \<or> i = 12288)"
proof -
  have "c = n \<longleftrightarrow> int c = int n" "n \<le> c \<longleftrightarrow> int n \<le> int c" "c \<le> n \<longleftrightarrow> int c \<le> int n" for n by simp_all
  from this [of "numeral _"] show ?thesis unfolding is_space_def Let_def by (simp only: of_nat_numeral)
qed

text \<open>
  \<^verbatim>\<open>str.lower\<close>, exact for code points below 256 and for the Kelvin sign. Other code points are
  kept: their lower case is never an ASCII character, and every use in the program compares the
  result with ASCII words.
\<close>

definition lower_char :: "nat \<Rightarrow> nat" where
  "lower_char c =
     (if is_upper c \<or> (192 \<le> c \<and> c \<le> 222 \<and> c \<noteq> 215) then c + 32 else if c = 8490 then 107 else c)"

lemma lower_char_code [code]:
  "lower_char c =
     (let i = int c in
      if is_upper c \<or> (192 \<le> i \<and> i \<le> 222 \<and> i \<noteq> 215) then c + 32 else if i = 8490 then 107 else c)"
  by (simp add: lower_char_def Let_def)

definition py_lower :: "pystr \<Rightarrow> pystr" where
  "py_lower s = map lower_char s"

subsection \<open>Prefixes, stripping and splitting\<close>

fun starts_with :: "pystr \<Rightarrow> pystr \<Rightarrow> bool" where
  "starts_with [] s = True"
| "starts_with (p # ps) [] = False"
| "starts_with (p # ps) (c # s) = (p = c \<and> starts_with ps s)"

definition ends_with :: "pystr \<Rightarrow> pystr \<Rightarrow> bool" where
  "ends_with suf s = starts_with (rev suf) (rev s)"

definition lstrip :: "pystr \<Rightarrow> pystr" where
  "lstrip s = dropWhile is_space s"

definition py_strip :: "pystr \<Rightarrow> pystr" where
  "py_strip s = rev (dropWhile is_space (rev (dropWhile is_space s)))"

text \<open>\<^verbatim>\<open>s.split(sep)\<close> with a one-character separator; \<^verbatim>\<open>s.split(sep, 1)[0]\<close> is its first piece.\<close>

fun split_on :: "nat \<Rightarrow> pystr \<Rightarrow> pystr list" where
  "split_on d [] = [[]]"
| "split_on d (c # s) =
     (if c = d then [] # split_on d s
      else (case split_on d s of [] \<Rightarrow> [[c]] | p # ps \<Rightarrow> (c # p) # ps))"

definition before_first :: "nat \<Rightarrow> pystr \<Rightarrow> pystr" where
  "before_first d s = takeWhile (\<lambda>c. c \<noteq> d) s"

fun join_with :: "pystr \<Rightarrow> pystr list \<Rightarrow> pystr" where
  "join_with sep [] = []"
| "join_with sep [x] = x"
| "join_with sep (x # y # xs) = x @ sep @ join_with sep (y # xs)"

lemma starts_with_iff: "starts_with p s \<longleftrightarrow> (\<exists>t. s = p @ t)"
  by (induction p s rule: starts_with.induct) auto

lemma ends_with_iff: "ends_with p s \<longleftrightarrow> (\<exists>t. s = t @ p)"
  unfolding ends_with_def starts_with_iff
  by (metis rev_append rev_rev_ident)

lemma split_on_not_Nil [simp]: "split_on d s \<noteq> []"
  by (cases s) (auto split: list.splits)

lemma split_on_clean: "d \<notin> set s \<Longrightarrow> split_on d s = [s]"
  by (induction s) auto

lemma split_on_append: "split_on d (s @ d # t) = split_on d s @ split_on d t"
  by (induction s) (auto split: list.splits)

lemma split_on_pieces_clean: "p \<in> set (split_on d s) \<Longrightarrow> d \<notin> set p"
  by (induction s arbitrary: p) (auto split: list.splits if_splits)

lemma join_split_on: "join_with [d] (split_on d s) = s"
proof (induction s)
  case Nil
  then show ?case by simp
next
  case (Cons c s)
  obtain p ps where sp: "split_on d s = p # ps" by (cases "split_on d s") auto
  with Cons show ?case by (cases ps) auto
qed

lemma before_first_split: "hd (split_on d s) = before_first d s"
  by (induction s) (auto simp: before_first_def split: list.splits)

subsection \<open>Numbers as text\<close>

definition hex_digit :: "nat \<Rightarrow> nat" where
  "hex_digit n = (if n < 10 then 48 + n else 87 + n)"

fun decimal :: "nat \<Rightarrow> pystr" where
  "decimal n = (if n < 10 then [48 + n] else decimal (n div 10) @ [48 + n mod 10])"

declare decimal.simps [simp del]

definition str_of_int :: "int \<Rightarrow> pystr" where
  "str_of_int i = (if i < 0 then 45 # decimal (nat (- i)) else decimal (nat i))"

text \<open>Zero padding to a width, as in the format codes \<^verbatim>\<open>02d\<close>, \<^verbatim>\<open>04d\<close> and \<^verbatim>\<open>06d\<close>.\<close>

definition zfill :: "nat \<Rightarrow> pystr \<Rightarrow> pystr" where
  "zfill w s = replicate (w - length s) 48 @ s"

definition is_hex :: "nat \<Rightarrow> bool" where
  "is_hex c \<longleftrightarrow> is_digit c \<or> (97 \<le> c \<and> c \<le> 102)"

lemma is_hex_hex_digit [simp]: "n < 16 \<Longrightarrow> is_hex (hex_digit n)"
  by (auto simp: is_hex_def is_digit_def hex_digit_def)

lemma hex_digit_inj: "m < 16 \<Longrightarrow> n < 16 \<Longrightarrow> hex_digit m = hex_digit n \<Longrightarrow> m = n"
  by (auto simp: hex_digit_def split: if_splits)

lemma decimal_digits: "c \<in> set (decimal n) \<Longrightarrow> is_digit c"
  by (induction n rule: decimal.induct)
    (subst (asm) (2) decimal.simps, auto simp: is_digit_def split: if_splits)

lemma decimal_not_Nil [simp]: "decimal n \<noteq> []"
  by (subst decimal.simps) simp

subsection \<open>UTF-8\<close>

type_synonym byte = "8 word"
type_synonym bytes = "byte list"

definition utf8_char :: "nat \<Rightarrow> nat list" where
  "utf8_char c =
     (if c < 128 then [c]
      else if c < 2048 then [192 + c div 64, 128 + c mod 64]
      else if c < 65536 then [224 + c div 4096, 128 + c div 64 mod 64, 128 + c mod 64]
      else [240 + c div 262144, 128 + c div 4096 mod 64, 128 + c div 64 mod 64, 128 + c mod 64])"

text \<open>\<^verbatim>\<open>s.encode("utf-8")\<close>: a lone surrogate cannot be encoded.\<close>

definition utf8_encode :: "pystr \<Rightarrow> py_exn + bytes" where
  "utf8_encode s =
     (if list_ex is_surrogate s then Inl UnicodeEncodeError
      else Inr (map word_of_nat (concat (map utf8_char s))))"

definition code_point :: "nat \<Rightarrow> bool" where
  "code_point c \<longleftrightarrow> c < 1114112"

lemma utf8_encode_Inr_iff: "(\<exists>b. utf8_encode s = Inr b) \<longleftrightarrow> (\<forall>c \<in> set s. \<not> is_surrogate c)"
  by (auto simp: utf8_encode_def list_ex_iff)

lemma utf8_char_bytes: "code_point c \<Longrightarrow> b \<in> set (utf8_char c) \<Longrightarrow> b < 256"
  by (auto simp: utf8_char_def code_point_def split: if_splits)

subsection \<open>Self-delimiting encodings\<close>

text \<open>
  An encoding of values as text is self-delimiting when the value and what follows it can both
  be read back from the text. Its elements can then be framed in a comma-separated, bracketed
  list without ambiguity, provided no element starts like the closing bracket.
\<close>

locale self_delimiting =
  fixes enc :: "'a \<Rightarrow> 'c list"
    and close :: 'c
  assumes unframe: "enc x @ u = enc y @ v \<Longrightarrow> x = y \<and> u = v"
    and start: "\<exists>c s. enc x = c # s \<and> c \<noteq> close"
begin

lemma enc_inj: "enc x = enc y \<Longrightarrow> x = y"
  using unframe [of x "[]" y "[]"] by simp

lemma concat_unframe: "concat (map enc xs) @ [close] @ u = concat (map enc ys) @ [close] @ v \<Longrightarrow> xs = ys \<and> u = v"
proof (induction xs arbitrary: ys)
  case Nil
  then show ?case
  proof (cases ys)
    case (Cons y ys')
    obtain c s where "enc y = c # s" "c \<noteq> close" using start by blast
    with Nil Cons show ?thesis by simp
  qed simp
next
  case (Cons x xs)
  show ?case
  proof (cases ys)
    case Nil
    obtain c s where "enc x = c # s" "c \<noteq> close" using start by blast
    with Nil Cons.prems show ?thesis by simp
  next
    case (Cons y ys')
    with Cons.prems have "enc x @ (concat (map enc xs) @ [close] @ u) = enc y @ (concat (map enc ys') @ [close] @ v)"
      by simp
    from unframe [OF this] have "x = y" and "concat (map enc xs) @ [close] @ u = concat (map enc ys') @ [close] @ v"
      by auto
    with Cons.IH [of ys'] Cons show ?thesis by simp
  qed
qed

end

subsection \<open>UTF-8 is unambiguous\<close>

lemma split_64: "m div 64 = n div 64 \<Longrightarrow> m mod 64 = n mod 64 \<Longrightarrow> m = (n::nat)"
  by (metis div_mult_mod_eq)

lemma split_4096:
  assumes "m div 4096 = n div 4096" "m div 64 mod 64 = n div 64 mod 64" "m mod 64 = n mod (64::nat)"
  shows "m = n"
proof (rule split_64 [OF _ assms(3)], rule split_64 [OF _ assms(2)])
  show "m div 64 div 64 = n div 64 div 64" using assms(1) by (simp add: div_mult2_eq [symmetric])
qed

lemma split_262144:
  assumes "m div 262144 = n div 262144" "m div 4096 mod 64 = n div 4096 mod 64"
    "m div 64 mod 64 = n div 64 mod 64" "m mod 64 = n mod (64::nat)"
  shows "m = n"
proof (rule split_4096 [OF _ assms(3,4)], rule split_64 [OF _ assms(2)])
  show "m div 4096 div 64 = n div 4096 div 64" using assms(1) by (simp add: div_mult2_eq [symmetric])
qed

lemma utf8_char_class:
  "c < 128 \<and> utf8_char c = [c] \<or>
   128 \<le> c \<and> c < 2048 \<and> utf8_char c = [192 + c div 64, 128 + c mod 64] \<or>
   2048 \<le> c \<and> c < 65536 \<and> utf8_char c = [224 + c div 4096, 128 + c div 64 mod 64, 128 + c mod 64] \<or>
   65536 \<le> c \<and> utf8_char c =
     [240 + c div 262144, 128 + c div 4096 mod 64, 128 + c div 64 mod 64, 128 + c mod 64]"
  by (auto simp: utf8_char_def)

lemma utf8_char_unframe:
  assumes "utf8_char c @ u = utf8_char d @ v"
  shows "c = d \<and> u = v"
proof -
  have lead: "128 \<le> x \<Longrightarrow> x < 2048 \<Longrightarrow> 192 + x div 64 < 224" "2048 \<le> x \<Longrightarrow> x < 65536 \<Longrightarrow> 224 + x div 4096 < 240"
    for x :: nat by auto
  consider "c < 128" | "128 \<le> c" "c < 2048" | "2048 \<le> c" "c < 65536" | "65536 \<le> c" by linarith
  then show ?thesis
  proof cases
    case 1
    with assms show ?thesis using utf8_char_class [of d] by (auto simp: utf8_char_def split: if_splits)
  next
    case 2
    with assms lead(1) [of c] show ?thesis
      by (auto simp: utf8_char_def split: if_splits intro: split_64)
  next
    case 3
    with assms lead(1) [of d] lead(2) [of c] show ?thesis
      by (auto simp: utf8_char_def split: if_splits intro: split_4096)
  next
    case 4
    with assms lead(1) [of d] lead(2) [of d] show ?thesis
      by (auto simp: utf8_char_def split: if_splits intro: split_262144)
  qed
qed

interpretation utf8_code: self_delimiting utf8_char 128
proof
  show "utf8_char c @ u = utf8_char d @ v \<Longrightarrow> c = d \<and> u = v" for c d u v
    by (rule utf8_char_unframe)
  show "\<exists>b s. utf8_char c = b # s \<and> b \<noteq> 128" for c
    by (auto simp: utf8_char_def)
qed

lemma utf8_encode_inj:
  assumes "utf8_encode s = Inr b" "utf8_encode t = Inr b" "list_all code_point s" "list_all code_point t"
  shows "s = t"
proof -
  let ?bs = "\<lambda>s. concat (map utf8_char s)"
  have small: "\<forall>x \<in> set (?bs s). x < 256" if "list_all code_point s" for s
    using that by (auto simp: list_all_iff dest: utf8_char_bytes)
  have "map word_of_nat (?bs s) = (map word_of_nat (?bs t) :: bytes)"
    using assms(1,2) by (auto simp: utf8_encode_def split: if_splits)
  then have "map (unat \<circ> (word_of_nat :: nat \<Rightarrow> byte)) (?bs s) = map (unat \<circ> (word_of_nat :: nat \<Rightarrow> byte)) (?bs t)"
    by (metis map_map)
  moreover have "map (unat \<circ> (word_of_nat :: nat \<Rightarrow> byte)) (?bs s) = ?bs s" if "list_all code_point s" for s
    using small [OF that] by (intro map_idI) (auto simp: unat_of_nat)
  ultimately have "?bs s = ?bs t" using assms(3,4) by metis
  then show ?thesis using utf8_code.concat_unframe [of s "[]" t "[]"] by simp
qed

end
