(* ===== verification/Regex.thy ===== *)
theory Regex
  imports Text
begin

text \<open>
  \<^verbatim>\<open>re.Pattern.fullmatch\<close> for the constructs the program's patterns use: character classes,
  sequence, optional group, star and bounded repetition. A match is decided by derivatives;
  \<open>lang\<close> is the set of strings the pattern describes.
\<close>

datatype regex =
    Never
  | Empty
  | Class "nat \<Rightarrow> bool"
  | Seq regex regex
  | Alt regex regex
  | Star regex

definition Opt :: "regex \<Rightarrow> regex" where
  "Opt r = Alt Empty r"

definition Plus :: "regex \<Rightarrow> regex" where
  "Plus r = Seq r (Star r)"

fun Repeat :: "nat \<Rightarrow> regex \<Rightarrow> regex" where
  "Repeat 0 r = Empty"
| "Repeat (Suc n) r = Seq r (Repeat n r)"

fun nullable :: "regex \<Rightarrow> bool" where
  "nullable Never = False"
| "nullable Empty = True"
| "nullable (Class P) = False"
| "nullable (Seq r s) = (nullable r \<and> nullable s)"
| "nullable (Alt r s) = (nullable r \<or> nullable s)"
| "nullable (Star r) = True"

fun deriv :: "nat \<Rightarrow> regex \<Rightarrow> regex" where
  "deriv c Never = Never"
| "deriv c Empty = Never"
| "deriv c (Class P) = (if P c then Empty else Never)"
| "deriv c (Seq r s) =
     (if nullable r then Alt (Seq (deriv c r) s) (deriv c s) else Seq (deriv c r) s)"
| "deriv c (Alt r s) = Alt (deriv c r) (deriv c s)"
| "deriv c (Star r) = Seq (deriv c r) (Star r)"

definition fullmatch :: "regex \<Rightarrow> pystr \<Rightarrow> bool" where
  "fullmatch r s = nullable (foldl (\<lambda>r c. deriv c r) r s)"

subsection \<open>The language of a pattern\<close>

inductive_set star_of :: "pystr set \<Rightarrow> pystr set" for A where
  star_Nil: "[] \<in> star_of A"
| star_append: "s \<in> A \<Longrightarrow> t \<in> star_of A \<Longrightarrow> s @ t \<in> star_of A"

fun lang :: "regex \<Rightarrow> pystr set" where
  "lang Never = {}"
| "lang Empty = {[]}"
| "lang (Class P) = {[c] |c. P c}"
| "lang (Seq r s) = {u @ v |u v. u \<in> lang r \<and> v \<in> lang s}"
| "lang (Alt r s) = lang r \<union> lang s"
| "lang (Star r) = star_of (lang r)"

lemma nullable_lang: "nullable r \<longleftrightarrow> [] \<in> lang r"
  by (induction r) (auto intro: star_Nil)

lemma star_of_Cons_iff:
  "c # w \<in> star_of A \<longleftrightarrow> (\<exists>u v. w = u @ v \<and> c # u \<in> A \<and> v \<in> star_of A)"
proof
  show "c # w \<in> star_of A \<Longrightarrow> \<exists>u v. w = u @ v \<and> c # u \<in> A \<and> v \<in> star_of A"
    by (induction "c # w" rule: star_of.induct) (auto simp: append_eq_Cons_conv)
  show "\<exists>u v. w = u @ v \<and> c # u \<in> A \<and> v \<in> star_of A \<Longrightarrow> c # w \<in> star_of A"
    by (metis append_Cons star_append)
qed

lemma lang_deriv: "w \<in> lang (deriv c r) \<longleftrightarrow> c # w \<in> lang r"
proof (induction r arbitrary: w)
  case (Seq r s)
  have split: "c # w \<in> lang (Seq r s) \<longleftrightarrow>
      (\<exists>u v. w = u @ v \<and> c # u \<in> lang r \<and> v \<in> lang s) \<or> ([] \<in> lang r \<and> c # w \<in> lang s)"
    by (auto simp: Cons_eq_append_conv)
  show ?case unfolding split by (auto simp: Seq.IH nullable_lang)
next
  case (Star r)
  then show ?case by (auto simp: star_of_Cons_iff)
qed auto

lemma fullmatch_lang: "fullmatch r s \<longleftrightarrow> s \<in> lang r"
proof (induction s arbitrary: r)
  case Nil
  then show ?case by (simp add: fullmatch_def nullable_lang)
next
  case (Cons c s)
  have "fullmatch r (c # s) = fullmatch (deriv c r) s" by (simp add: fullmatch_def)
  with Cons show ?case by (simp add: lang_deriv)
qed

lemma star_Class: "s \<in> star_of {[c] |c. P c} \<longleftrightarrow> list_all P s"
proof
  show "s \<in> star_of {[c] |c. P c} \<Longrightarrow> list_all P s"
    by (induction rule: star_of.induct) auto
  show "list_all P s \<Longrightarrow> s \<in> star_of {[c] |c. P c}"
  proof (induction s)
    case (Cons c s)
    then have "[c] @ s \<in> star_of {[c] |c. P c}" by (intro star_append) auto
    then show ?case by simp
  qed (rule star_Nil)
qed

lemma lang_Plus_Class: "s \<in> lang (Plus (Class P)) \<longleftrightarrow> s \<noteq> [] \<and> list_all P s"
  by (cases s) (auto simp: Plus_def star_Class, metis append_Cons append_Nil)

lemma lang_Repeat_Class: "s \<in> lang (Repeat n (Class P)) \<longleftrightarrow> length s = n \<and> list_all P s"
proof (induction n arbitrary: s)
  case (Suc n)
  show ?case
  proof (cases s)
    case (Cons c t)
    then have "s \<in> lang (Repeat (Suc n) (Class P)) \<longleftrightarrow> P c \<and> t \<in> lang (Repeat n (Class P))"
      by (auto intro: exI [of _ "[c]"])
    with Suc Cons show ?thesis by auto
  qed auto
qed auto

end
