(* ===== verification/Json.thy ===== *)
theory Json
  imports Text
begin

text \<open>
  \<^verbatim>\<open>json.dumps\<close> with \<^verbatim>\<open>separators=(",", ":")\<close>, on the values the program serialises: strings,
  arrays and objects with string keys. Both settings of \<^verbatim>\<open>ensure_ascii\<close> are modelled. With
  \<^verbatim>\<open>ensure_ascii=False\<close> the text determines the value, even when more text follows; that is
  what makes a digest of the text a digest of the value.
\<close>

subsection \<open>Strings\<close>

definition u_escape :: "nat \<Rightarrow> pystr" where
  "u_escape n = [92, 117, hex_digit (n div 4096 mod 16), hex_digit (n div 256 mod 16),
                 hex_digit (n div 16 mod 16), hex_digit (n mod 16)]"

definition short_escape :: "nat \<Rightarrow> pystr option" where
  "short_escape c =
     (if c = 34 then Some [92, 34] else if c = 92 then Some [92, 92]
      else if c = 8 then Some [92, 98] else if c = 12 then Some [92, 102]
      else if c = 10 then Some [92, 110] else if c = 13 then Some [92, 114]
      else if c = 9 then Some [92, 116] else None)"

text \<open>The escape of one character: \<^verbatim>\<open>ensure_ascii=False\<close>, then \<^verbatim>\<open>ensure_ascii=True\<close>.\<close>

definition esc_char :: "nat \<Rightarrow> pystr" where
  "esc_char c = (case short_escape c of Some e \<Rightarrow> e | None \<Rightarrow> if c < 32 then u_escape c else [c])"

definition esc_char_ascii :: "nat \<Rightarrow> pystr" where
  "esc_char_ascii c =
     (case short_escape c of
        Some e \<Rightarrow> e
      | None \<Rightarrow>
          if 32 \<le> c \<and> c \<le> 126 then [c]
          else if c < 65536 then u_escape c
          else u_escape (55296 + (c - 65536) div 1024 mod 1024) @ u_escape (56320 + (c - 65536) mod 1024))"

definition quote :: "bool \<Rightarrow> pystr \<Rightarrow> pystr" where
  "quote ascii s = 34 # concat (map (if ascii then esc_char_ascii else esc_char) s) @ [34]"

subsection \<open>Values\<close>

datatype json =
    JStr pystr
  | JArr "json list"
  | JObj "(pystr \<times> json) list"

fun commas :: "pystr list \<Rightarrow> pystr" where
  "commas [] = []"
| "commas [x] = x"
| "commas (x # y # xs) = x @ 44 # commas (y # xs)"

fun dumps :: "bool \<Rightarrow> json \<Rightarrow> pystr" where
  "dumps a (JStr s) = quote a s"
| "dumps a (JArr xs) = 91 # commas (map (dumps a) xs) @ [93]"
| "dumps a (JObj ps) = 123 # commas (map (\<lambda>(k, v). quote a k @ 58 # dumps a v) ps) @ [125]"

definition JStrs :: "pystr list \<Rightarrow> json" where
  "JStrs vs = JArr (map JStr vs)"

lemma JStr_inj: "inj JStr"
  by (simp add: inj_on_def)

lemma JStrs_inj [simp]: "JStrs us = JStrs vs \<longleftrightarrow> us = vs"
  by (simp add: JStrs_def inj_map_eq_map [OF JStr_inj])

subsection \<open>The text determines the value\<close>

lemma short_escape_None: "short_escape c = None \<Longrightarrow> c \<noteq> 34 \<and> c \<noteq> 92"
  by (auto simp: short_escape_def split: if_splits)

lemma esc_char_cases:
  "(esc_char c = [c] \<and> c \<noteq> 34 \<and> c \<noteq> 92) \<or>
   (\<exists>e. short_escape c = Some [92, e] \<and> esc_char c = [92, e] \<and> e \<noteq> 117) \<or>
   (c < 32 \<and> esc_char c = [92, 117, 48, 48, hex_digit (c div 16), hex_digit (c mod 16)])"
  by (auto simp: esc_char_def short_escape_def u_escape_def hex_digit_def split: option.splits)

lemma short_escape_inj: "short_escape c = Some e \<Longrightarrow> short_escape d = Some e \<Longrightarrow> c = d"
  by (auto simp: short_escape_def split: if_splits)

lemma esc_char_unframe: "esc_char c @ u = esc_char d @ v \<Longrightarrow> c = d \<and> u = v"
proof -
  assume eq: "esc_char c @ u = esc_char d @ v"
  have num: "m = n" if "m < 32" "n < 32" "hex_digit (m div 16) = hex_digit (n div 16)"
    "hex_digit (m mod 16) = hex_digit (n mod 16)" for m n
  proof -
    from that have "m div 16 = n div 16" "m mod 16 = n mod 16" by (auto intro!: hex_digit_inj)
    then show ?thesis by (metis div_mult_mod_eq)
  qed
  show ?thesis
    using esc_char_cases [of c] esc_char_cases [of d] eq
    by (auto intro: short_escape_inj num)
qed

interpretation esc_code: self_delimiting esc_char 34
proof
  show "esc_char c @ u = esc_char d @ v \<Longrightarrow> c = d \<and> u = v" for c d u v
    by (rule esc_char_unframe)
  show "\<exists>b s. esc_char c = b # s \<and> b \<noteq> 34" for c
    using esc_char_cases [of c] by auto
qed

lemma quote_unframe: "quote False s @ u = quote False t @ v \<Longrightarrow> s = t \<and> u = v"
  using esc_code.concat_unframe [of s u t v] by (simp add: quote_def)

lemma quote_start: "quote a s = 34 # tl (quote a s)"
  by (simp add: quote_def)

lemma dumps_start: "\<exists>c s. dumps a j = c # s \<and> c \<in> {34, 91, 123}"
  by (cases j) (auto simp: quote_def)

text \<open>The elements of a bracketed list, once the first one is told apart from the bracket.\<close>

lemma commas_Cons: "commas (x # xs) = x @ concat (map (\<lambda>y. 44 # y) xs)"
  by (induction xs arbitrary: x) auto

lemma tail_unframe:
  assumes "\<And>x y u v. x \<in> set xs \<Longrightarrow> f x @ u = f y @ v \<Longrightarrow> x = y \<and> u = v" and "c \<noteq> 44"
    and "concat (map (\<lambda>x. 44 # f x) xs) @ c # u = concat (map (\<lambda>x. 44 # f x) ys) @ c # v"
  shows "xs = ys \<and> u = v"
  using assms
proof (induction xs arbitrary: ys)
  case Nil
  then show ?case by (cases ys) auto
next
  case (Cons x xs)
  show ?case
  proof (cases ys)
    case Nil
    with Cons.prems(2,3) show ?thesis by simp
  next
    case (Cons y ys')
    with Cons.prems(3) have
      "f x @ (concat (map (\<lambda>x. 44 # f x) xs) @ c # u) = f y @ (concat (map (\<lambda>x. 44 # f x) ys') @ c # v)"
      by simp
    with Cons.prems(1) have "x = y"
      and rest: "concat (map (\<lambda>x. 44 # f x) xs) @ c # u = concat (map (\<lambda>x. 44 # f x) ys') @ c # v" by auto
    moreover have "xs = ys' \<and> u = v"
      by (rule Cons.IH [OF _ Cons.prems(2) rest]) (use Cons.prems(1) in auto)
    ultimately show ?thesis using Cons by simp
  qed
qed

lemma commas_unframe:
  assumes un: "\<And>x y u v. x \<in> set xs \<Longrightarrow> f x @ u = f y @ v \<Longrightarrow> x = y \<and> u = v"
    and st: "\<And>x. \<exists>b s. f x = b # s \<and> b \<noteq> c" and c: "c \<noteq> 44"
    and eq: "commas (map f xs) @ c # u = commas (map f ys) @ c # v"
  shows "xs = ys \<and> u = v"
proof (cases xs)
  case Nil
  with eq st show ?thesis
    by (cases ys) (auto simp: commas_Cons, metis append_Cons list.inject)
next
  case xs: (Cons x xs')
  show ?thesis
  proof (cases ys)
    case Nil
    obtain b s where "f x = b # s" "b \<noteq> c" using st by blast
    with Nil xs eq show ?thesis by (simp add: commas_Cons)
  next
    case (Cons y ys')
    with eq xs have "f x @ (concat (map (\<lambda>x. 44 # f x) xs') @ c # u)
        = f y @ (concat (map (\<lambda>x. 44 # f x) ys') @ c # v)"
      by (simp add: commas_Cons comp_def)
    from un [OF _ this] xs have "x = y"
      and rest: "concat (map (\<lambda>x. 44 # f x) xs') @ c # u = concat (map (\<lambda>x. 44 # f x) ys') @ c # v"
      by auto
    moreover have "xs' = ys' \<and> u = v"
      by (rule tail_unframe [OF _ c rest]) (use un xs in auto)
    ultimately show ?thesis using xs Cons by simp
  qed
qed

lemma dumps_unframe: "dumps False i @ u = dumps False j @ v \<Longrightarrow> i = j \<and> u = v"
proof (induction i arbitrary: j u v)
  case (JStr s)
  then obtain t where "j = JStr t" by (cases j) (auto simp: quote_def)
  with JStr show ?case using quote_unframe [of s u t v] by simp
next
  case (JArr xs)
  from JArr.prems obtain ys where j: "j = JArr ys"
    by (cases j) (auto simp: quote_def)
  have "xs = ys \<and> u = v"
  proof (rule commas_unframe [where f = "dumps False" and c = 93])
    show "\<exists>b s. dumps False x = b # s \<and> b \<noteq> 93" for x
      using dumps_start [of False x] by auto
  qed (use JArr j in auto)
  with j show ?case by simp
next
  case (JObj ps)
  from JObj.prems obtain qs where j: "j = JObj qs"
    by (cases j) (auto simp: quote_def)
  let ?f = "\<lambda>(k, v). quote False k @ 58 # dumps False v"
  have "ps = qs \<and> u = v"
  proof (rule commas_unframe [where f = ?f and c = 125])
    show "\<exists>b s. ?f x = b # s \<and> b \<noteq> 125" for x
      by (cases x) (simp add: quote_def)
    show "x = y \<and> u = v" if x: "x \<in> set ps" and eq: "?f x @ u = ?f y @ v" for x y u v
    proof -
      obtain k w l z where xy: "x = (k, w)" "y = (l, z)" by (cases x, cases y)
      with eq have "quote False k @ (58 # dumps False w @ u) = quote False l @ (58 # dumps False z @ v)" by simp
      from quote_unframe [OF this] have "k = l" and "dumps False w @ u = dumps False z @ v" by auto
      moreover have "w = z \<and> u = v"
        by (rule JObj.IH [OF x, of w]) (use xy calculation in \<open>auto simp: snds.simps\<close>)
      ultimately show ?thesis using xy by simp
    qed
  qed (use JObj j in auto)
  with j show ?case by simp
qed

interpretation json_code: self_delimiting "dumps False" 93
proof
  show "dumps False i @ u = dumps False j @ v \<Longrightarrow> i = j \<and> u = v" for i j u v
    by (rule dumps_unframe)
  show "\<exists>c s. dumps False j = c # s \<and> c \<noteq> 93" for j
    using dumps_start [of False j] by auto
qed

text \<open>Escaping everything outside printable ASCII leaves nothing an ASCII encoder could refuse.\<close>

lemma hex_digit_ascii [simp]: "n < 16 \<Longrightarrow> hex_digit n < 128"
  by (simp add: hex_digit_def)

lemma u_escape_ascii: "c \<in> set (u_escape n) \<Longrightarrow> c < 128"
  by (auto simp: u_escape_def)

lemma short_escape_ascii: "short_escape n = Some e \<Longrightarrow> c \<in> set e \<Longrightarrow> c < 128"
  by (auto simp: short_escape_def split: if_splits)

lemma esc_char_ascii_ascii: "c \<in> set (esc_char_ascii n) \<Longrightarrow> c < 128"
  by (cases "short_escape n")
    (auto simp: esc_char_ascii_def dest: u_escape_ascii short_escape_ascii split: if_splits)

lemma quote_ascii: "c \<in> set (quote True s) \<Longrightarrow> c < 128"
  by (auto simp: quote_def dest: esc_char_ascii_ascii)

lemma set_commas: "set (commas xs) \<subseteq> insert 44 (\<Union> (set ` set xs))"
  by (induction xs rule: commas.induct) auto

lemma dumps_ascii: "c \<in> set (dumps True j) \<Longrightarrow> c < 128"
proof (induction j)
  case (JArr xs)
  then show ?case using set_commas [of "map (dumps True) xs"] by auto
next
  case (JObj ps)
  then show ?case
    using set_commas [of "map (\<lambda>(k, v). quote True k @ 58 # dumps True v) ps"] by (fastforce dest: quote_ascii)
qed (auto dest: quote_ascii)

end
