(* ===== verification/Sha256.thy ===== *)
theory Sha256
  imports Text
begin

text \<open>
  \<^verbatim>\<open>hashlib.sha256(...).hexdigest()\<close> and \<^verbatim>\<open>hmac.new(key, msg, sha256).hexdigest()\<close> (FIPS 180-4 and
  RFC 2104), on 32-bit words with wrap-around addition. What the program relies on beyond
  determinism is the shape of the result: 64 lower-case hexadecimal characters.
\<close>

unbundle bit_operations_syntax

type_synonym u32 = "32 word"

definition sha_k :: "u32 list" where
  "sha_k =
   [1116352408, 1899447441, 3049323471, 3921009573, 961987163, 1508970993, 2453635748, 2870763221,
    3624381080, 310598401, 607225278, 1426881987, 1925078388, 2162078206, 2614888103, 3248222580,
    3835390401, 4022224774, 264347078, 604807628, 770255983, 1249150122, 1555081692, 1996064986,
    2554220882, 2821834349, 2952996808, 3210313671, 3336571891, 3584528711, 113926993, 338241895,
    666307205, 773529912, 1294757372, 1396182291, 1695183700, 1986661051, 2177026350, 2456956037,
    2730485921, 2820302411, 3259730800, 3345764771, 3516065817, 3600352804, 4094571909, 275423344,
    430227734, 506948616, 659060556, 883997877, 958139571, 1322822218, 1537002063, 1747873779,
    1955562222, 2024104815, 2227730452, 2361852424, 2428436474, 2756734187, 3204031479, 3329325298]"

datatype sha_state = Sha u32 u32 u32 u32 u32 u32 u32 u32

definition sha_init :: sha_state where
  "sha_init = Sha 1779033703 3144134277 1013904242 2773480762 1359893119 2600822924 528734635 1541459225"

definition rotr :: "nat \<Rightarrow> u32 \<Rightarrow> u32" where
  "rotr n x = drop_bit n x OR push_bit (32 - n) x"

definition small_sigma0 :: "u32 \<Rightarrow> u32" where
  "small_sigma0 x = rotr 7 x XOR rotr 18 x XOR drop_bit 3 x"

definition small_sigma1 :: "u32 \<Rightarrow> u32" where
  "small_sigma1 x = rotr 17 x XOR rotr 19 x XOR drop_bit 10 x"

definition big_sigma0 :: "u32 \<Rightarrow> u32" where
  "big_sigma0 x = rotr 2 x XOR rotr 13 x XOR rotr 22 x"

definition big_sigma1 :: "u32 \<Rightarrow> u32" where
  "big_sigma1 x = rotr 6 x XOR rotr 11 x XOR rotr 25 x"

definition sha_ch :: "u32 \<Rightarrow> u32 \<Rightarrow> u32 \<Rightarrow> u32" where
  "sha_ch x y z = (x AND y) XOR (NOT x AND z)"

definition sha_maj :: "u32 \<Rightarrow> u32 \<Rightarrow> u32 \<Rightarrow> u32" where
  "sha_maj x y z = (x AND y) XOR (x AND z) XOR (y AND z)"

subsection \<open>Padding and blocks\<close>

definition be64 :: "nat \<Rightarrow> bytes" where
  "be64 n = (let w = word_of_nat n :: 64 word in map (\<lambda>i. ucast (drop_bit i w)) [56, 48, 40, 32, 24, 16, 8, 0])"

definition sha_pad :: "bytes \<Rightarrow> bytes" where
  "sha_pad m = m @ [0x80] @ replicate ((119 - length m mod 64) mod 64) 0 @ be64 (8 * length m)"

fun blocks :: "nat \<Rightarrow> bytes \<Rightarrow> bytes list" where
  "blocks 0 m = []"
| "blocks (Suc n) m = take 64 m # blocks n (drop 64 m)"

fun be_words :: "bytes \<Rightarrow> u32 list" where
  "be_words (a # b # c # d # m) =
     (push_bit 24 (ucast a) OR push_bit 16 (ucast b) OR push_bit 8 (ucast c) OR ucast d) # be_words m"
| "be_words _ = []"

text \<open>
  The message schedule, kept as the last sixteen words, newest first: the next word is built
  from those 2, 7, 15 and 16 places back.
\<close>

definition next_word :: "u32 list \<Rightarrow> u32" where
  "next_word ws = small_sigma1 (ws ! 1) + ws ! 6 + small_sigma0 (ws ! 14) + ws ! 15"

fun schedule :: "nat \<Rightarrow> u32 list \<Rightarrow> u32 list" where
  "schedule 0 ws = rev ws"
| "schedule (Suc n) ws = schedule n (next_word ws # ws)"

fun sha_round :: "sha_state \<Rightarrow> u32 \<times> u32 \<Rightarrow> sha_state" where
  "sha_round (Sha a b c d e f g h) (k, w) =
     (let t1 = h + big_sigma1 e + sha_ch e f g + k + w;
          t2 = big_sigma0 a + sha_maj a b c
      in Sha (t1 + t2) a b c (d + t1) e f g)"

fun add_state :: "sha_state \<Rightarrow> sha_state \<Rightarrow> sha_state" where
  "add_state (Sha a b c d e f g h) (Sha a' b' c' d' e' f' g' h') =
     Sha (a + a') (b + b') (c + c') (d + d') (e + e') (f + f') (g + g') (h + h')"

definition sha_block :: "sha_state \<Rightarrow> bytes \<Rightarrow> sha_state" where
  "sha_block s m = add_state s (foldl sha_round s (zip sha_k (schedule 48 (rev (be_words m)))))"

fun state_words :: "sha_state \<Rightarrow> u32 list" where
  "state_words (Sha a b c d e f g h) = [a, b, c, d, e, f, g, h]"

definition word_bytes :: "u32 \<Rightarrow> bytes" where
  "word_bytes w = map (\<lambda>i. ucast (drop_bit i w)) [24, 16, 8, 0]"

definition sha256 :: "bytes \<Rightarrow> bytes" where
  "sha256 m =
     (let p = sha_pad m
      in concat (map word_bytes (state_words (foldl sha_block sha_init (blocks (length p div 64) p)))))"

definition hexdigest :: "bytes \<Rightarrow> pystr" where
  "hexdigest m = concat (map (\<lambda>b. [hex_digit (unat b div 16), hex_digit (unat b mod 16)]) m)"

definition sha256_hex :: "bytes \<Rightarrow> pystr" where
  "sha256_hex m = hexdigest (sha256 m)"

subsection \<open>HMAC\<close>

definition hmac_block_key :: "bytes \<Rightarrow> bytes" where
  "hmac_block_key k = (let k' = if 64 < length k then sha256 k else k in k' @ replicate (64 - length k') 0)"

definition hmac_sha256_hex :: "bytes \<Rightarrow> bytes \<Rightarrow> pystr" where
  "hmac_sha256_hex k m =
     (let b = hmac_block_key k
      in sha256_hex (map (\<lambda>x. x XOR 0x5c) b @ sha256 (map (\<lambda>x. x XOR 0x36) b @ m)))"

subsection \<open>The shape of a digest\<close>

definition is_digest :: "pystr \<Rightarrow> bool" where
  "is_digest s \<longleftrightarrow> length s = 64 \<and> list_all is_hex s"

lemma length_word_bytes [simp]: "length (word_bytes w) = 4"
  by (simp add: word_bytes_def)

lemma length_state_words [simp]: "length (state_words s) = 8"
  by (cases s) simp

lemma length_concat_const: "(\<And>x. length (f x) = k) \<Longrightarrow> length (concat (map f xs)) = k * length xs"
  by (induction xs) auto

lemma length_sha256 [simp]: "length (sha256 m) = 32"
  by (simp add: sha256_def Let_def length_concat_const [where k = 4])

lemma length_hexdigest [simp]: "length (hexdigest m) = 2 * length m"
  by (simp add: hexdigest_def length_concat_const [where k = 2])

lemma unat_byte: "unat (b :: byte) < 256"
  using unsigned_less [of b] by simp

lemma hexdigest_hex: "list_all is_hex (hexdigest m)"
proof -
  have "unat b div 16 < 16" for b :: byte
    using unat_byte [of b] by (simp add: less_mult_imp_div_less)
  then show ?thesis by (auto simp: hexdigest_def list_all_iff)
qed

lemma sha256_hex_digest [simp]: "is_digest (sha256_hex m)"
  by (simp add: is_digest_def sha256_hex_def hexdigest_hex)

lemma hmac_digest [simp]: "is_digest (hmac_sha256_hex k m)"
  by (simp add: hmac_sha256_hex_def Let_def)

lemma pad_fill:
  assumes "r < (64::nat)"
  shows "64 dvd r + 9 + (119 - r) mod 64"
proof (cases "r \<le> 55")
  case True
  then have "119 - r = (55 - r) + 1 * 64" by simp
  then have "(119 - r) mod 64 = 55 - r" by (simp only: mod_mult_self1) simp
  with True have "r + 9 + (119 - r) mod 64 = 64" by simp
  then show ?thesis by (simp only: dvd_refl)
next
  case False
  then have "(119 - r) mod 64 = 119 - r" by simp
  with assms have "r + 9 + (119 - r) mod 64 = 2 * 64" by simp
  then show ?thesis by (simp only: dvd_triv_right)
qed

lemma length_sha_pad: "64 dvd length (sha_pad m)"
proof -
  have "64 dvd 64 * (length m div 64) + (length m mod 64 + 9 + (119 - length m mod 64) mod 64)"
    by (intro dvd_add dvd_triv_left pad_fill) simp
  moreover have "length (sha_pad m) = 64 * (length m div 64) + (length m mod 64 + 9 + (119 - length m mod 64) mod 64)"
    by (simp add: sha_pad_def be64_def Let_def)
  ultimately show ?thesis by simp
qed

end
