(* ===== verification/Ingestion.thy ===== *)
theory Ingestion
  imports Regex Json Sha256
begin

text \<open>
  \<^verbatim>\<open>ingestion.py\<close>: the rules for endpoint identifiers and idempotency keys, the normalisation of
  parsed form pairs into a submission, and the fingerprint by which a retry is recognised. The
  random part of a generated identifier and the clock reading are arguments.
\<close>

subsection \<open>Identifiers and keys\<close>

definition endpoint_id_min_length :: nat where "endpoint_id_min_length = 3"
definition endpoint_id_max_length :: nat where "endpoint_id_max_length = 64"

definition id_edge_char :: "nat \<Rightarrow> bool" where
  "id_edge_char c \<longleftrightarrow> is_lower c \<or> is_digit c"

definition id_inner_char :: "nat \<Rightarrow> bool" where
  "id_inner_char c \<longleftrightarrow> id_edge_char c \<or> c = 95 \<or> c = 45"

text \<open>\<^verbatim>\<open>[a-z0-9](?:[a-z0-9_-]*[a-z0-9])?\<close>\<close>

definition endpoint_id_pattern :: regex where
  "endpoint_id_pattern =
     Seq (Class id_edge_char) (Opt (Seq (Star (Class id_inner_char)) (Class id_edge_char)))"

definition is_valid_endpoint_id :: "pystr \<Rightarrow> bool" where
  "is_valid_endpoint_id v \<longleftrightarrow>
     endpoint_id_min_length \<le> length v \<and> length v \<le> endpoint_id_max_length \<and>
     fullmatch endpoint_id_pattern v"

definition idempotency_key_min_length :: nat where "idempotency_key_min_length = 16"
definition idempotency_key_max_length :: nat where "idempotency_key_max_length = 255"

text \<open>\<^verbatim>\<open>[!-~]+\<close>\<close>

definition key_char :: "nat \<Rightarrow> bool" where
  "key_char c \<longleftrightarrow> 33 \<le> c \<and> c \<le> 126"

definition idempotency_key_pattern :: regex where
  "idempotency_key_pattern = Plus (Class key_char)"

definition is_valid_idempotency_key :: "pystr \<Rightarrow> bool" where
  "is_valid_idempotency_key v \<longleftrightarrow>
     idempotency_key_min_length \<le> length v \<and> length v \<le> idempotency_key_max_length \<and>
     fullmatch idempotency_key_pattern v"

subsection \<open>Submissions\<close>

text \<open>A Python dict keeps the order its keys were first inserted in: an association list.\<close>

type_synonym form_fields = "(pystr \<times> pystr list) list"

record submission =
  sub_id :: pystr
  sub_endpoint_id :: pystr
  sub_received_at :: time
  sub_fields :: form_fields

definition field_count :: "form_fields \<Rightarrow> nat" where
  "field_count fs = sum_list (map (\<lambda>(n, vs). length vs) fs)"

definition new_submission_id :: "pystr \<Rightarrow> pystr" where
  "new_submission_id hex = lit ''sub_'' @ hex"

text \<open>The rule a rejected submission broke, with the numbers and names its details carry.\<close>

datatype rejection =
    TooManyFields nat nat
  | EmptyFieldName
  | FieldNameTooLong nat nat
  | ControlInFieldName
  | FieldValueTooLong pystr nat nat
  | NulInFieldValue pystr
  | EmptySubmission

fun rejection_code :: "rejection \<Rightarrow> pystr" where
  "rejection_code (TooManyFields l r) = lit ''too_many_fields''"
| "rejection_code EmptyFieldName = lit ''invalid_field_name''"
| "rejection_code (FieldNameTooLong l r) = lit ''field_name_too_long''"
| "rejection_code ControlInFieldName = lit ''invalid_field_name''"
| "rejection_code (FieldValueTooLong n l r) = lit ''field_value_too_long''"
| "rejection_code (NulInFieldValue n) = lit ''invalid_field_value''"
| "rejection_code EmptySubmission = lit ''empty_submission''"

record field_limits =
  max_fields :: nat
  max_field_name_length :: nat
  max_field_value_length :: nat

definition validate_field_name :: "pystr \<Rightarrow> nat \<Rightarrow> rejection option" where
  "validate_field_name name max_length =
     (if name = [] then Some EmptyFieldName
      else if max_length < length name then Some (FieldNameTooLong max_length (length name))
      else if list_ex is_control name then Some ControlInFieldName
      else None)"

definition validate_field_value :: "pystr \<Rightarrow> pystr \<Rightarrow> nat \<Rightarrow> rejection option" where
  "validate_field_value name v max_length =
     (if max_length < length v then Some (FieldValueTooLong name max_length (length v))
      else if 0 \<in> set v then Some (NulInFieldValue name)
      else None)"

text \<open>\<^verbatim>\<open>fields[name] = (*fields.get(name, ()), value)\<close>\<close>

fun append_field :: "pystr \<Rightarrow> pystr \<Rightarrow> form_fields \<Rightarrow> form_fields" where
  "append_field n v [] = [(n, [v])]"
| "append_field n v ((m, vs) # fs) =
     (if m = n then (m, vs @ [v]) # fs else (m, vs) # append_field n v fs)"

fun collect_fields :: "field_limits \<Rightarrow> (pystr \<times> pystr) list \<Rightarrow> form_fields \<Rightarrow> rejection + form_fields" where
  "collect_fields lims [] fs = Inr fs"
| "collect_fields lims ((n, v) # items) fs =
     (case validate_field_name n (max_field_name_length lims) of
        Some e \<Rightarrow> Inl e
      | None \<Rightarrow>
          (case validate_field_value n v (max_field_value_length lims) of
             Some e \<Rightarrow> Inl e
           | None \<Rightarrow> collect_fields lims items (append_field n v fs)))"

definition build_submission ::
  "field_limits \<Rightarrow> pystr \<Rightarrow> (pystr \<times> pystr) list \<Rightarrow> pystr \<Rightarrow> time \<Rightarrow> rejection + submission" where
  "build_submission lims endpoint items hex now =
     (if max_fields lims < length items then Inl (TooManyFields (max_fields lims) (length items))
      else
        (case collect_fields lims items [] of
           Inl e \<Rightarrow> Inl e
         | Inr fs \<Rightarrow>
             if fs = [] then Inl EmptySubmission
             else Inr \<lparr>sub_id = new_submission_id hex, sub_endpoint_id = endpoint,
                       sub_received_at = now, sub_fields = fs\<rparr>))"

subsection \<open>The fingerprint of a submission's content\<close>

text \<open>The canonical form: a JSON array of \<^verbatim>\<open>[name, [values]]\<close> pairs.\<close>

definition canonical_json :: "form_fields \<Rightarrow> json" where
  "canonical_json fs = JArr (map (\<lambda>(n, vs). JArr [JStr n, JStrs vs]) fs)"

definition canonical_fields :: "form_fields \<Rightarrow> pystr" where
  "canonical_fields fs = dumps False (canonical_json fs)"

definition payload_fingerprint :: "form_fields \<Rightarrow> py_exn + pystr" where
  "payload_fingerprint fs =
     (case utf8_encode (canonical_fields fs) of
        Inl e \<Rightarrow> Inl e
      | Inr b \<Rightarrow> Inr (sha256_hex b))"

subsection \<open>What the patterns accept\<close>

lemma endpoint_id_pattern_lang:
  "v \<in> lang endpoint_id_pattern \<longleftrightarrow>
   v \<noteq> [] \<and> id_edge_char (hd v) \<and> id_edge_char (last v) \<and> list_all id_inner_char v"
proof
  assume "v \<in> lang endpoint_id_pattern"
  then show "v \<noteq> [] \<and> id_edge_char (hd v) \<and> id_edge_char (last v) \<and> list_all id_inner_char v"
    by (auto simp: endpoint_id_pattern_def Opt_def star_Class list_all_iff id_inner_char_def)
next
  assume v: "v \<noteq> [] \<and> id_edge_char (hd v) \<and> id_edge_char (last v) \<and> list_all id_inner_char v"
  then obtain c w where cw: "v = c # w" "id_edge_char c" by (cases v) auto
  show "v \<in> lang endpoint_id_pattern"
  proof (cases w rule: rev_cases)
    case Nil
    with cw show ?thesis by (auto simp: endpoint_id_pattern_def Opt_def)
  next
    case (snoc u d)
    with v cw have "[c] \<in> lang (Class id_edge_char)" "u \<in> lang (Star (Class id_inner_char))"
      "[d] \<in> lang (Class id_edge_char)"
      by (auto simp: star_Class)
    moreover have "v = [c] @ u @ [d]" using cw snoc by simp
    ultimately show ?thesis
      unfolding endpoint_id_pattern_def Opt_def lang.simps by blast
  qed
qed

lemma idempotency_key_pattern_lang:
  "v \<in> lang idempotency_key_pattern \<longleftrightarrow> v \<noteq> [] \<and> list_all key_char v"
  by (simp add: idempotency_key_pattern_def lang_Plus_Class)

lemma valid_endpoint_id_iff:
  "is_valid_endpoint_id v \<longleftrightarrow>
   3 \<le> length v \<and> length v \<le> 64 \<and> list_all id_inner_char v \<and>
   id_edge_char (hd v) \<and> id_edge_char (last v)"
  by (auto simp: is_valid_endpoint_id_def fullmatch_lang endpoint_id_pattern_lang
      endpoint_id_min_length_def endpoint_id_max_length_def)

lemma valid_idempotency_key_iff:
  "is_valid_idempotency_key v \<longleftrightarrow> 16 \<le> length v \<and> length v \<le> 255 \<and> list_all key_char v"
  by (auto simp: is_valid_idempotency_key_def fullmatch_lang idempotency_key_pattern_lang
      idempotency_key_min_length_def idempotency_key_max_length_def)

subsection \<open>What a submission carries\<close>

definition pair_error :: "field_limits \<Rightarrow> pystr \<times> pystr \<Rightarrow> rejection option" where
  "pair_error lims p =
     (case validate_field_name (fst p) (max_field_name_length lims) of
        Some e \<Rightarrow> Some e
      | None \<Rightarrow> validate_field_value (fst p) (snd p) (max_field_value_length lims))"

text \<open>
  The reference: every field name once, in the order the names first appear, with all of its
  values in the order they were sent.
\<close>

definition names_in_order :: "(pystr \<times> pystr) list \<Rightarrow> pystr list" where
  "names_in_order items = rev (remdups (rev (map fst items)))"

definition values_of :: "pystr \<Rightarrow> (pystr \<times> pystr) list \<Rightarrow> pystr list" where
  "values_of n items = map snd (filter (\<lambda>p. fst p = n) items)"

definition grouped :: "(pystr \<times> pystr) list \<Rightarrow> form_fields" where
  "grouped items = map (\<lambda>n. (n, values_of n items)) (names_in_order items)"

lemma names_in_order_snoc:
  "names_in_order (items @ [(n, v)]) =
     (if n \<in> fst ` set items then names_in_order items else names_in_order items @ [n])"
  by (auto simp: names_in_order_def)

lemma set_names_in_order [simp]: "set (names_in_order items) = fst ` set items"
  by (simp add: names_in_order_def)

lemma distinct_names_in_order [simp]: "distinct (names_in_order items)"
  by (simp add: names_in_order_def)

lemma values_of_snoc: "values_of m (items @ [(n, v)]) = values_of m items @ (if m = n then [v] else [])"
  by (simp add: values_of_def)

lemma values_of_fresh: "n \<notin> fst ` set items \<Longrightarrow> values_of n items = []"
  by (force simp: values_of_def filter_empty_conv)

lemma append_field_map:
  "distinct ns \<Longrightarrow>
   append_field n v (map (\<lambda>m. (m, g m)) ns) =
     map (\<lambda>m. (m, g m @ (if m = n then [v] else []))) ns @ (if n \<in> set ns then [] else [(n, [v])])"
  by (induction ns) auto

lemma grouped_snoc: "append_field n v (grouped items) = grouped (items @ [(n, v)])"
  by (auto simp: grouped_def append_field_map names_in_order_snoc values_of_snoc values_of_fresh)

lemma fold_append_grouped: "foldl (\<lambda>fs (n, v). append_field n v fs) [] items = grouped items"
proof (induction items rule: rev_induct)
  case Nil
  then show ?case by (simp add: grouped_def names_in_order_def)
next
  case (snoc p items)
  then show ?case by (cases p) (simp add: grouped_snoc)
qed

lemma collect_fields_ok:
  "collect_fields lims items fs = Inr gs \<longleftrightarrow>
     list_all (\<lambda>p. pair_error lims p = None) items \<and>
     gs = foldl (\<lambda>fs (n, v). append_field n v fs) fs items"
  by (induction lims items fs rule: collect_fields.induct)
    (auto simp: pair_error_def split: option.splits)

lemma collect_fields_error:
  "list_all (\<lambda>p. pair_error lims p = None) pre \<Longrightarrow> pair_error lims p = Some e \<Longrightarrow>
   collect_fields lims (pre @ p # post) fs = Inl e"
  by (induction pre arbitrary: fs)
    (cases p; auto simp: pair_error_def split: option.splits)+

lemma grouped_Nil_iff [simp]: "grouped items = [] \<longleftrightarrow> items = []"
  by (auto simp: grouped_def names_in_order_def)

lemma sum_filter_fst:
  "distinct ns \<Longrightarrow> fst ` set items \<subseteq> set ns \<Longrightarrow>
   sum_list (map (\<lambda>n. length (values_of n items)) ns) = length items"
proof (induction items)
  case Nil
  then show ?case by (simp add: values_of_def)
next
  case (Cons p items)
  have "sum_list (map (\<lambda>n. length (values_of n (p # items))) ns) =
      sum_list (map (\<lambda>n. length (values_of n items)) ns) + sum_list (map (\<lambda>n. if fst p = n then 1 else 0) ns)"
    by (simp add: values_of_def sum_list_addf [symmetric] if_distrib cong: if_cong)
  moreover have "sum_list (map (\<lambda>n. if fst p = n then 1 else (0::nat)) ns) = 1"
    using Cons.prems by (simp add: sum_list_distinct_conv_sum_set)
  ultimately show ?case using Cons by simp
qed

lemma field_count_grouped: "field_count (grouped items) = length items"
proof -
  have "field_count (grouped items) = sum_list (map (\<lambda>n. length (values_of n items)) (names_in_order items))"
    by (simp add: field_count_def grouped_def comp_def)
  then show ?thesis by (simp add: sum_filter_fst)
qed

lemma build_submission_Inr_iff:
  "build_submission lims ep items hex now = Inr s \<longleftrightarrow>
     items \<noteq> [] \<and> length items \<le> max_fields lims \<and>
     list_all (\<lambda>p. pair_error lims p = None) items \<and>
     s = \<lparr>sub_id = new_submission_id hex, sub_endpoint_id = ep, sub_received_at = now,
          sub_fields = grouped items\<rparr>"
proof (cases "collect_fields lims items []")
  case (Inl e)
  then have "\<not> list_all (\<lambda>p. pair_error lims p = None) items"
    using collect_fields_ok [of lims items "[]" "foldl (\<lambda>fs (n, v). append_field n v fs) [] items"] by auto
  with Inl show ?thesis by (simp add: build_submission_def)
next
  case (Inr fs)
  then have "list_all (\<lambda>p. pair_error lims p = None) items \<and> fs = grouped items"
    by (simp add: collect_fields_ok fold_append_grouped)
  with Inr show ?thesis by (auto simp: build_submission_def)
qed

lemma build_submission_Inl:
  "items = pre @ p # post \<Longrightarrow> length items \<le> max_fields lims \<Longrightarrow>
   list_all (\<lambda>p. pair_error lims p = None) pre \<Longrightarrow> pair_error lims p = Some e \<Longrightarrow>
   build_submission lims ep items hex now = Inl e"
  by (simp add: build_submission_def collect_fields_error)

subsection \<open>The canonical form determines the content\<close>

lemma canonical_json_inj: "canonical_json f = canonical_json g \<longleftrightarrow> f = g"
proof -
  have "inj (\<lambda>(n, vs). JArr [JStr n, JStrs vs])" by (auto simp: inj_on_def)
  then show ?thesis by (simp add: canonical_json_def)
qed

lemma canonical_fields_inj: "canonical_fields f = canonical_fields g \<longleftrightarrow> f = g"
  using json_code.enc_inj [of "canonical_json f" "canonical_json g"]
  by (auto simp: canonical_fields_def canonical_json_inj)

lemma payload_fingerprint_digest: "payload_fingerprint f = Inr d \<Longrightarrow> is_digest d"
  by (auto simp: payload_fingerprint_def split: sum.splits)

end
