(* ===== verification/Calendar.thy ===== *)
theory Calendar
  imports Text
begin

text \<open>
  How Python renders an aware UTC \<^verbatim>\<open>datetime\<close>: \<^verbatim>\<open>isoformat()\<close> over the proleptic Gregorian calendar, and
  \<^verbatim>\<open>str.replace\<close>, which the program uses to write the offset as a Z.
\<close>

subsection \<open>Days to dates\<close>

definition days_before_month :: "int list" where
  "days_before_month = [0, 0, 31, 59, 90, 120, 151, 181, 212, 243, 273, 304, 334]"

definition days_in_month :: "int list" where
  "days_in_month = [0, 31, 28, 31, 30, 31, 30, 31, 31, 30, 31, 30, 31]"

text \<open>The ordinal of 1970-01-01; day 1 is 0001-01-01.\<close>

definition epoch_ordinal :: int where "epoch_ordinal = 719163"

definition ord_to_ymd :: "int \<Rightarrow> int \<times> int \<times> int" where
  "ord_to_ymd m =
     (let n = m - 1; n400 = n div 146097; n = n mod 146097;
          n100 = n div 36524; n = n mod 36524;
          n4 = n div 1461; n = n mod 1461;
          n1 = n div 365; n = n mod 365;
          year = n400 * 400 + 1 + n100 * 100 + n4 * 4 + n1
      in if n1 = 4 \<or> n100 = 4 then (year - 1, 12, 31)
         else
           let leap = (n1 = 3 \<and> (n4 \<noteq> 24 \<or> n100 = 3));
               month = (n + 50) div 32;
               preceding = days_before_month ! nat month + (if month > 2 \<and> leap then 1 else 0)
           in if preceding > n
              then let month = month - 1;
                       preceding = preceding - (days_in_month ! nat month + (if month = 2 \<and> leap then 1 else 0))
                   in (year, month, n - preceding + 1)
              else (year, month, n - preceding + 1))"

definition dec2 :: "int \<Rightarrow> pystr" where "dec2 n = zfill 2 (decimal (nat n))"
definition dec4 :: "int \<Rightarrow> pystr" where "dec4 n = zfill 4 (decimal (nat n))"
definition dec6 :: "int \<Rightarrow> pystr" where "dec6 n = zfill 6 (decimal (nat n))"

subsection \<open>ISO 8601\<close>

definition iso_date :: "time \<Rightarrow> pystr" where
  "iso_date t =
     (let (y, m, d) = ord_to_ymd (t div day_us + epoch_ordinal)
      in dec4 y @ lit ''-'' @ dec2 m @ lit ''-'' @ dec2 d)"

definition iso_clock :: "time \<Rightarrow> pystr" where
  "iso_clock t =
     (let s = t mod day_us div 1000000
      in dec2 (s div 3600) @ lit '':'' @ dec2 (s div 60 mod 60) @ lit '':'' @ dec2 (s mod 60))"

text \<open>\<^verbatim>\<open>isoformat()\<close> writes the microseconds only when there are any.\<close>

definition isoformat :: "time \<Rightarrow> pystr" where
  "isoformat t =
     iso_date t @ lit ''T'' @ iso_clock t @
     (if t mod 1000000 = 0 then [] else lit ''.'' @ dec6 (t mod 1000000)) @ lit ''+00:00''"

text \<open>\<^verbatim>\<open>isoformat(timespec="seconds")\<close>.\<close>

definition isoformat_seconds :: "time \<Rightarrow> pystr" where
  "isoformat_seconds t = iso_date t @ lit ''T'' @ iso_clock t @ lit ''+00:00''"

subsection \<open>Replacement\<close>

text \<open>\<^verbatim>\<open>s.replace(old, new)\<close> for a non-empty \<^verbatim>\<open>old\<close>: left to right, occurrences do not overlap.\<close>

function py_replace :: "pystr \<Rightarrow> pystr \<Rightarrow> pystr \<Rightarrow> pystr" where
  "py_replace old new s =
     (case s of [] \<Rightarrow> []
      | c # s' \<Rightarrow>
          if old \<noteq> [] \<and> starts_with old s then new @ py_replace old new (drop (length old) s)
          else c # py_replace old new s')"
  by pat_completeness auto
termination
  by (relation "measure (\<lambda>(old, new, s). length s)") (auto simp: length_greater_0_conv diff_less)

declare py_replace.simps [simp del]

lemma py_replace_Nil [simp]: "py_replace old new [] = []"
  by (subst py_replace.simps) simp

lemma py_replace_Cons_other:
  "\<not> starts_with old (c # s) \<Longrightarrow> py_replace old new (c # s) = c # py_replace old new s"
  by (subst py_replace.simps) simp

lemma py_replace_Cons_hit:
  "old \<noteq> [] \<Longrightarrow> starts_with old s \<Longrightarrow> py_replace old new s = new @ py_replace old new (drop (length old) s)"
  by (subst py_replace.simps) (cases s; cases old; simp)

definition rfc3339 :: "time \<Rightarrow> pystr" where
  "rfc3339 t = py_replace (lit ''+00:00'') (lit ''Z'') (isoformat t)"

text \<open>A text free of the first character of \<^verbatim>\<open>old\<close> is passed over.\<close>

lemma py_replace_skip:
  "p \<notin> set s \<Longrightarrow> py_replace (p # old) new (s @ t) = s @ py_replace (p # old) new t"
  by (induction s) (auto simp: py_replace_Cons_other)

lemma digits_no_plus: "43 \<notin> set (decimal n)"
  using decimal_digits [of 43 n] by (auto simp: is_digit_def)

lemma dec_no_plus [simp]: "43 \<notin> set (dec2 n)" "43 \<notin> set (dec4 n)" "43 \<notin> set (dec6 n)"
  by (auto simp: dec2_def dec4_def dec6_def zfill_def digits_no_plus)

lemma rfc3339_Z:
  "rfc3339 t = iso_date t @ lit ''T'' @ iso_clock t @
     (if t mod 1000000 = 0 then [] else lit ''.'' @ dec6 (t mod 1000000)) @ lit ''Z''"
proof -
  let ?b = "iso_date t @ lit ''T'' @ iso_clock t @
     (if t mod 1000000 = 0 then [] else lit ''.'' @ dec6 (t mod 1000000))"
  have "43 \<notin> set ?b"
    by (auto simp: iso_date_def iso_clock_def Let_def lit_def split: prod.splits)
  then have "py_replace (43 # lit ''00:00'') (lit ''Z'') (?b @ lit ''+00:00'')
      = ?b @ py_replace (43 # lit ''00:00'') (lit ''Z'') (lit ''+00:00'')"
    by (rule py_replace_skip)
  moreover have "py_replace (43 # lit ''00:00'') (lit ''Z'') (lit ''+00:00'') = lit ''Z''"
    by (subst py_replace_Cons_hit) (simp_all add: lit_def)
  ultimately show ?thesis by (simp add: rfc3339_def isoformat_def lit_def)
qed

end
