(* ===== verification/Webhooks.thy ===== *)
theory Webhooks
  imports Ingestion Calendar
begin

text \<open>
  \<^verbatim>\<open>webhooks.py\<close>: the states of a delivery, the outcomes of an attempt, when an outcome is worth
  repeating and how long to wait, the generated identifiers, and the signed payload. The check of
  a destination URL is in the theory WebhookUrl.
\<close>

subsection \<open>Outcomes and states\<close>

datatype delivery_outcome = SUCCEEDED | HTTP_ERROR | TIMEOUT | NETWORK_ERROR

datatype delivery_state = PENDING | PROCESSING | DELIVERED | FAILED

fun outcome_value :: "delivery_outcome \<Rightarrow> pystr" where
  "outcome_value SUCCEEDED = lit ''succeeded''"
| "outcome_value HTTP_ERROR = lit ''http_error''"
| "outcome_value TIMEOUT = lit ''timeout''"
| "outcome_value NETWORK_ERROR = lit ''network_error''"

fun state_value :: "delivery_state \<Rightarrow> pystr" where
  "state_value PENDING = lit ''pending''"
| "state_value PROCESSING = lit ''processing''"
| "state_value DELIVERED = lit ''delivered''"
| "state_value FAILED = lit ''failed''"

instantiation delivery_state :: enum
begin

definition "enum_delivery_state = [PENDING, PROCESSING, DELIVERED, FAILED]"
definition "enum_all_delivery_state P \<longleftrightarrow> P PENDING \<and> P PROCESSING \<and> P DELIVERED \<and> P FAILED"
definition "enum_ex_delivery_state P \<longleftrightarrow> P PENDING \<or> P PROCESSING \<or> P DELIVERED \<or> P FAILED"

instance
proof
  have all: "s \<in> {PENDING, PROCESSING, DELIVERED, FAILED}" for s by (cases s) auto
  show "(UNIV :: delivery_state set) = set enum_class.enum"
    using all by (auto simp: enum_delivery_state_def)
  show "distinct (enum_class.enum :: delivery_state list)" by (simp add: enum_delivery_state_def)
  show "enum_class.enum_all P \<longleftrightarrow> Ball UNIV P" for P :: "delivery_state \<Rightarrow> bool"
    using all by (auto simp: enum_all_delivery_state_def) metis
  show "enum_class.enum_ex P \<longleftrightarrow> Bex UNIV P" for P :: "delivery_state \<Rightarrow> bool"
    using all by (auto simp: enum_ex_delivery_state_def) metis
qed

end

definition terminal_states :: "delivery_state list" where
  "terminal_states = [DELIVERED, FAILED]"

definition state_of_value :: "pystr \<Rightarrow> delivery_state option" where
  "state_of_value v = find (\<lambda>s. state_value s = v) enum_class.enum"

lemma state_value_inj [simp]: "state_value s = state_value t \<longleftrightarrow> s = t"
  by (cases s; cases t) (simp_all add: lit_def)

lemma state_of_value_inverse [simp]: "state_of_value (state_value s) = Some s"
  by (cases s) (simp_all add: state_of_value_def enum_delivery_state_def lit_def)

record delivery_result =
  outcome :: delivery_outcome
  response_status :: "int option"
  error_text :: "pystr option"

subsection \<open>Retrying\<close>

definition retryable_statuses :: "int list" where
  "retryable_statuses = [408, 425, 429]"

definition is_retryable :: "delivery_result \<Rightarrow> bool" where
  "is_retryable r =
     (if outcome r = SUCCEEDED then False
      else if outcome r = TIMEOUT \<or> outcome r = NETWORK_ERROR then True
      else (case response_status r of
              None \<Rightarrow> False
            | Some s \<Rightarrow> 500 \<le> s \<or> s \<in> set retryable_statuses))"

text \<open>The settings are Python floats, taken at their exact rational value.\<close>

record retry_policy =
  max_attempts :: int
  initial_seconds :: rat
  max_seconds :: rat

text \<open>
  \<^verbatim>\<open>initial_seconds * (2**exponent)\<close> converts the power to a float, which raises from \<open>2 ^ 1024\<close> on.
  Below that the product is exact, or infinite and then replaced by the cap.
\<close>

definition delay_after :: "retry_policy \<Rightarrow> int \<Rightarrow> py_exn + duration" where
  "delay_after p attempts_made =
     (let exponent = nat (max (attempts_made - 1) 0)
      in if 1024 \<le> exponent then Inl OverflowError
         else timedelta_seconds (min (initial_seconds p * 2 ^ exponent) (max_seconds p)))"

definition is_exhausted :: "retry_policy \<Rightarrow> int \<Rightarrow> bool" where
  "is_exhausted p attempts_made \<longleftrightarrow> max_attempts p \<le> attempts_made"

subsection \<open>Generated identifiers\<close>

text \<open>The random part, 32 or 64 hexadecimal characters from the operating system, is an argument.\<close>

definition new_signing_secret :: "pystr \<Rightarrow> pystr" where
  "new_signing_secret hex = lit ''whsec_'' @ hex"

definition new_delivery_attempt_id :: "pystr \<Rightarrow> pystr" where
  "new_delivery_attempt_id hex = lit ''att_'' @ hex"

definition new_webhook_delivery_id :: "pystr \<Rightarrow> pystr" where
  "new_webhook_delivery_id hex = lit ''whd_'' @ hex"

definition new_claim_token :: "pystr \<Rightarrow> pystr" where
  "new_claim_token hex = lit ''clm_'' @ hex"

lemma new_claim_token_inj [simp]: "new_claim_token a = new_claim_token b \<longleftrightarrow> a = b"
  by (simp add: new_claim_token_def)

record webhook_target =
  target_url :: pystr
  target_secret :: pystr

subsection \<open>The signed payload\<close>

definition build_payload :: "submission \<Rightarrow> json" where
  "build_payload s =
     JObj [(lit ''type'', JStr (lit ''submission.received'')),
           (lit ''submission'',
            JObj [(lit ''id'', JStr (sub_id s)),
                  (lit ''endpoint_id'', JStr (sub_endpoint_id s)),
                  (lit ''received_at'', JStr (rfc3339 (sub_received_at s))),
                  (lit ''fields'', JObj (map (\<lambda>(n, vs). (n, JStrs vs)) (sub_fields s)))])]"

definition serialize_payload :: "json \<Rightarrow> py_exn + bytes" where
  "serialize_payload payload = utf8_encode (dumps False payload)"

definition sign :: "bytes \<Rightarrow> pystr \<Rightarrow> py_exn + pystr" where
  "sign body secret =
     (case utf8_encode secret of
        Inl e \<Rightarrow> Inl e
      | Inr key \<Rightarrow> Inr (lit ''v1'' @ lit ''='' @ hmac_sha256_hex key body))"

subsection \<open>Facts about retrying\<close>

lemma is_retryable_simps [simp]:
  "outcome r = SUCCEEDED \<Longrightarrow> \<not> is_retryable r"
  "outcome r = TIMEOUT \<Longrightarrow> is_retryable r"
  "outcome r = NETWORK_ERROR \<Longrightarrow> is_retryable r"
  by (simp_all add: is_retryable_def)

lemma is_retryable_http:
  "outcome r = HTTP_ERROR \<Longrightarrow>
   is_retryable r \<longleftrightarrow> (\<exists>s. response_status r = Some s \<and> (500 \<le> s \<or> s = 408 \<or> s = 425 \<or> s = 429))"
  by (auto simp: is_retryable_def retryable_statuses_def split: option.splits)

lemma delay_after_Inr:
  "delay_after p n = Inr d \<Longrightarrow>
   d = round_half_even (min (initial_seconds p * 2 ^ nat (max (n - 1) 0)) (max_seconds p) * 1000000)"
  by (auto simp: delay_after_def Let_def dest: timedelta_seconds_Inr split: if_splits)

lemma delay_after_cap:
  assumes "delay_after p n = Inr d"
  shows "d \<le> round_half_even (max_seconds p * 1000000)"
  unfolding delay_after_Inr [OF assms] by (intro round_half_even_mono mult_right_mono) simp_all

lemma delay_after_nonneg:
  assumes "delay_after p n = Inr d" "0 \<le> initial_seconds p" "0 \<le> max_seconds p"
  shows "0 \<le> d"
  unfolding delay_after_Inr [OF assms(1)] using assms(2,3) by (intro round_half_even_nonneg) simp

lemma delay_after_mono:
  assumes "delay_after p m = Inr d" "delay_after p n = Inr e" "m \<le> n" "0 \<le> initial_seconds p"
  shows "d \<le> e"
proof -
  have "(2::rat) ^ nat (max (m - 1) 0) \<le> 2 ^ nat (max (n - 1) 0)"
    using assms(3) by (intro power_increasing) auto
  then have "initial_seconds p * 2 ^ nat (max (m - 1) 0) \<le> initial_seconds p * 2 ^ nat (max (n - 1) 0)"
    using assms(4) by (rule mult_left_mono)
  then show ?thesis
    unfolding delay_after_Inr [OF assms(1)] delay_after_Inr [OF assms(2)]
    by (intro round_half_even_mono mult_right_mono min.mono) auto
qed

subsection \<open>Facts about the payload\<close>

lemma fields_object_inj: "inj (\<lambda>(n :: pystr, vs). (n, JStrs vs))"
  by (auto simp: inj_on_def)

lemma build_payload_inj:
  "build_payload s = build_payload t \<longleftrightarrow>
   sub_id s = sub_id t \<and> sub_endpoint_id s = sub_endpoint_id t \<and>
   rfc3339 (sub_received_at s) = rfc3339 (sub_received_at t) \<and> sub_fields s = sub_fields t"
  by (auto simp: build_payload_def inj_map_eq_map [OF fields_object_inj])

lemma serialize_payload_Inl_iff:
  "(\<exists>e. serialize_payload j = Inl e) \<longleftrightarrow> list_ex is_surrogate (dumps False j)"
  by (auto simp: serialize_payload_def utf8_encode_def)

lemma sign_shape: "sign body secret = Inr h \<Longrightarrow> \<exists>d. h = lit ''v1='' @ d \<and> is_digest d"
  by (auto simp: sign_def lit_def split: sum.splits)

end
