(* ===== verification/RateLimit.thy ===== *)
theory RateLimit
  imports Text
begin

text \<open>
  \<^verbatim>\<open>ratelimit.py\<close>, the fixed window and the choice of the client address: which window an instant
  falls in, how long it lasts, when a spent unit is over the limit, and which address of a
  request is trusted. Reducing an address to its bucket is in the theory AddressBucket.
\<close>

datatype limiter = IP | ENDPOINT

fun limiter_value :: "limiter \<Rightarrow> pystr" where
  "limiter_value IP = lit ''ip''"
| "limiter_value ENDPOINT = lit ''endpoint''"

instantiation limiter :: linorder
begin

definition less_eq_limiter :: "limiter \<Rightarrow> limiter \<Rightarrow> bool" where
  "less_eq_limiter a b \<longleftrightarrow> limiter_value a \<le> limiter_value b"

definition less_limiter :: "limiter \<Rightarrow> limiter \<Rightarrow> bool" where
  "less_limiter a b \<longleftrightarrow> limiter_value a < limiter_value b"

instance
proof
  show "a \<le> b \<Longrightarrow> b \<le> a \<Longrightarrow> a = b" for a b :: limiter
    by (cases a; cases b) (auto simp: less_eq_limiter_def lit_def)
qed (auto simp: less_eq_limiter_def less_limiter_def)

end

record rate_limit =
  requests :: int
  window_seconds :: int

record rate_limit_decision =
  dec_limiter :: limiter
  dec_limit :: rate_limit
  dec_used :: int
  dec_retry_after :: int

definition decision_allowed :: "rate_limit_decision \<Rightarrow> bool" where
  "decision_allowed d \<longleftrightarrow> dec_used d \<le> requests (dec_limit d)"

subsection \<open>The fixed window\<close>

text \<open>
  \<^verbatim>\<open>int(now.timestamp())\<close> truncates towards zero. \<^verbatim>\<open>timestamp()\<close> is a float; below \<open>2 ^ 33\<close> seconds it
  is close enough to the exact quotient for the truncation to be the one written here.
\<close>

definition whole_seconds :: "time \<Rightarrow> int" where
  "whole_seconds t = (if 0 \<le> t then t div 1000000 else - ((- t) div 1000000))"

definition window_start :: "time \<Rightarrow> int \<Rightarrow> py_exn + time" where
  "window_start now w =
     (let elapsed = whole_seconds now; start = (elapsed - elapsed mod w) * 1000000
      in if dt_min \<le> start \<and> start \<le> dt_max then Inr start else Inl ValueError)"

definition seconds_until_window_ends :: "time \<Rightarrow> time \<Rightarrow> int \<Rightarrow> py_exn + int" where
  "seconds_until_window_ends now start w =
     (case timedelta_us (w * 1000000) of
        Inl e \<Rightarrow> Inl e
      | Inr d \<Rightarrow>
          (case dt_add start d of
             Inl e \<Rightarrow> Inl e
           | Inr finish \<Rightarrow> Inr (max 1 (- ((now - finish) div 1000000)))))"

subsection \<open>The address of a client\<close>

definition unknown_client :: pystr where
  "unknown_client = lit ''unknown''"

definition forwarded_hops :: "pystr \<Rightarrow> pystr list" where
  "forwarded_hops forwarded_for = filter (\<lambda>e. e \<noteq> []) (map py_strip (split_on 44 forwarded_for))"

definition client_address :: "pystr option \<Rightarrow> pystr option \<Rightarrow> nat \<Rightarrow> pystr" where
  "client_address peer forwarded_for trusted_proxy_hops =
     (let fallback = (case peer of None \<Rightarrow> unknown_client | Some p \<Rightarrow> if p = [] then unknown_client else p)
      in case forwarded_for of
           None \<Rightarrow> fallback
         | Some f \<Rightarrow>
             if 0 < trusted_proxy_hops \<and> f \<noteq> []
             then (let hops = forwarded_hops f
                   in if trusted_proxy_hops \<le> length hops
                      then hops ! (length hops - trusted_proxy_hops)
                      else fallback)
             else fallback)"

subsection \<open>Facts about the window\<close>

lemma whole_seconds_nonneg: "0 \<le> t \<Longrightarrow> whole_seconds t = t div 1000000"
  by (simp add: whole_seconds_def)

lemma floor_window:
  fixes t w :: int
  assumes "0 < w"
  shows "(t - t mod w) * 1000000 \<le> t * 1000000 \<and> t * 1000000 < (t - t mod w + w) * 1000000"
  using pos_mod_bound [OF assms, of t] pos_mod_sign [OF assms, of t] by simp

lemma le_div_million: "a * 1000000 \<le> x \<Longrightarrow> a \<le> x div (1000000 :: int)"
  using zdiv_mono1 [of "a * 1000000" x 1000000] by simp

lemma div_million_less: "x < a * 1000000 \<Longrightarrow> x div (1000000 :: int) < a"
  using div_mult_mod_eq [of x 1000000] pos_mod_sign [of 1000000 x] by linarith

lemma window_contains:
  assumes "window_start now w = Inr start" "0 \<le> now" "0 < w"
  shows "start \<le> now \<and> now < start + w * 1000000"
proof -
  let ?e = "now div 1000000"
  have start: "start = (?e - ?e mod w) * 1000000"
    using assms(1,2) by (auto simp: window_start_def whole_seconds_def Let_def split: if_splits)
  have "?e * 1000000 \<le> now" "now < (?e + 1) * 1000000" by simp_all
  moreover have "?e - ?e mod w \<le> ?e" "?e + 1 \<le> ?e - ?e mod w + w"
    using pos_mod_bound [OF assms(3), of ?e] pos_mod_sign [OF assms(3), of ?e] by simp_all
  ultimately show ?thesis unfolding start by (simp add: algebra_simps)
qed

lemma window_aligned: "window_start now w = Inr start \<Longrightarrow> w * 1000000 dvd start"
  by (auto simp: window_start_def Let_def minus_mod_eq_mult_div split: if_splits)

text \<open>Every instant of a window agrees on where the window starts.\<close>

lemma window_start_unique:
  assumes "w * 1000000 dvd start" "start \<le> now" "now < start + w * 1000000" "0 \<le> start" "now \<le> dt_max" "0 < w"
  shows "window_start now w = Inr start"
proof -
  obtain k where k: "start = w * 1000000 * k" using assms(1) by blast
  let ?e = "now div 1000000"
  have "w * k \<le> ?e" using assms(2) unfolding k by (intro le_div_million) (simp add: algebra_simps)
  moreover have "?e < w * k + w" using assms(3) unfolding k by (intro div_million_less) (simp add: algebra_simps)
  ultimately have "0 \<le> ?e - w * k" "?e - w * k < w" by simp_all
  then have "(?e - w * k) mod w = ?e - w * k" by (rule mod_pos_pos_trivial)
  then have "?e mod w = ?e - w * k" by (metis mod_diff_right_eq mod_mult_self1_is_0 diff_zero mult.commute)
  then have "(?e - ?e mod w) * 1000000 = start" unfolding k by (simp add: algebra_simps)
  moreover have "0 \<le> now" "dt_min \<le> start" "start \<le> dt_max"
    using assms by (simp_all add: dt_min_def)
  ultimately show ?thesis by (simp add: window_start_def whole_seconds_def)
qed

lemma seconds_until_bounds:
  assumes "seconds_until_window_ends now start w = Inr n" "start \<le> now" "1 \<le> w"
  shows "1 \<le> n \<and> n \<le> w"
proof -
  have n: "n = max 1 (- ((now - (start + w * 1000000)) div 1000000))"
    using assms(1) by (auto simp: seconds_until_window_ends_def split: sum.splits dest: timedelta_us_Inr dt_add_Inr)
  have "- w \<le> (now - (start + w * 1000000)) div 1000000"
    using assms(2) by (intro le_div_million) simp
  with n assms(3) show ?thesis by simp
qed

text \<open>Waiting as long as told leaves the window.\<close>

lemma seconds_until_enough:
  assumes "seconds_until_window_ends now start w = Inr n"
  shows "start + w * 1000000 \<le> now + n * 1000000"
proof -
  let ?x = "now - (start + w * 1000000)"
  have "n = max 1 (- (?x div 1000000))"
    using assms by (auto simp: seconds_until_window_ends_def split: sum.splits dest: timedelta_us_Inr dt_add_Inr)
  moreover have "?x div 1000000 * 1000000 \<le> ?x" by simp
  ultimately show ?thesis by (auto simp: max_def split: if_splits)
qed

subsection \<open>Facts about the client address\<close>

lemma forwarded_hops_append:
  "forwarded_hops (f @ 44 # g) = forwarded_hops f @ forwarded_hops g"
  by (simp add: forwarded_hops_def split_on_append)

lemma client_address_no_hops [simp]: "client_address peer f 0 = client_address peer None 0"
  by (simp add: client_address_def split: option.splits)

text \<open>Whatever a client writes in front of what the trusted proxies appended has no effect.\<close>

lemma client_address_suffix:
  assumes "0 < n" "n \<le> length (forwarded_hops g)"
  shows "client_address peer (Some (f @ 44 # g)) n = client_address peer (Some g) n"
proof -
  have "g \<noteq> []" using assms by (auto simp: forwarded_hops_def py_strip_def)
  moreover have "(forwarded_hops f @ forwarded_hops g) ! (length (forwarded_hops f) + length (forwarded_hops g) - n)
      = forwarded_hops g ! (length (forwarded_hops g) - n)"
    using assms by (subst nth_append) auto
  ultimately show ?thesis
    using assms by (simp add: client_address_def forwarded_hops_append Let_def)
qed

end
