(* ===== verification/Models.thy ===== *)
theory Models
  imports Webhooks RateLimit
begin

text \<open>
  \<^verbatim>\<open>models.py\<close>: one record per persisted row, the database as the six tables, and its constraints
  (primary keys, unique constraints, CHECKs and foreign keys). A transaction commits when the
  state it leaves satisfies them; otherwise it fails with an integrity error and changes nothing.
  The lengths of VARCHAR columns are not constraints of the model.
\<close>

subsection \<open>Rows\<close>

record endpoint =
  ep_id :: pystr
  ep_name :: pystr
  ep_is_active :: bool
  ep_created_at :: time
  ep_webhook_url :: "pystr option"
  ep_webhook_secret :: "pystr option"

text \<open>The stored row is the domain submission with its idempotency identity.\<close>

record submission_row = submission +
  sub_idempotency_key :: "pystr option"
  sub_payload_fingerprint :: "pystr option"

record delivery =
  whd_id :: pystr
  whd_submission_id :: "pystr option"
  whd_endpoint_id :: pystr
  whd_destination_url :: pystr
  whd_signing_secret :: pystr
  whd_state :: delivery_state
  whd_attempts :: int
  whd_cycle_attempts :: int
  whd_next_attempt_at :: time
  whd_claim_expires_at :: "time option"
  whd_claim_token :: "pystr option"
  whd_created_at :: time
  whd_completed_at :: "time option"

record attempt =
  att_id :: pystr
  att_delivery_id :: pystr
  att_submission_id :: "pystr option"
  att_number :: int
  att_destination_url :: pystr
  att_attempted_at :: time
  att_outcome :: delivery_outcome
  att_response_status :: "int option"
  att_error :: "pystr option"

record management_key =
  mk_id :: pystr
  mk_name :: pystr
  mk_display_prefix :: pystr
  mk_key_digest :: pystr
  mk_created_at :: time
  mk_revoked_at :: "time option"
  mk_last_used_at :: "time option"

definition mk_is_active :: "management_key \<Rightarrow> bool" where
  "mk_is_active k \<longleftrightarrow> mk_revoked_at k = None"

record rate_counter =
  rc_limiter :: limiter
  rc_subject :: pystr
  rc_window_start :: time
  rc_attempts :: int

definition rc_key :: "rate_counter \<Rightarrow> limiter \<times> pystr \<times> time" where
  "rc_key c = (rc_limiter c, rc_subject c, rc_window_start c)"

definition from_domain :: "submission \<Rightarrow> pystr option \<Rightarrow> pystr option \<Rightarrow> submission_row" where
  "from_domain s key fingerprint =
     \<lparr>sub_id = sub_id s, sub_endpoint_id = sub_endpoint_id s, sub_received_at = sub_received_at s,
      sub_fields = sub_fields s, sub_idempotency_key = key, sub_payload_fingerprint = fingerprint\<rparr>"

definition to_domain :: "submission_row \<Rightarrow> submission" where
  "to_domain r =
     \<lparr>sub_id = sub_id r, sub_endpoint_id = sub_endpoint_id r, sub_received_at = sub_received_at r,
      sub_fields = sub_fields r\<rparr>"

lemma to_domain_from_domain [simp]: "to_domain (from_domain s key fp) = s"
  by (simp add: to_domain_def from_domain_def)

lemma from_domain_sel [simp]:
  "sub_id (from_domain s key fp) = sub_id s"
  "sub_endpoint_id (from_domain s key fp) = sub_endpoint_id s"
  "sub_received_at (from_domain s key fp) = sub_received_at s"
  "sub_fields (from_domain s key fp) = sub_fields s"
  "sub_idempotency_key (from_domain s key fp) = key"
  "sub_payload_fingerprint (from_domain s key fp) = fp"
  by (simp_all add: from_domain_def)

lemma to_domain_sel [simp]:
  "sub_id (to_domain r) = sub_id r"
  "sub_endpoint_id (to_domain r) = sub_endpoint_id r"
  "sub_received_at (to_domain r) = sub_received_at r"
  "sub_fields (to_domain r) = sub_fields r"
  by (simp_all add: to_domain_def)

subsection \<open>The database\<close>

record db =
  endpoints :: "endpoint list"
  submissions :: "submission_row list"
  deliveries :: "delivery list"
  attempt_log :: "attempt list"
  api_keys :: "management_key list"
  counters :: "rate_counter list"

definition empty_db :: db where
  "empty_db = \<lparr>endpoints = [], submissions = [], deliveries = [], attempt_log = [], api_keys = [], counters = []\<rparr>"

text \<open>Rows whose unique columns are NULL do not collide, so only the keys that are present count.\<close>

definition idempotency_identity :: "submission_row \<Rightarrow> (pystr \<times> pystr) option" where
  "idempotency_identity s = map_option (Pair (sub_endpoint_id s)) (sub_idempotency_key s)"

definition endpoint_check :: "endpoint \<Rightarrow> bool" where
  "endpoint_check e \<longleftrightarrow> (ep_webhook_url e = None) = (ep_webhook_secret e = None)"

definition submission_check :: "submission_row \<Rightarrow> bool" where
  "submission_check s \<longleftrightarrow> (sub_idempotency_key s = None) = (sub_payload_fingerprint s = None)"

definition delivery_check :: "delivery \<Rightarrow> bool" where
  "delivery_check d \<longleftrightarrow> (whd_state d \<in> set terminal_states) = (whd_completed_at d \<noteq> None)"

definition endpoints_ok :: "db \<Rightarrow> bool" where
  "endpoints_ok d \<longleftrightarrow> distinct (map ep_id (endpoints d)) \<and> list_all endpoint_check (endpoints d)"

definition submissions_ok :: "db \<Rightarrow> bool" where
  "submissions_ok d \<longleftrightarrow>
     distinct (map sub_id (submissions d)) \<and>
     distinct (List.map_filter idempotency_identity (submissions d)) \<and>
     list_all submission_check (submissions d) \<and>
     list_all (\<lambda>s. sub_endpoint_id s \<in> set (map ep_id (endpoints d))) (submissions d)"

definition refers_to :: "'k list \<Rightarrow> 'k option \<Rightarrow> bool" where
  "refers_to ks r = (case r of None \<Rightarrow> True | Some k \<Rightarrow> k \<in> set ks)"

definition deliveries_ok :: "db \<Rightarrow> bool" where
  "deliveries_ok d \<longleftrightarrow>
     distinct (map whd_id (deliveries d)) \<and>
     distinct (List.map_filter whd_submission_id (deliveries d)) \<and>
     list_all delivery_check (deliveries d) \<and>
     list_all (\<lambda>w. refers_to (map sub_id (submissions d)) (whd_submission_id w)) (deliveries d) \<and>
     list_all (\<lambda>w. whd_endpoint_id w \<in> set (map ep_id (endpoints d))) (deliveries d)"

definition attempts_ok :: "db \<Rightarrow> bool" where
  "attempts_ok d \<longleftrightarrow>
     distinct (map att_id (attempt_log d)) \<and>
     list_all (\<lambda>a. att_delivery_id a \<in> set (map whd_id (deliveries d))) (attempt_log d) \<and>
     list_all (\<lambda>a. refers_to (map sub_id (submissions d)) (att_submission_id a)) (attempt_log d)"

definition keys_ok :: "db \<Rightarrow> bool" where
  "keys_ok d \<longleftrightarrow> distinct (map mk_id (api_keys d)) \<and> distinct (map mk_key_digest (api_keys d))"

definition counters_ok :: "db \<Rightarrow> bool" where
  "counters_ok d \<longleftrightarrow> distinct (map rc_key (counters d))"

definition db_ok :: "db \<Rightarrow> bool" where
  "db_ok d \<longleftrightarrow>
     endpoints_ok d \<and> submissions_ok d \<and> deliveries_ok d \<and> attempts_ok d \<and> keys_ok d \<and> counters_ok d"

lemmas db_ok_defs =
  db_ok_def endpoints_ok_def submissions_ok_def deliveries_ok_def attempts_ok_def keys_ok_def counters_ok_def

text \<open>A commit: the new state, or nothing when a constraint refuses it.\<close>

definition commit_db :: "db \<Rightarrow> db option" where
  "commit_db d = (if db_ok d then Some d else None)"

lemma empty_db_ok [simp]: "db_ok empty_db"
  by (simp add: empty_db_def db_ok_defs)

lemma commit_db_Some: "commit_db d = Some d' \<longleftrightarrow> d' = d \<and> db_ok d"
  by (auto simp: commit_db_def)

subsection \<open>Deleting submissions\<close>

text \<open>
  \<^verbatim>\<open>DELETE FROM submissions WHERE id IN (...)\<close>: the foreign keys of deliveries and attempts are
  \<^verbatim>\<open>ON DELETE SET NULL\<close>.
\<close>

definition unlink :: "pystr list \<Rightarrow> pystr option \<Rightarrow> pystr option" where
  "unlink ids r = (case r of None \<Rightarrow> None | Some k \<Rightarrow> if k \<in> set ids then None else Some k)"

definition delete_submissions :: "pystr list \<Rightarrow> db \<Rightarrow> db" where
  "delete_submissions ids d =
     d\<lparr>submissions := filter (\<lambda>s. sub_id s \<notin> set ids) (submissions d),
       deliveries := map (\<lambda>w. w\<lparr>whd_submission_id := unlink ids (whd_submission_id w)\<rparr>) (deliveries d),
       attempt_log := map (\<lambda>a. a\<lparr>att_submission_id := unlink ids (att_submission_id a)\<rparr>) (attempt_log d)\<rparr>"

lemma unlink_None [simp]: "unlink ids None = None"
  by (simp add: unlink_def)

lemma unlink_Some_iff: "unlink ids r = Some k \<longleftrightarrow> r = Some k \<and> k \<notin> set ids"
  by (auto simp: unlink_def split: option.splits)

lemma unlink_eq_None_iff: "unlink ids r = None \<longleftrightarrow> (\<forall>k. r = Some k \<longrightarrow> k \<in> set ids)"
  by (auto simp: unlink_def split: option.splits)

lemma map_filter_filter_distinct:
  "distinct (List.map_filter f xs) \<Longrightarrow> distinct (List.map_filter f (filter P xs))"
proof (induction xs)
  case (Cons x xs)
  have "set (List.map_filter f (filter P xs)) \<subseteq> set (List.map_filter f xs)"
    by (induction xs) (auto split: option.splits)
  with Cons show ?case by (auto split: option.splits)
qed simp

lemma map_filter_unlink:
  "List.map_filter whd_submission_id
     (map (\<lambda>w. w\<lparr>whd_submission_id := unlink ids (whd_submission_id w)\<rparr>) ws) =
   filter (\<lambda>k. k \<notin> set ids) (List.map_filter whd_submission_id ws)"
  by (induction ws) (auto simp: unlink_def split: option.splits)

lemma refers_to_unlink:
  "refers_to (map sub_id ss) r \<Longrightarrow> refers_to (map sub_id (filter (\<lambda>s. sub_id s \<notin> set ids) ss)) (unlink ids r)"
  by (auto simp: refers_to_def unlink_def split: option.splits)

lemma delete_submissions_ok:
  assumes "db_ok d"
  shows "db_ok (delete_submissions ids d)"
proof -
  have "distinct (map sub_id (filter (\<lambda>s. sub_id s \<notin> set ids) (submissions d)))"
    "distinct (List.map_filter idempotency_identity (filter (\<lambda>s. sub_id s \<notin> set ids) (submissions d)))"
    using assms by (auto simp: db_ok_defs intro: distinct_key_filter map_filter_filter_distinct)
  with assms show ?thesis
    by (auto simp: db_ok_defs delete_submissions_def map_filter_unlink list_all_iff comp_def
        delivery_check_def refers_to_unlink)
qed

subsection \<open>Tables addressed by primary key\<close>

text \<open>\<^verbatim>\<open>one_or_none()\<close>: no row, the one row, or an exception.\<close>

fun one_or_none :: "'row list \<Rightarrow> py_exn + 'row option" where
  "one_or_none [] = Inr None"
| "one_or_none [r] = Inr (Some r)"
| "one_or_none (r # s # rs) = Inl MultipleResultsFound"

lemma one_or_none_key:
  assumes "distinct (map key rows)"
  shows "one_or_none (filter (\<lambda>r. key r = k) rows) = Inr (find_row key rows k)"
  using assms
proof (induction rows)
  case (Cons r rows)
  show ?case
  proof (cases "key r = k")
    case True
    have "filter (\<lambda>s. key s = k) rows = []"
      unfolding filter_empty_conv using Cons.prems True by (auto simp: image_iff)
    with True show ?thesis by simp
  next
    case False
    with Cons show ?thesis by simp
  qed
qed simp

lemma list_row_store:
  "row_store key (find_row key) (\<lambda>t r. t @ [r]) update_rows (\<lambda>t. distinct (map key t))"
proof
  show "find_row key t k = Some r \<Longrightarrow> key r = k" for t k r
    by (drule find_row_SomeD) simp
  show "find_row key t (key r) = None \<Longrightarrow>
      find_row key (t @ [r]) k = (if k = key r then Some r else find_row key t k)" for t r k
    by (auto simp: find_row_append split: option.splits)
qed (auto simp: row_simps find_row_None_iff)

interpretation endpoint_rows: row_store ep_id "find_row ep_id" "\<lambda>t r. t @ [r]" update_rows "\<lambda>t. distinct (map ep_id t)"
  by (rule list_row_store)

interpretation delivery_rows: row_store whd_id "find_row whd_id" "\<lambda>t r. t @ [r]" update_rows "\<lambda>t. distinct (map whd_id t)"
  by (rule list_row_store)

interpretation key_rows: row_store mk_id "find_row mk_id" "\<lambda>t r. t @ [r]" update_rows "\<lambda>t. distinct (map mk_id t)"
  by (rule list_row_store)

interpretation counter_rows: row_store rc_key "find_row rc_key" "\<lambda>t r. t @ [r]" update_rows "\<lambda>t. distinct (map rc_key t)"
  by (rule list_row_store)

text \<open>
  An UPDATE of deliveries that keeps the identifying columns and the completion CHECK keeps every
  constraint.
\<close>

lemma map_filter_update_rows:
  "(\<And>r. g (f r) = g r) \<Longrightarrow> List.map_filter g (update_rows P f rows) = List.map_filter g rows"
  by (induction rows) (auto split: option.splits)

lemma update_deliveries_ok:
  assumes ok: "db_ok d"
    and keep: "\<And>w. whd_id (f w) = whd_id w" "\<And>w. whd_submission_id (f w) = whd_submission_id w"
      "\<And>w. whd_endpoint_id (f w) = whd_endpoint_id w"
    and check: "\<And>w. w \<in> set (deliveries d) \<Longrightarrow> P w \<Longrightarrow> delivery_check (f w)"
  shows "db_ok (d\<lparr>deliveries := update_rows P f (deliveries d)\<rparr>)"
  using ok check
  by (auto simp: db_ok_defs row_simps keep map_filter_update_rows list_all_iff set_update_rows)

lemma append_attempt_ok:
  assumes "db_ok d" "att_id a \<notin> att_id ` set (attempt_log d)"
    "att_delivery_id a \<in> whd_id ` set (deliveries d)"
    "refers_to (map sub_id (submissions d)) (att_submission_id a)"
  shows "db_ok (d\<lparr>attempt_log := attempt_log d @ [a]\<rparr>)"
  using assms by (auto simp: db_ok_defs)

end
