(* ===== verification/DeliveryStore.thy ===== *)
theory DeliveryStore
  imports Models
begin

text \<open>
  \<^verbatim>\<open>storage.py\<close>, the delivery queue: which deliveries are due, claiming them under a lease and a
  fresh token, loading what they carry, recording an attempt with the transition it justifies, and
  requeueing a failed delivery. Each operation returns its result and the committed database; an
  exception leaves the database as it was before the transaction.
\<close>

subsection \<open>Claiming\<close>

text \<open>A comparison with NULL is not true, so a lease that is not there has not run out.\<close>

definition due_condition :: "time \<Rightarrow> delivery \<Rightarrow> bool" where
  "due_condition now w \<longleftrightarrow>
     whd_submission_id w \<noteq> None \<and>
     ((whd_state w = PENDING \<and> whd_next_attempt_at w \<le> now) \<or>
      (whd_state w = PROCESSING \<and> (case whd_claim_expires_at w of None \<Rightarrow> False | Some e \<Rightarrow> e \<le> now)))"

definition claim_values :: "time \<Rightarrow> pystr \<Rightarrow> delivery \<Rightarrow> delivery" where
  "claim_values expires_at token w =
     w\<lparr>whd_state := PROCESSING, whd_claim_expires_at := Some expires_at, whd_claim_token := Some token\<rparr>"

text \<open>The conditional UPDATE of one candidate: the table it leaves and the rows it matched.\<close>

definition claim_row :: "time \<Rightarrow> time \<Rightarrow> pystr \<Rightarrow> pystr \<Rightarrow> delivery list \<Rightarrow> nat \<times> delivery list" where
  "claim_row now expires_at token candidate ws =
     (let P = (\<lambda>w. whd_id w = candidate \<and> due_condition now w)
      in (rows_matching P ws, update_rows P (claim_values expires_at token) ws))"

text \<open>
  The loop over the candidates. \<open>hex i\<close> is the random part of the i-th token. A loaded candidate
  is refreshed with the values of the UPDATE that matched it.
\<close>

fun claim_loop ::
  "(nat \<Rightarrow> pystr) \<Rightarrow> nat \<Rightarrow> time \<Rightarrow> time \<Rightarrow> delivery list \<Rightarrow> delivery list \<Rightarrow> delivery list \<times> delivery list" where
  "claim_loop hex i now expires_at [] ws = ([], ws)"
| "claim_loop hex i now expires_at (c # cs) ws =
     (let token = new_claim_token (hex i);
          (matched, ws') = claim_row now expires_at token (whd_id c) ws;
          (claimed, ws'') = claim_loop hex (Suc i) now expires_at cs ws'
      in (if matched = 1 then claim_values expires_at token c # claimed else claimed, ws''))"

text \<open>
  \<open>visible\<close> tells the rows that no other transaction has locked: \<^verbatim>\<open>SKIP LOCKED\<close> passes the others
  over. Where there is no row locking it is constantly true.
\<close>

definition claim_candidates :: "(pystr \<Rightarrow> bool) \<Rightarrow> time \<Rightarrow> nat \<Rightarrow> delivery list \<Rightarrow> delivery list" where
  "claim_candidates visible now limit ws =
     take limit (sort_key whd_next_attempt_at (filter (\<lambda>w. due_condition now w \<and> visible (whd_id w)) ws))"

definition lease_end :: "time \<Rightarrow> rat \<Rightarrow> py_exn + time" where
  "lease_end now lease_seconds =
     (case timedelta_seconds lease_seconds of Inl e \<Rightarrow> Inl e | Inr l \<Rightarrow> dt_add now l)"

definition claim_due_deliveries ::
  "(pystr \<Rightarrow> bool) \<Rightarrow> (nat \<Rightarrow> pystr) \<Rightarrow> time \<Rightarrow> rat \<Rightarrow> nat \<Rightarrow> db \<Rightarrow> (py_exn + delivery list) \<times> db" where
  "claim_due_deliveries visible hex now lease_seconds limit d =
     (let candidates = claim_candidates visible now limit (deliveries d)
      in case lease_end now lease_seconds of
           Inl e \<Rightarrow> (Inl e, d)
         | Inr expires_at \<Rightarrow>
             (let (claimed, ws) = claim_loop hex 0 now expires_at candidates (deliveries d)
              in (Inr claimed, d\<lparr>deliveries := ws\<rparr>)))"

subsection \<open>Loading what the claimed deliveries carry\<close>

definition carried :: "delivery list \<Rightarrow> (pystr \<times> pystr) list" where
  "carried jobs = List.map_filter (\<lambda>j. map_option (Pair (whd_id j)) (whd_submission_id j)) jobs"

fun resolve_carried :: "submission_row list \<Rightarrow> (pystr \<times> pystr) list \<Rightarrow> py_exn + (pystr \<times> submission) list" where
  "resolve_carried rows [] = Inr []"
| "resolve_carried rows ((job, sid) # cs) =
     (case find_row sub_id rows sid of
        None \<Rightarrow> Inl (KeyError sid)
      | Some r \<Rightarrow>
          (case resolve_carried rows cs of
             Inl e \<Rightarrow> Inl e
           | Inr res \<Rightarrow> Inr ((job, to_domain r) # res)))"

definition load_submissions :: "db \<Rightarrow> delivery list \<Rightarrow> py_exn + (pystr \<times> submission) list" where
  "load_submissions d jobs =
     (let cs = carried jobs; rows = filter (\<lambda>r. sub_id r \<in> set (map snd cs)) (submissions d)
      in resolve_carried rows cs)"

subsection \<open>Recording an attempt\<close>

record completed_attempt =
  ca_attempt :: attempt
  ca_state :: delivery_state
  ca_owned :: bool

text \<open>
  What the owner of the claim decides: the state and the columns written beside it. The retry is
  scheduled from the attempts of the current cycle.
\<close>

definition settle_owned ::
  "delivery_result \<Rightarrow> time \<Rightarrow> retry_policy \<Rightarrow> int \<Rightarrow> py_exn + delivery_state \<times> (delivery \<Rightarrow> delivery)" where
  "settle_owned r now p cycle_attempt =
     (let base = (\<lambda>w. w\<lparr>whd_cycle_attempts := cycle_attempt, whd_claim_expires_at := None, whd_claim_token := None\<rparr>)
      in if outcome r = SUCCEEDED
         then Inr (DELIVERED, \<lambda>w. (base w)\<lparr>whd_completed_at := Some now, whd_state := DELIVERED\<rparr>)
         else if is_retryable r \<and> \<not> is_exhausted p cycle_attempt
         then (case delay_after p cycle_attempt of
                 Inl e \<Rightarrow> Inl e
               | Inr delay \<Rightarrow>
                   (case dt_add now delay of
                      Inl e \<Rightarrow> Inl e
                    | Inr t \<Rightarrow> Inr (PENDING, \<lambda>w. (base w)\<lparr>whd_next_attempt_at := t, whd_state := PENDING\<rparr>)))
         else Inr (FAILED, \<lambda>w. (base w)\<lparr>whd_completed_at := Some now, whd_state := FAILED\<rparr>))"

definition new_attempt :: "pystr \<Rightarrow> delivery \<Rightarrow> delivery_result \<Rightarrow> time \<Rightarrow> int \<Rightarrow> attempt" where
  "new_attempt hex job r now number =
     \<lparr>att_id = new_delivery_attempt_id hex, att_delivery_id = whd_id job,
      att_submission_id = whd_submission_id job, att_number = number,
      att_destination_url = whd_destination_url job, att_attempted_at = now,
      att_outcome = outcome r, att_response_status = response_status r, att_error = error_text r\<rparr>"

text \<open>
  \<open>job\<close> is the delivery as the worker loaded it; what is decided is decided from the stored row.
  A superseded worker writes the lifetime total and nothing else.
\<close>

definition complete_attempt ::
  "pystr \<Rightarrow> delivery \<Rightarrow> delivery_result \<Rightarrow> time \<Rightarrow> retry_policy \<Rightarrow> pystr option \<Rightarrow> db
     \<Rightarrow> (py_exn + completed_attempt) \<times> db" where
  "complete_attempt hex job r now p claim_token d =
     (case find_row whd_id (deliveries d) (whd_id job) of
        None \<Rightarrow> (Inl NoResultFound, d)
      | Some current \<Rightarrow>
          (let owned = (claim_token \<noteq> None \<and> whd_claim_token current = claim_token);
               number = whd_attempts current + 1;
               a = new_attempt hex job r now number;
               decided = (if owned then settle_owned r now p (whd_cycle_attempts current + 1)
                          else Inr (whd_state current, \<lambda>w. w))
           in case decided of
                Inl e \<Rightarrow> (Inl e, d)
              | Inr (state, write) \<Rightarrow>
                  (let P = (\<lambda>w. whd_id w = whd_id job \<and> (owned \<longrightarrow> whd_claim_token w = claim_token));
                       d' = d\<lparr>attempt_log := attempt_log d @ [a],
                              deliveries := update_rows P (\<lambda>w. write (w\<lparr>whd_attempts := number\<rparr>)) (deliveries d)\<rparr>
                   in case commit_db d' of
                        None \<Rightarrow> (Inl IntegrityError, d)
                      | Some d'' \<Rightarrow> (Inr \<lparr>ca_attempt = a, ca_state = state, ca_owned = owned\<rparr>, d''))))"

subsection \<open>Reading deliveries and their history\<close>

definition get_delivery :: "db \<Rightarrow> pystr \<Rightarrow> delivery option" where
  "get_delivery d k = find_row whd_id (deliveries d) k"

definition list_delivery_attempts :: "db \<Rightarrow> pystr \<Rightarrow> attempt list" where
  "list_delivery_attempts d k =
     sort_key (\<lambda>a. (att_number a, att_id a)) (filter (\<lambda>a. att_delivery_id a = k) (attempt_log d))"

subsection \<open>Requeueing\<close>

record replay_outcome =
  ro_record :: "delivery option"
  ro_requeued :: bool

definition requeue_values :: "time \<Rightarrow> delivery \<Rightarrow> delivery" where
  "requeue_values now w =
     w\<lparr>whd_state := PENDING, whd_cycle_attempts := 0, whd_next_attempt_at := now,
       whd_claim_expires_at := None, whd_claim_token := None, whd_completed_at := None\<rparr>"

definition replayable :: "pystr \<Rightarrow> delivery \<Rightarrow> bool" where
  "replayable k w \<longleftrightarrow> whd_id w = k \<and> whd_state w = FAILED \<and> whd_submission_id w \<noteq> None"

definition requeue_failed_delivery :: "pystr \<Rightarrow> time \<Rightarrow> db \<Rightarrow> replay_outcome \<times> db" where
  "requeue_failed_delivery k now d =
     (let matched = rows_matching (replayable k) (deliveries d);
          d' = d\<lparr>deliveries := update_rows (replayable k) (requeue_values now) (deliveries d)\<rparr>
      in (\<lparr>ro_record = get_delivery d' k, ro_requeued = (matched = 1)\<rparr>, d'))"

end
