(* ===== verification/Examples.thy ===== *)
theory Examples
  imports Models
begin

text \<open>
  A small database on which the properties are exercised: one endpoint with a webhook, two
  submissions, a delivery waiting for its first attempt, one a worker holds, and one that was
  delivered.
\<close>

definition contact :: endpoint where
  "contact = \<lparr>ep_id = lit ''contact'', ep_name = lit ''Contact'', ep_is_active = True, ep_created_at = 0,
     ep_webhook_url = Some (lit ''https://example.com/hook''), ep_webhook_secret = Some (lit ''whsec'')\<rparr>"

definition hello :: submission where
  "hello = \<lparr>sub_id = lit ''s1'', sub_endpoint_id = lit ''contact'', sub_received_at = 1000000,
     sub_fields = [(lit ''name'', [lit ''Ada'']), (lit ''topic'', [lit ''a'', lit ''b''])]\<rparr>"

definition hello_row :: submission_row where
  "hello_row = from_domain hello (Some (lit ''key-1'')) (Some (lit ''fp-1''))"

definition later_row :: submission_row where
  "later_row = from_domain (hello\<lparr>sub_id := lit ''s2'', sub_received_at := 2000000\<rparr>) None None"

definition done_row :: submission_row where
  "done_row = from_domain (hello\<lparr>sub_id := lit ''s0'', sub_received_at := 500000\<rparr>) None None"

definition waiting :: delivery where
  "waiting = \<lparr>whd_id = lit ''w1'', whd_submission_id = Some (lit ''s1''), whd_endpoint_id = lit ''contact'',
     whd_destination_url = lit ''https://example.com/hook'', whd_signing_secret = lit ''whsec'', whd_state = PENDING,
     whd_attempts = 0, whd_cycle_attempts = 0, whd_next_attempt_at = 1000000, whd_claim_expires_at = None,
     whd_claim_token = None, whd_created_at = 1000000, whd_completed_at = None\<rparr>"

definition held :: delivery where
  "held = waiting\<lparr>whd_id := lit ''w2'', whd_submission_id := Some (lit ''s2''), whd_state := PROCESSING,
     whd_claim_token := Some (lit ''t2''), whd_claim_expires_at := Some 9000000\<rparr>"

definition delivered :: delivery where
  "delivered = waiting\<lparr>whd_id := lit ''w0'', whd_submission_id := Some (lit ''s0''), whd_state := DELIVERED,
     whd_attempts := 1, whd_cycle_attempts := 1, whd_completed_at := Some 600000\<rparr>"

definition delivered_attempt :: attempt where
  "delivered_attempt = \<lparr>att_id = lit ''a0'', att_delivery_id = lit ''w0'', att_submission_id = Some (lit ''s0''),
     att_number = 1, att_destination_url = lit ''https://example.com/hook'', att_attempted_at = 600000,
     att_outcome = SUCCEEDED, att_response_status = Some 200, att_error = None\<rparr>"

definition sample_db :: db where
  "sample_db = \<lparr>endpoints = [contact], submissions = [hello_row, later_row, done_row],
     deliveries = [waiting, held, delivered], attempt_log = [delivered_attempt], api_keys = [], counters = []\<rparr>"

lemmas sample_defs =
  contact_def hello_def hello_row_def later_row_def done_row_def waiting_def held_def delivered_def
  delivered_attempt_def sample_db_def

lemma sample_db_ok [simp]: "db_ok sample_db"
  by code_simp

end
