(* ===== verification/DeliveryFacts.thy ===== *)
theory DeliveryFacts
  imports DeliveryStore Examples
begin

text \<open>
  The invariants of the delivery queue and that its operations keep them: a delivery holds a claim
  exactly while it is processing, is completed exactly when it is terminal, keeps its submission
  until it is delivered, and its attempt log is numbered from one without a gap. Then what each
  operation does to the delivery it addresses, and that it touches no other.
\<close>

subsection \<open>Well-formed deliveries and their history\<close>

definition delivery_wf :: "delivery \<Rightarrow> bool" where
  "delivery_wf w \<longleftrightarrow>
     (whd_claim_token w \<noteq> None) = (whd_state w = PROCESSING) \<and>
     (whd_claim_expires_at w \<noteq> None) = (whd_state w = PROCESSING) \<and>
     delivery_check w \<and>
     0 \<le> whd_cycle_attempts w \<and> whd_cycle_attempts w \<le> whd_attempts w \<and>
     (whd_submission_id w = None \<longrightarrow> whd_state w = DELIVERED)"

definition attempts_of :: "db \<Rightarrow> pystr \<Rightarrow> attempt list" where
  "attempts_of d k = filter (\<lambda>a. att_delivery_id a = k) (attempt_log d)"

definition history_ok :: "db \<Rightarrow> bool" where
  "history_ok d \<longleftrightarrow>
     list_all (\<lambda>w. map att_number (attempts_of d (whd_id w)) = [1..whd_attempts w]) (deliveries d)"

definition outbox_inv :: "db \<Rightarrow> bool" where
  "outbox_inv d \<longleftrightarrow> db_ok d \<and> list_all delivery_wf (deliveries d) \<and> history_ok d"

text \<open>The retry allowance: a delivery that can still be attempted has some of it left.\<close>

definition within_budget :: "int \<Rightarrow> delivery \<Rightarrow> bool" where
  "within_budget m w \<longleftrightarrow>
     whd_cycle_attempts w \<le> m \<and> (whd_state w \<in> {PENDING, PROCESSING} \<longrightarrow> whd_cycle_attempts w < m)"

named_theorems outbox_intros \<open>operations keep the invariants of the queue\<close>

lemma outbox_inv_ok: "outbox_inv d \<Longrightarrow> db_ok d"
  by (simp add: outbox_inv_def)

lemma outbox_inv_distinct: "outbox_inv d \<Longrightarrow> distinct (map whd_id (deliveries d))"
  by (simp add: outbox_inv_def db_ok_defs)

lemma outbox_inv_wf: "outbox_inv d \<Longrightarrow> find_row whd_id (deliveries d) k = Some w \<Longrightarrow> delivery_wf w"
  by (auto simp: outbox_inv_def list_all_iff dest: find_row_SomeD)

lemma outbox_inv_history:
  "outbox_inv d \<Longrightarrow> find_row whd_id (deliveries d) k = Some w \<Longrightarrow>
   map att_number (attempts_of d k) = [1..whd_attempts w]"
  by (auto simp: outbox_inv_def history_ok_def list_all_iff dest: find_row_SomeD)

subsection \<open>Updates that leave the history alone\<close>

text \<open>
  An UPDATE that keeps the identity, the carried submission and the lifetime total of every row it
  selects, and leaves it well formed, keeps the whole invariant.
\<close>

definition keeps_identity :: "(delivery \<Rightarrow> delivery) \<Rightarrow> bool" where
  "keeps_identity f \<longleftrightarrow>
     (\<forall>w. whd_id (f w) = whd_id w \<and> whd_submission_id (f w) = whd_submission_id w \<and>
          whd_endpoint_id (f w) = whd_endpoint_id w)"

lemma keeps_identityD:
  "keeps_identity f \<Longrightarrow> whd_id (f w) = whd_id w"
  "keeps_identity f \<Longrightarrow> whd_submission_id (f w) = whd_submission_id w"
  "keeps_identity f \<Longrightarrow> whd_endpoint_id (f w) = whd_endpoint_id w"
  by (simp_all add: keeps_identity_def)

lemma delivery_wf_check: "delivery_wf w \<Longrightarrow> delivery_check w"
  by (simp add: delivery_wf_def)

lemma update_deliveries_inv:
  assumes inv: "outbox_inv d" and keep: "keeps_identity f"
    and total: "\<And>w. P w \<Longrightarrow> whd_attempts (f w) = whd_attempts w"
    and wf: "\<And>w. P w \<Longrightarrow> delivery_wf w \<Longrightarrow> delivery_wf (f w)"
  shows "outbox_inv (d\<lparr>deliveries := update_rows P f (deliveries d)\<rparr>)"
proof -
  have all: "\<And>w. w \<in> set (deliveries d) \<Longrightarrow> delivery_wf w"
    using inv by (simp add: outbox_inv_def list_all_iff)
  have "db_ok (d\<lparr>deliveries := update_rows P f (deliveries d)\<rparr>)"
    using inv by (intro update_deliveries_ok)
      (auto simp: outbox_inv_def keeps_identityD [OF keep] intro: delivery_wf_check wf all)
  moreover have "history_ok (d\<lparr>deliveries := update_rows P f (deliveries d)\<rparr>)"
    using inv total by (auto simp: outbox_inv_def history_ok_def attempts_of_def list_all_iff set_update_rows
        keeps_identityD [OF keep])
  ultimately show ?thesis
    using all by (auto simp: outbox_inv_def list_all_iff set_update_rows intro: wf)
qed

subsection \<open>Claiming\<close>

lemma claim_values_sel [simp]:
  "whd_id (claim_values e t w) = whd_id w"
  "whd_submission_id (claim_values e t w) = whd_submission_id w"
  "whd_endpoint_id (claim_values e t w) = whd_endpoint_id w"
  "whd_attempts (claim_values e t w) = whd_attempts w"
  "whd_cycle_attempts (claim_values e t w) = whd_cycle_attempts w"
  "whd_state (claim_values e t w) = PROCESSING"
  "whd_claim_token (claim_values e t w) = Some t"
  "whd_claim_expires_at (claim_values e t w) = Some e"
  "whd_completed_at (claim_values e t w) = whd_completed_at w"
  "whd_destination_url (claim_values e t w) = whd_destination_url w"
  "whd_signing_secret (claim_values e t w) = whd_signing_secret w"
  "whd_next_attempt_at (claim_values e t w) = whd_next_attempt_at w"
  by (simp_all add: claim_values_def)

lemma keeps_identity_claim [simp]: "keeps_identity (claim_values e t)"
  by (simp add: keeps_identity_def)

lemma due_condition_state: "due_condition now w \<Longrightarrow> whd_state w \<in> {PENDING, PROCESSING} \<and> whd_submission_id w \<noteq> None"
  by (auto simp: due_condition_def)

lemma claim_values_wf: "due_condition now w \<Longrightarrow> delivery_wf w \<Longrightarrow> delivery_wf (claim_values e t w)"
  by (auto simp: delivery_wf_def delivery_check_def terminal_states_def due_condition_def)

lemma claim_row_inv [outbox_intros]:
  assumes "outbox_inv d"
  shows "outbox_inv (d\<lparr>deliveries := snd (claim_row now e t k (deliveries d))\<rparr>)"
  unfolding claim_row_def Let_def snd_conv
  by (rule update_deliveries_inv [OF assms]) (auto intro: claim_values_wf)

text \<open>What every single UPDATE of the loop keeps, the loop keeps.\<close>

lemma claim_loop_keeps:
  assumes "\<And>t k ws. I ws \<Longrightarrow> I (snd (claim_row now e t k ws))"
  shows "I ws \<Longrightarrow> I (snd (claim_loop hex i now e cs ws))"
proof (induction cs arbitrary: i ws)
  case (Cons c cs)
  then show ?case
    using assms [OF Cons.prems, of "new_claim_token (hex i)" "whd_id c"]
    by (auto simp: Let_def split: prod.splits) (metis snd_conv)
qed simp

lemma claim_due_inv [outbox_intros]:
  assumes "outbox_inv d"
  shows "outbox_inv (snd (claim_due_deliveries visible hex now lease limit d))"
proof (cases "lease_end now lease")
  case (Inr e)
  have "outbox_inv (d\<lparr>deliveries := snd (claim_loop hex 0 now e (claim_candidates visible now limit (deliveries d)) (deliveries d))\<rparr>)"
    by (rule claim_loop_keeps [where I = "\<lambda>ws. outbox_inv (d\<lparr>deliveries := ws\<rparr>)"])
      (use assms claim_row_inv [of "d\<lparr>deliveries := _\<rparr>"] in auto)
  with Inr show ?thesis by (simp add: claim_due_deliveries_def case_prod_beta Let_def)
qed (simp add: claim_due_deliveries_def assms)

subsection \<open>Requeueing\<close>

lemma requeue_values_sel [simp]:
  "whd_id (requeue_values now w) = whd_id w"
  "whd_submission_id (requeue_values now w) = whd_submission_id w"
  "whd_endpoint_id (requeue_values now w) = whd_endpoint_id w"
  "whd_attempts (requeue_values now w) = whd_attempts w"
  "whd_cycle_attempts (requeue_values now w) = 0"
  "whd_state (requeue_values now w) = PENDING"
  "whd_claim_token (requeue_values now w) = None"
  "whd_claim_expires_at (requeue_values now w) = None"
  "whd_completed_at (requeue_values now w) = None"
  "whd_next_attempt_at (requeue_values now w) = now"
  by (simp_all add: requeue_values_def)

lemma keeps_identity_requeue [simp]: "keeps_identity (requeue_values now)"
  by (simp add: keeps_identity_def)

lemma requeue_inv [outbox_intros]:
  "outbox_inv d \<Longrightarrow> outbox_inv (snd (requeue_failed_delivery k now d))"
  by (auto simp: requeue_failed_delivery_def Let_def replayable_def delivery_wf_def delivery_check_def
      terminal_states_def intro!: update_deliveries_inv)

subsection \<open>Recording an attempt\<close>

lemma settle_owned_cases:
  assumes "settle_owned r now p c = Inr (st, f)"
  obtains
    (delivered) "outcome r = SUCCEEDED" "st = DELIVERED"
      "f = (\<lambda>w. w\<lparr>whd_cycle_attempts := c, whd_claim_expires_at := None, whd_claim_token := None,
                whd_completed_at := Some now, whd_state := DELIVERED\<rparr>)"
  | (retried) t delay where "outcome r \<noteq> SUCCEEDED" "is_retryable r" "\<not> is_exhausted p c" "st = PENDING"
      "delay_after p c = Inr delay" "t = now + delay"
      "f = (\<lambda>w. w\<lparr>whd_cycle_attempts := c, whd_claim_expires_at := None, whd_claim_token := None,
                whd_next_attempt_at := t, whd_state := PENDING\<rparr>)"
  | (failed) "outcome r \<noteq> SUCCEEDED" "\<not> is_retryable r \<or> is_exhausted p c" "st = FAILED"
      "f = (\<lambda>w. w\<lparr>whd_cycle_attempts := c, whd_claim_expires_at := None, whd_claim_token := None,
                whd_completed_at := Some now, whd_state := FAILED\<rparr>)"
proof -
  consider "outcome r = SUCCEEDED" | "outcome r \<noteq> SUCCEEDED" "is_retryable r" "\<not> is_exhausted p c"
    | "outcome r \<noteq> SUCCEEDED" "\<not> is_retryable r \<or> is_exhausted p c" by blast
  then show thesis
  proof cases
    case 1
    with assms delivered show ?thesis by (auto simp: settle_owned_def Let_def)
  next
    case 2
    with assms retried show ?thesis
      by (auto simp: settle_owned_def Let_def split: sum.splits dest!: dt_add_Inr)
  next
    case 3
    with assms failed show ?thesis by (auto simp: settle_owned_def Let_def)
  qed
qed

lemma settle_owned_keeps:
  assumes "settle_owned r now p c = Inr (st, f)"
  shows "keeps_identity f" and "whd_attempts (f w) = whd_attempts w" and "whd_state (f w) = st"
    and "whd_cycle_attempts (f w) = c" and "whd_claim_token (f w) = None" and "whd_claim_expires_at (f w) = None"
    and "whd_destination_url (f w) = whd_destination_url w" and "whd_signing_secret (f w) = whd_signing_secret w"
  using assms by (cases rule: settle_owned_cases; simp add: keeps_identity_def)+

lemma settle_owned_wf:
  assumes "settle_owned r now p (whd_cycle_attempts w + 1) = Inr (st, f)" "delivery_wf w" "whd_state w = PROCESSING"
  shows "delivery_wf (f (w\<lparr>whd_attempts := whd_attempts w + 1\<rparr>))"
  using assms by (cases rule: settle_owned_cases)
    (auto simp: delivery_wf_def delivery_check_def terminal_states_def)

text \<open>
  The shape of a completed attempt: the row it found, whether the claim was still held, and the
  state it committed.
\<close>

definition owns :: "pystr option \<Rightarrow> delivery \<Rightarrow> bool" where
  "owns tok current \<longleftrightarrow> tok \<noteq> None \<and> whd_claim_token current = tok"

definition writes_of ::
  "delivery_result \<Rightarrow> time \<Rightarrow> retry_policy \<Rightarrow> pystr option \<Rightarrow> delivery \<Rightarrow> py_exn + delivery_state \<times> (delivery \<Rightarrow> delivery)" where
  "writes_of r now p tok current =
     (if owns tok current then settle_owned r now p (whd_cycle_attempts current + 1)
      else Inr (whd_state current, \<lambda>w. w))"

definition completed ::
  "pystr \<Rightarrow> delivery \<Rightarrow> delivery_result \<Rightarrow> time \<Rightarrow> pystr option \<Rightarrow> (delivery \<Rightarrow> delivery) \<Rightarrow> delivery \<Rightarrow> db \<Rightarrow> db" where
  "completed hex job r now tok f current d =
     d\<lparr>attempt_log := attempt_log d @ [new_attempt hex job r now (whd_attempts current + 1)],
       deliveries := update_rows
         (\<lambda>w. whd_id w = whd_id job \<and> (owns tok current \<longrightarrow> whd_claim_token w = tok))
         (\<lambda>w. f (w\<lparr>whd_attempts := whd_attempts current + 1\<rparr>)) (deliveries d)\<rparr>"

lemma complete_attempt_eq:
  "complete_attempt hex job r now p tok d =
     (case find_row whd_id (deliveries d) (whd_id job) of
        None \<Rightarrow> (Inl NoResultFound, d)
      | Some current \<Rightarrow>
          (case writes_of r now p tok current of
             Inl e \<Rightarrow> (Inl e, d)
           | Inr (st, f) \<Rightarrow>
               (if db_ok (completed hex job r now tok f current d)
                then (Inr \<lparr>ca_attempt = new_attempt hex job r now (whd_attempts current + 1), ca_state = st,
                           ca_owned = owns tok current\<rparr>, completed hex job r now tok f current d)
                else (Inl IntegrityError, d))))"
proof (cases "find_row whd_id (deliveries d) (whd_id job)")
  case (Some current)
  show ?thesis
    unfolding complete_attempt_def writes_of_def completed_def owns_def [symmetric] Some option.case
    by (cases "owns tok current"; cases "settle_owned r now p (whd_cycle_attempts current + 1)")
      (simp_all add: commit_db_def case_prod_beta Let_def)
qed (simp add: complete_attempt_def)

lemma complete_attempt_Inr:
  assumes "complete_attempt hex job r now p tok d = (Inr c, d')"
  obtains current st f where
    "find_row whd_id (deliveries d) (whd_id job) = Some current"
    "writes_of r now p tok current = Inr (st, f)"
    "c = \<lparr>ca_attempt = new_attempt hex job r now (whd_attempts current + 1), ca_state = st,
          ca_owned = owns tok current\<rparr>"
    "d' = completed hex job r now tok f current d" "db_ok d'"
proof (cases "find_row whd_id (deliveries d) (whd_id job)")
  case None
  with assms show thesis by (simp add: complete_attempt_eq)
next
  case (Some current)
  show thesis
  proof (cases "writes_of r now p tok current")
    case (Inl e)
    with Some assms show thesis by (simp add: complete_attempt_eq)
  next
    case (Inr sf)
    with Some assms that [of current "fst sf" "snd sf"] show thesis
      by (auto simp: complete_attempt_eq case_prod_beta split: if_splits)
  qed
qed

lemma complete_attempt_Inl:
  assumes "complete_attempt hex job r now p tok d = (Inl e, d')"
  shows "d' = d"
proof (cases "find_row whd_id (deliveries d) (whd_id job)")
  case (Some current)
  with assms show ?thesis
    by (cases "writes_of r now p tok current") (auto simp: complete_attempt_eq split: if_splits)
qed (use assms in \<open>simp add: complete_attempt_eq\<close>)

lemma writes_of_keeps:
  assumes "writes_of r now p tok current = Inr (st, f)"
  shows "keeps_identity f" and "whd_attempts (f w) = whd_attempts w"
proof -
  have "keeps_identity f \<and> whd_attempts (f w) = whd_attempts w"
  proof (cases "owns tok current")
    case True
    with assms have "settle_owned r now p (whd_cycle_attempts current + 1) = Inr (st, f)"
      by (simp add: writes_of_def)
    then show ?thesis using settle_owned_keeps(1,2) by blast
  next
    case False
    with assms show ?thesis by (auto simp: writes_of_def keeps_identity_def)
  qed
  then show "keeps_identity f" "whd_attempts (f w) = whd_attempts w" by simp_all
qed

text \<open>The UPDATE of a completion rewrites the one row it was made for.\<close>

lemma update_unique_row:
  assumes "distinct (map whd_id ws)" "find_row whd_id ws k = Some w" "Q w"
  shows "update_rows (\<lambda>v. whd_id v = k \<and> Q v) g ws = map (\<lambda>v. if whd_id v = k then g w else v) ws"
proof (unfold update_rows_def, rule map_cong [OF refl])
  fix v assume v: "v \<in> set ws"
  have w: "w \<in> set ws" "whd_id w = k" using find_row_SomeD [OF assms(2)] by auto
  show "(if whd_id v = k \<and> Q v then g v else v) = (if whd_id v = k then g w else v)"
  proof (cases "whd_id v = k")
    case True
    then have "v = w" using distinct_map_inj [OF assms(1) v w(1)] w(2) by simp
    with assms(3) show ?thesis by simp
  qed simp
qed

lemma find_row_map:
  "(\<And>v. key (h v) = key v) \<Longrightarrow> find_row key (map h ws) k = map_option h (find_row key ws k)"
  by (induction ws) auto

lemma find_row_replace:
  assumes "key v = k" "find_row key ws k = Some w"
  shows "find_row key (map (\<lambda>u. if key u = k then v else u) ws) k' =
    (if k' = k then Some v else find_row key ws k')"
proof -
  have "key (if key u = k then v else u) = key u" for u using assms(1) by simp
  then show ?thesis
    using assms(2) by (cases "find_row key ws k'") (auto simp: find_row_map dest: find_row_SomeD)
qed

text \<open>A completed attempt rewrites the delivery it names, and that delivery alone.\<close>

definition settled_row :: "(delivery \<Rightarrow> delivery) \<Rightarrow> delivery \<Rightarrow> delivery" where
  "settled_row f w = f (w\<lparr>whd_attempts := whd_attempts w + 1\<rparr>)"

lemma settled_row_sel:
  assumes "writes_of r now p tok w = Inr (st, f)"
  shows "whd_id (settled_row f w) = whd_id w"
    and "whd_attempts (settled_row f w) = whd_attempts w + 1"
    and "whd_submission_id (settled_row f w) = whd_submission_id w"
    and "whd_endpoint_id (settled_row f w) = whd_endpoint_id w"
  using writes_of_keeps [OF assms] by (simp_all add: settled_row_def keeps_identityD)

lemma settled_row_wf:
  assumes "writes_of r now p tok w = Inr (st, f)" "delivery_wf w"
  shows "delivery_wf (settled_row f w)"
proof (cases "owns tok w")
  case True
  with assms(2) have "whd_state w = PROCESSING" by (auto simp: owns_def delivery_wf_def)
  with True assms show ?thesis by (simp add: writes_of_def settled_row_def settle_owned_wf)
next
  case False
  with assms show ?thesis
    by (auto simp: writes_of_def settled_row_def delivery_wf_def delivery_check_def)
qed

lemma completed_deliveries:
  assumes "distinct (map whd_id (deliveries d))"
    and "find_row whd_id (deliveries d) (whd_id job) = Some current"
  shows "deliveries (completed hex job r now tok f current d) =
    map (\<lambda>w. if whd_id w = whd_id job then settled_row f current else w) (deliveries d)"
  using update_unique_row [OF assms, where Q = "\<lambda>w. owns tok current \<longrightarrow> whd_claim_token w = tok"]
  by (simp add: completed_def owns_def settled_row_def)

lemma completed_other [simp]:
  "attempt_log (completed hex job r now tok f current d) =
     attempt_log d @ [new_attempt hex job r now (whd_attempts current + 1)]"
  "submissions (completed hex job r now tok f current d) = submissions d"
  "endpoints (completed hex job r now tok f current d) = endpoints d"
  "api_keys (completed hex job r now tok f current d) = api_keys d"
  "counters (completed hex job r now tok f current d) = counters d"
  by (simp_all add: completed_def)

lemma attempts_of_completed:
  "attempts_of (completed hex job r now tok f current d) k =
     attempts_of d k @ (if whd_id job = k then [new_attempt hex job r now (whd_attempts current + 1)] else [])"
  by (simp add: attempts_of_def new_attempt_def)

lemma upto_next: "0 \<le> n \<Longrightarrow> [1..n + 1] = [1..n] @ [n + 1 :: int]"
  by (simp add: upto_rec2)

lemma complete_attempt_inv [outbox_intros]:
  assumes inv: "outbox_inv d" and run: "complete_attempt hex job r now p tok d = (res, d')"
  shows "outbox_inv d'"
proof (cases res)
  case (Inl e)
  with run inv show ?thesis by (auto dest: complete_attempt_Inl)
next
  case (Inr c)
  from run [unfolded Inr] obtain current st f where
    cur: "find_row whd_id (deliveries d) (whd_id job) = Some current" and
    wr: "writes_of r now p tok current = Inr (st, f)" and
    d': "d' = completed hex job r now tok f current d" and ok: "db_ok d'"
    by (rule complete_attempt_Inr)
  have id: "whd_id current = whd_id job" using find_row_SomeD [OF cur] by simp
  note rows = completed_deliveries [OF outbox_inv_distinct [OF inv] cur, of hex r now tok f]
  have all: "list_all delivery_wf (deliveries d')"
    using inv settled_row_wf [OF wr outbox_inv_wf [OF inv cur]]
    by (auto simp: d' rows outbox_inv_def list_all_iff)
  have pos: "0 \<le> whd_attempts current" using outbox_inv_wf [OF inv cur] by (simp add: delivery_wf_def)
  have "map att_number (attempts_of d' (whd_id job)) = [1..whd_attempts (settled_row f current)]"
    using outbox_inv_history [OF inv cur] settled_row_sel(2) [OF wr] upto_next [OF pos]
    by (simp add: d' attempts_of_completed new_attempt_def)
  moreover have "map att_number (attempts_of d' (whd_id w)) = [1..whd_attempts w]"
    if "w \<in> set (deliveries d)" "whd_id w \<noteq> whd_id job" for w
    using inv that by (simp add: d' attempts_of_completed outbox_inv_def history_ok_def list_all_iff)
  ultimately have "history_ok d'"
    using settled_row_sel(1) [OF wr] id by (auto simp: history_ok_def list_all_iff d' rows)
  with ok all show ?thesis by (simp add: outbox_inv_def)
qed

lemma find_row_completed:
  assumes "distinct (map whd_id (deliveries d))" "writes_of r now p tok current = Inr (st, f)"
    and "find_row whd_id (deliveries d) (whd_id job) = Some current"
  shows "find_row whd_id (deliveries (completed hex job r now tok f current d)) k =
    (if k = whd_id job then Some (settled_row f current) else find_row whd_id (deliveries d) k)"
proof -
  have "whd_id (settled_row f current) = whd_id job"
    using settled_row_sel(1) [OF assms(2)] find_row_SomeD [OF assms(3)] by simp
  then show ?thesis
    unfolding completed_deliveries [OF assms(1,3)] by (rule find_row_replace [OF _ assms(3)])
qed

subsection \<open>What a claim takes\<close>

lemma claim_row_matched:
  assumes "distinct (map whd_id ws)"
  shows "fst (claim_row now e t k ws) = 1 \<longleftrightarrow> (\<exists>w. find_row whd_id ws k = Some w \<and> due_condition now w)"
  by (cases "find_row whd_id ws k") (simp_all add: claim_row_def Let_def rows_matching_key [OF assms])

lemma find_row_claim_row:
  "find_row whd_id (snd (claim_row now e t k ws)) k' =
     map_option (\<lambda>w. if k' = k \<and> due_condition now w then claim_values e t w else w) (find_row whd_id ws k')"
  by (cases "find_row whd_id ws k'") (auto simp: claim_row_def Let_def find_row_update dest: find_row_SomeD)

lemma claim_row_ids [simp]: "map whd_id (snd (claim_row now e t k ws)) = map whd_id ws"
  by (simp add: claim_row_def Let_def map_update_rows)

text \<open>
  For candidates read in whatever earlier state: the ones whose row is still due are claimed, each
  under the token drawn for it, and every other row is as it was.
\<close>

definition still_due :: "time \<Rightarrow> delivery list \<Rightarrow> pystr \<Rightarrow> bool" where
  "still_due now ws k \<longleftrightarrow> (case find_row whd_id ws k of None \<Rightarrow> False | Some w \<Rightarrow> due_condition now w)"

fun tokened :: "(nat \<Rightarrow> pystr) \<Rightarrow> nat \<Rightarrow> delivery list \<Rightarrow> (pystr \<times> pystr) list" where
  "tokened hex i [] = []"
| "tokened hex i (c # cs) = (whd_id c, new_claim_token (hex i)) # tokened hex (Suc i) cs"

lemma fst_tokened [simp]: "map fst (tokened hex i cs) = map whd_id cs"
  by (induction cs arbitrary: i) auto

lemma map_of_tokened_None: "k \<notin> whd_id ` set cs \<Longrightarrow> map_of (tokened hex i cs) k = None"
  by (induction cs arbitrary: i) auto

lemma map_of_tokened_Some:
  "k \<in> whd_id ` set cs \<Longrightarrow> \<exists>j\<ge>i. map_of (tokened hex i cs) k = Some (new_claim_token (hex j))"
proof (induction cs arbitrary: i)
  case (Cons c cs)
  show ?case
  proof (cases "whd_id c = k")
    case False
    with Cons obtain j where "Suc i \<le> j" "map_of (tokened hex (Suc i) cs) k = Some (new_claim_token (hex j))"
      by auto
    with False show ?thesis by (intro exI [of _ j]) simp
  qed auto
qed simp

lemma map_of_tokened_inj:
  assumes "inj hex"
  shows "map_of (tokened hex i cs) k = Some t \<Longrightarrow> map_of (tokened hex i cs) k' = Some t \<Longrightarrow> k = k'"
proof (induction cs arbitrary: i)
  case (Cons c cs)
  have later: "t \<noteq> new_claim_token (hex i)" if "map_of (tokened hex (Suc i) cs) k'' = Some t" for k''
  proof -
    have "k'' \<in> whd_id ` set cs"
      using that map_of_tokened_None [of k'' cs hex "Suc i"] by (cases "k'' \<in> whd_id ` set cs") auto
    from map_of_tokened_Some [OF this, of "Suc i" hex] that obtain j where "Suc i \<le> j" "t = new_claim_token (hex j)"
      by auto
    with assms show ?thesis by (auto dest: injD)
  qed
  from Cons.prems later [of k] later [of k'] show ?case
    by (auto split: if_splits intro: Cons.IH)
qed simp

definition claimed_row :: "time \<Rightarrow> time \<Rightarrow> (pystr \<times> pystr) list \<Rightarrow> delivery \<Rightarrow> delivery" where
  "claimed_row now e ts w =
     (case map_of ts (whd_id w) of
        None \<Rightarrow> w
      | Some t \<Rightarrow> if due_condition now w then claim_values e t w else w)"

lemma claim_loop_rows:
  assumes "distinct (map whd_id cs)"
  shows "find_row whd_id (snd (claim_loop hex i now e cs ws)) k =
    map_option (claimed_row now e (tokened hex i cs)) (find_row whd_id ws k)"
  using assms
proof (induction cs arbitrary: i ws)
  case Nil
  then show ?case by (simp add: claimed_row_def option.map_ident)
next
  case (Cons c cs)
  have fresh: "map_of (tokened hex (Suc i) cs) (whd_id c) = None"
    using Cons.prems by (intro map_of_tokened_None) auto
  show ?case
  proof (cases "find_row whd_id ws k")
    case None
    with Cons show ?thesis by (simp add: Let_def case_prod_beta find_row_claim_row)
  next
    case (Some w)
    then have "whd_id w = k" by (auto dest: find_row_SomeD)
    with Some Cons fresh show ?thesis
      by (auto simp: Let_def case_prod_beta find_row_claim_row claimed_row_def)
  qed
qed

lemma claim_loop_claimed:
  assumes "distinct (map whd_id cs)" "distinct (map whd_id ws)"
  shows "fst (claim_loop hex i now e cs ws) =
    map (\<lambda>c. claim_values e (the (map_of (tokened hex i cs) (whd_id c))) c)
      (filter (\<lambda>c. still_due now ws (whd_id c)) cs)"
  using assms
proof (induction cs arbitrary: i ws)
  case (Cons c cs)
  let ?ws = "snd (claim_row now e (new_claim_token (hex i)) (whd_id c) ws)"
  have same: "still_due now ?ws (whd_id v) = still_due now ws (whd_id v)" if "v \<in> set cs" for v
  proof -
    have "whd_id v \<noteq> whd_id c" using that Cons.prems by (auto simp: rev_image_eqI)
    then show ?thesis
      by (cases "find_row whd_id ws (whd_id v)") (simp_all add: still_due_def find_row_claim_row)
  qed
  have other: "whd_id v \<noteq> whd_id c" if "v \<in> set cs" for v using that Cons.prems by (auto simp: rev_image_eqI)
  have "distinct (map whd_id cs)" "distinct (map whd_id ?ws)" using Cons.prems by simp_all
  from Cons.IH [OF this, of "Suc i"] have rest:
    "fst (claim_loop hex (Suc i) now e cs ?ws) =
       map (\<lambda>v. claim_values e (the (map_of (tokened hex i (c # cs)) (whd_id v))) v)
         (filter (\<lambda>v. still_due now ws (whd_id v)) cs)"
    using same other by (auto cong: filter_cong)
  have "fst (claim_row now e (new_claim_token (hex i)) (whd_id c) ws) = 1 \<longleftrightarrow> still_due now ws (whd_id c)"
    unfolding claim_row_matched [OF Cons.prems(2)] still_due_def by (auto split: option.splits)
  with rest show ?case by (simp add: Let_def case_prod_beta)
qed simp

text \<open>The sample database is one the invariants describe.\<close>

lemma sample_inv: "outbox_inv sample_db"
  by code_simp

end
