(* ===== verification/SubmissionStore.thy ===== *)
theory SubmissionStore
  imports DeliveryFacts
begin

text \<open>
  \<^verbatim>\<open>storage.py\<close>, accepting submissions: a submission and the delivery it owes go in as one
  transaction, and an idempotency key resolves to the submission it was spent on. The requests of
  other clients run between two statements of this one; they are the functions \<open>other\<close> and \<open>later\<close>
  on the database, for whatever those requests do there.
\<close>

subsection \<open>Outcomes\<close>

datatype store_error =
    IdempotencyKeyReused pystr "pystr option"
  | StoreRaised py_exn

record stored_submission =
  ss_submission :: submission
  ss_replayed :: bool
  ss_delivery_queued :: bool

definition find_by_idempotency_key :: "db \<Rightarrow> pystr \<Rightarrow> pystr \<Rightarrow> py_exn + submission_row option" where
  "find_by_idempotency_key d endpoint_id key =
     one_or_none (filter (\<lambda>s. sub_endpoint_id s = endpoint_id \<and> sub_idempotency_key s = Some key) (submissions d))"

definition settle :: "submission_row \<Rightarrow> pystr option \<Rightarrow> store_error + submission" where
  "settle existing fingerprint =
     (if sub_payload_fingerprint existing \<noteq> fingerprint
      then Inl (IdempotencyKeyReused (sub_endpoint_id existing) (sub_idempotency_key existing))
      else Inr (to_domain existing))"

definition owes_delivery :: "db \<Rightarrow> pystr \<Rightarrow> bool" where
  "owes_delivery d sid \<longleftrightarrow> list_ex (\<lambda>w. whd_submission_id w = Some sid) (deliveries d)"

definition replayed :: "db \<Rightarrow> submission_row \<Rightarrow> pystr option \<Rightarrow> store_error + stored_submission" where
  "replayed d existing fingerprint =
     (case settle existing fingerprint of
        Inl e \<Rightarrow> Inl e
      | Inr s \<Rightarrow> Inr \<lparr>ss_submission = s, ss_replayed = True, ss_delivery_queued = owes_delivery d (sub_id existing)\<rparr>)"

subsection \<open>Writing\<close>

definition new_delivery :: "pystr \<Rightarrow> submission \<Rightarrow> time \<Rightarrow> webhook_target \<Rightarrow> delivery" where
  "new_delivery hex s now t =
     \<lparr>whd_id = new_webhook_delivery_id hex, whd_submission_id = Some (sub_id s), whd_endpoint_id = sub_endpoint_id s,
      whd_destination_url = target_url t, whd_signing_secret = target_secret t, whd_state = PENDING,
      whd_attempts = 0, whd_cycle_attempts = 0, whd_next_attempt_at = now, whd_claim_expires_at = None,
      whd_claim_token = None, whd_created_at = now, whd_completed_at = None\<rparr>"

definition add_submission ::
  "pystr \<Rightarrow> submission \<Rightarrow> time \<Rightarrow> webhook_target option \<Rightarrow> pystr option \<Rightarrow> pystr option \<Rightarrow> db \<Rightarrow> db" where
  "add_submission hex s now webhook key fingerprint d =
     (let d' = d\<lparr>submissions := submissions d @ [from_domain s key fingerprint]\<rparr>
      in case webhook of
           None \<Rightarrow> d'
         | Some t \<Rightarrow> d'\<lparr>deliveries := deliveries d' @ [new_delivery hex s now t]\<rparr>)"

definition accepted :: "submission \<Rightarrow> webhook_target option \<Rightarrow> stored_submission" where
  "accepted s webhook = \<lparr>ss_submission = s, ss_replayed = False, ss_delivery_queued = (webhook \<noteq> None)\<rparr>"

definition store_submission ::
  "(db \<Rightarrow> db) \<Rightarrow> (db \<Rightarrow> db) \<Rightarrow> pystr \<Rightarrow> submission \<Rightarrow> time \<Rightarrow> pystr option \<Rightarrow> pystr option \<Rightarrow> webhook_target option
     \<Rightarrow> db \<Rightarrow> (store_error + stored_submission) \<times> db" where
  "store_submission other later hex s now key fingerprint webhook d =
     (case key of
        None \<Rightarrow>
          (case commit_db (add_submission hex s now webhook None None d) of
             None \<Rightarrow> (Inl (StoreRaised IntegrityError), d)
           | Some d' \<Rightarrow> (Inr (accepted s webhook), d'))
      | Some k \<Rightarrow>
          (case find_by_idempotency_key d (sub_endpoint_id s) k of
             Inl e \<Rightarrow> (Inl (StoreRaised e), d)
           | Inr (Some existing) \<Rightarrow> (replayed d existing fingerprint, d)
           | Inr None \<Rightarrow>
               (case commit_db (add_submission hex s now webhook (Some k) fingerprint (other d)) of
                  Some d' \<Rightarrow> (Inr (accepted s webhook), d')
                | None \<Rightarrow>
                    (let d' = later (other d)
                     in case find_by_idempotency_key d' (sub_endpoint_id s) k of
                          Inl e \<Rightarrow> (Inl (StoreRaised e), d')
                        | Inr None \<Rightarrow> (Inl (StoreRaised IntegrityError), d')
                        | Inr (Some existing) \<Rightarrow> (replayed d' existing fingerprint, d')))))"

subsection \<open>Reading\<close>

record submission_filter =
  flt_endpoint_id :: "pystr option"
  flt_received_after :: "time option"
  flt_received_before :: "time option"

definition narrowed :: "submission_filter \<Rightarrow> submission_row \<Rightarrow> bool" where
  "narrowed f s \<longleftrightarrow>
     (case flt_endpoint_id f of None \<Rightarrow> True | Some e \<Rightarrow> sub_endpoint_id s = e) \<and>
     (case flt_received_after f of None \<Rightarrow> True | Some t \<Rightarrow> t < sub_received_at s) \<and>
     (case flt_received_before f of None \<Rightarrow> True | Some t \<Rightarrow> sub_received_at s < t)"

text \<open>A submission beside the delivery the outer join finds for it.\<close>

type_synonym submission_record = "submission_row \<times> delivery option"

definition owed_delivery :: "db \<Rightarrow> submission_row \<Rightarrow> delivery option" where
  "owed_delivery d s = find (\<lambda>w. whd_submission_id w = Some (sub_id s)) (deliveries d)"

definition get_submission :: "db \<Rightarrow> pystr \<Rightarrow> submission_record option" where
  "get_submission d k = map_option (\<lambda>s. (s, owed_delivery d s)) (find_row sub_id (submissions d) k)"

definition count_submissions :: "submission_filter \<Rightarrow> nat \<Rightarrow> db \<Rightarrow> nat" where
  "count_submissions f cap d = length (take cap (filter (narrowed f) (submissions d)))"

definition received_rank :: "submission_row \<Rightarrow> time \<times> pystr" where
  "received_rank s = (sub_received_at s, sub_id s)"

definition stream_submissions :: "submission_filter \<Rightarrow> nat \<Rightarrow> db \<Rightarrow> submission_row list" where
  "stream_submissions f limit d = take limit (order_desc received_rank (filter (narrowed f) (submissions d)))"

end
