(* ===== verification/SubmissionFacts.thy ===== *)
theory SubmissionFacts
  imports SubmissionStore
begin

text \<open>
  Accepting a submission, with other clients at work in between: one stored submission per
  idempotency key, the same answer to every retry of the same content, a refusal of other content,
  and a delivery exactly when one was owed.
\<close>

subsection \<open>Looking a key up\<close>

definition keyed :: "pystr \<Rightarrow> pystr \<Rightarrow> submission_row \<Rightarrow> bool" where
  "keyed e k s \<longleftrightarrow> sub_endpoint_id s = e \<and> sub_idempotency_key s = Some k"

lemma keyed_identity: "keyed e k s \<longleftrightarrow> idempotency_identity s = Some (e, k)"
  by (auto simp: keyed_def idempotency_identity_def)

lemma in_map_filter: "f x = Some y \<Longrightarrow> x \<in> set xs \<Longrightarrow> y \<in> set (List.map_filter f xs)"
  by (induction xs) (auto split: option.splits)

lemma filter_keyed_unique:
  assumes "distinct (List.map_filter idempotency_identity ss)"
  shows "filter (keyed e k) ss = (case find (keyed e k) ss of None \<Rightarrow> [] | Some s \<Rightarrow> [s])"
  using assms
proof (induction ss)
  case (Cons s ss)
  show ?case
  proof (cases "keyed e k s")
    case True
    then have "idempotency_identity s = Some (e, k)" by (simp add: keyed_identity)
    with Cons.prems have "(e, k) \<notin> set (List.map_filter idempotency_identity ss)" by auto
    then have "filter (keyed e k) ss = []"
      by (auto simp: filter_empty_conv keyed_identity dest: in_map_filter)
    with True show ?thesis by simp
  next
    case False
    with Cons show ?thesis by (auto split: option.splits)
  qed
qed simp

lemma find_by_key_eq:
  assumes "db_ok d"
  shows "find_by_idempotency_key d e k = Inr (find (keyed e k) (submissions d))"
proof -
  have "distinct (List.map_filter idempotency_identity (submissions d))"
    using assms by (simp add: db_ok_defs)
  from filter_keyed_unique [OF this, of e k] show ?thesis
    by (simp add: find_by_idempotency_key_def keyed_def [abs_def] split: option.splits)
qed

lemma filter_keyed_found:
  assumes "db_ok d" "find (keyed e k) (submissions d) = Some s"
  shows "filter (keyed e k) (submissions d) = [s]"
  using assms filter_keyed_unique [of "submissions d" e k] by (simp add: db_ok_defs)

lemma map_filter_append: "List.map_filter f (xs @ ys) = List.map_filter f xs @ List.map_filter f ys"
  by (induction xs) (auto split: option.splits)

lemma find_snoc_None: "find P xs = None \<Longrightarrow> find P (xs @ [x]) = (if P x then Some x else None)"
  by (induction xs) (auto split: if_splits)

lemma find_keyedD: "find (keyed e k) ss = Some s \<Longrightarrow> s \<in> set ss \<and> sub_endpoint_id s = e \<and> sub_idempotency_key s = Some k"
  by (auto simp: find_Some_iff keyed_def)

subsection \<open>Adding a submission\<close>

lemma add_submission_sel [simp]:
  "submissions (add_submission hex s now webhook key fp d) = submissions d @ [from_domain s key fp]"
  "deliveries (add_submission hex s now webhook key fp d) =
     deliveries d @ (case webhook of None \<Rightarrow> [] | Some t \<Rightarrow> [new_delivery hex s now t])"
  "attempt_log (add_submission hex s now webhook key fp d) = attempt_log d"
  "endpoints (add_submission hex s now webhook key fp d) = endpoints d"
  "api_keys (add_submission hex s now webhook key fp d) = api_keys d"
  "counters (add_submission hex s now webhook key fp d) = counters d"
  by (simp_all add: add_submission_def Let_def split: option.splits)

lemma new_delivery_sel [simp]:
  "whd_id (new_delivery hex s now t) = new_webhook_delivery_id hex"
  "whd_submission_id (new_delivery hex s now t) = Some (sub_id s)"
  "whd_state (new_delivery hex s now t) = PENDING"
  "whd_attempts (new_delivery hex s now t) = 0"
  "whd_cycle_attempts (new_delivery hex s now t) = 0"
  "whd_next_attempt_at (new_delivery hex s now t) = now"
  "whd_claim_token (new_delivery hex s now t) = None"
  by (simp_all add: new_delivery_def)

lemma new_delivery_wf [simp]: "delivery_wf (new_delivery hex s now t)"
  by (simp add: delivery_wf_def delivery_check_def terminal_states_def new_delivery_def)

lemma add_submission_fresh:
  assumes "db_ok d" "db_ok (add_submission hex s now webhook key fp d)"
  shows "\<not> owes_delivery d (sub_id s)"
proof -
  have "sub_id s \<notin> set (map sub_id (submissions d))" using assms(2) by (simp add: db_ok_defs)
  moreover have "sid \<in> set (map sub_id (submissions d))" if "owes_delivery d sid" for sid
    using that assms(1) by (auto simp: owes_delivery_def list_ex_iff db_ok_defs list_all_iff refers_to_def)
  ultimately show ?thesis by blast
qed

lemma owes_delivery_add:
  assumes "db_ok d" "db_ok (add_submission hex s now webhook key fp d)"
  shows "owes_delivery (add_submission hex s now webhook key fp d) (sub_id s) \<longleftrightarrow> webhook \<noteq> None"
  using add_submission_fresh [OF assms] by (auto simp: owes_delivery_def split: option.splits)

lemma add_submission_inv [outbox_intros]:
  assumes inv: "outbox_inv d" and ok: "db_ok (add_submission hex s now webhook key fp d)"
  shows "outbox_inv (add_submission hex s now webhook key fp d)"
proof -
  let ?d = "add_submission hex s now webhook key fp d"
  have log: "attempts_of ?d k = attempts_of d k" for k by (simp add: attempts_of_def)
  have none: "attempts_of d (new_webhook_delivery_id hex) = []" if "webhook = Some t" for t
  proof -
    have "new_webhook_delivery_id hex \<notin> set (map whd_id (deliveries d))"
      using ok that by (simp add: db_ok_defs)
    moreover have "att_delivery_id a \<in> set (map whd_id (deliveries d))" if "a \<in> set (attempt_log d)" for a
      using that inv by (auto simp: outbox_inv_def db_ok_defs list_all_iff)
    ultimately have "\<forall>a\<in>set (attempt_log d). att_delivery_id a \<noteq> new_webhook_delivery_id hex" by metis
    then show ?thesis by (simp add: attempts_of_def filter_empty_conv)
  qed
  have "history_ok ?d"
    using inv none by (auto simp: outbox_inv_def history_ok_def log split: option.splits)
  moreover have "list_all delivery_wf (deliveries ?d)"
    using inv by (auto simp: outbox_inv_def split: option.splits)
  ultimately show ?thesis using ok by (simp add: outbox_inv_def)
qed

subsection \<open>Storing\<close>

lemma store_keyed_cases:
  assumes "db_ok d" "db_ok (later (other d))"
  obtains
    (known) e where "find (keyed (sub_endpoint_id s) k) (submissions d) = Some e"
      "store_submission other later hex s now (Some k) fp webhook d = (replayed d e fp, d)"
  | (stored) "find (keyed (sub_endpoint_id s) k) (submissions d) = None"
      "db_ok (add_submission hex s now webhook (Some k) fp (other d))"
      "store_submission other later hex s now (Some k) fp webhook d =
         (Inr (accepted s webhook), add_submission hex s now webhook (Some k) fp (other d))"
  | (lost) e where "find (keyed (sub_endpoint_id s) k) (submissions d) = None"
      "\<not> db_ok (add_submission hex s now webhook (Some k) fp (other d))"
      "find (keyed (sub_endpoint_id s) k) (submissions (later (other d))) = Some e"
      "store_submission other later hex s now (Some k) fp webhook d = (replayed (later (other d)) e fp, later (other d))"
  | (refused) "find (keyed (sub_endpoint_id s) k) (submissions d) = None"
      "\<not> db_ok (add_submission hex s now webhook (Some k) fp (other d))"
      "find (keyed (sub_endpoint_id s) k) (submissions (later (other d))) = None"
      "store_submission other later hex s now (Some k) fp webhook d =
         (Inl (StoreRaised IntegrityError), later (other d))"
proof (cases "find (keyed (sub_endpoint_id s) k) (submissions d)")
  case (Some e)
  then show thesis using known by (simp add: store_submission_def find_by_key_eq [OF assms(1)])
next
  case None
  note first = None
  show thesis
  proof (cases "db_ok (add_submission hex s now webhook (Some k) fp (other d))")
    case True
    then show thesis
      using stored first by (simp add: store_submission_def find_by_key_eq [OF assms(1)] commit_db_def)
  next
    case False
    then show thesis
      using lost refused first
      by (cases "find (keyed (sub_endpoint_id s) k) (submissions (later (other d)))")
        (simp_all add: store_submission_def find_by_key_eq [OF assms(1)] find_by_key_eq [OF assms(2)] commit_db_def Let_def)
  qed
qed

lemma replayed_Inr:
  "replayed d e fp = Inr r \<Longrightarrow>
   sub_payload_fingerprint e = fp \<and>
   r = \<lparr>ss_submission = to_domain e, ss_replayed = True, ss_delivery_queued = owes_delivery d (sub_id e)\<rparr>"
  by (auto simp: replayed_def settle_def split: if_splits)

text \<open>Alone on the database, a request either adds its submission or changes nothing.\<close>

lemma store_submission_effect:
  assumes "db_ok d" "store_submission id id hex s now key fp webhook d = (res, d')"
  shows "d' = d \<or> (db_ok d' \<and> (\<exists>k f. d' = add_submission hex s now webhook k f d))"
proof (cases key)
  case None
  with assms(2) show ?thesis by (auto simp: store_submission_def commit_db_def split: if_splits)
next
  case (Some k)
  with assms(2) show ?thesis
    by (cases "find (keyed (sub_endpoint_id s) k) (submissions d)";
        cases "db_ok (add_submission hex s now webhook (Some k) fp d)")
      (auto simp: store_submission_def find_by_key_eq [OF assms(1)] commit_db_def Let_def)
qed

lemma store_submission_inv [outbox_intros]:
  assumes "outbox_inv d" "outbox_inv (other d)" "outbox_inv (later (other d))"
    and "store_submission other later hex s now key fp webhook d = (res, d')"
  shows "outbox_inv d'"
proof (cases key)
  case None
  with assms show ?thesis
    by (auto simp: store_submission_def commit_db_def split: if_splits intro: add_submission_inv)
next
  case (Some k)
  have "db_ok d" "db_ok (later (other d))" using assms(1,3) by (simp_all add: outbox_inv_def)
  then show ?thesis
    using assms Some
    by (cases rule: store_keyed_cases [where other = other and later = later and s = s and k = k and hex = hex and now = now and fp = fp and webhook = webhook])
      (auto intro: add_submission_inv)
qed

text \<open>What a request under a key that is answered leaves behind.\<close>

lemma keyed_store_effect:
  assumes "db_ok d" and "\<And>x. db_ok x \<Longrightarrow> db_ok (other x)" and "\<And>x. db_ok x \<Longrightarrow> db_ok (later x)"
    and "store_submission other later hex s now (Some k) fp webhook d = (Inr r, d')"
  shows "db_ok d' \<and>
    (\<exists>row. filter (keyed (sub_endpoint_id s) k) (submissions d') = [row] \<and>
       to_domain row = ss_submission r \<and> sub_payload_fingerprint row = fp \<and>
       ss_delivery_queued r = owes_delivery d' (sub_id row) \<and>
       (\<not> ss_replayed r \<longrightarrow> ss_submission r = s))"
proof -
  have ok: "db_ok (other d)" "db_ok (later (other d))" using assms(1-3) by simp_all
  show ?thesis
  proof (cases rule: store_keyed_cases [where other = other and later = later and s = s and k = k and fp = fp and
      webhook = webhook and hex = hex and now = now, OF assms(1) ok(2), case_names known stored lost refused])
    case (known e)
    with assms(4) have d': "d' = d" and r: "replayed d e fp = Inr r" by auto
    from replayed_Inr [OF r] filter_keyed_found [OF assms(1) known(1)] assms(1)
    show ?thesis by (auto simp: d')
  next
    case stored
    let ?d = "add_submission hex s now webhook (Some k) fp (other d)"
    from stored(3) assms(4) have r: "r = accepted s webhook" and d': "d' = ?d" by simp_all
    have new: "keyed (sub_endpoint_id s) k (from_domain s (Some k) fp)" by (simp add: keyed_def)
    have "find (keyed (sub_endpoint_id s) k) (submissions ?d) \<noteq> None"
      using new by (auto simp: find_None_iff)
    then obtain e where "find (keyed (sub_endpoint_id s) k) (submissions ?d) = Some e" by blast
    from filter_keyed_found [OF stored(2) this] have
      "filter (keyed (sub_endpoint_id s) k) (submissions (other d)) @ [from_domain s (Some k) fp] = [e]"
      using new by simp
    then have "filter (keyed (sub_endpoint_id s) k) (submissions ?d) = [from_domain s (Some k) fp]"
      using new by simp
    then show ?thesis
      using stored(2) owes_delivery_add [OF ok(1) stored(2)] by (simp add: d' r accepted_def del: add_submission_sel)
  next
    case (lost e)
    with assms(4) have d': "d' = later (other d)" and r: "replayed d' e fp = Inr r" by auto
    from replayed_Inr [OF r] filter_keyed_found [OF ok(2) lost(3)] ok(2)
    show ?thesis by (auto simp: d')
  next
    case refused
    with assms(4) show ?thesis by simp
  qed
qed

subsection \<open>Properties\<close>

text \<open>
  C1. Storing under an idempotency key is exactly once. Whatever other requests do between the lookup
  and the commit, and between the rollback and the second lookup, a request that is answered leaves
  exactly one submission under its key; the answer describes that submission, carries the content
  that was sent, and says whether a delivery is really owed for it. An answer that is not a replay
  means this request stored the submission.
\<close>
theorem store_submission_exactly_once:
  assumes "db_ok d" and "\<And>x. db_ok x \<Longrightarrow> db_ok (other x)" and "\<And>x. db_ok x \<Longrightarrow> db_ok (later x)"
    and "store_submission other later hex s now (Some k) fp webhook d = (Inr r, d')"
  shows "db_ok d' \<and>
    (\<exists>row. filter (keyed (sub_endpoint_id s) k) (submissions d') = [row] \<and>
       to_domain row = ss_submission r \<and> sub_payload_fingerprint row = fp \<and>
       ss_delivery_queued r = owes_delivery d' (sub_id row) \<and>
       (\<not> ss_replayed r \<longrightarrow> ss_submission r = s))"
  by (rule keyed_store_effect [OF assms])

lemma store_submission_exactly_once_witness:
  "\<exists>r d'. store_submission id id [7] (hello\<lparr>sub_id := lit ''s9''\<rparr>) 3000000 (Some (lit ''key-9'')) (Some (lit ''fp-9''))
       (Some \<lparr>target_url = lit ''https://example.com/hook'', target_secret = lit ''whsec''\<rparr>) sample_db = (Inr r, d') \<and>
     db_ok d' \<and> length (filter (keyed (lit ''contact'') (lit ''key-9'')) (submissions d')) = 1"
proof -
  let ?s = "hello\<lparr>sub_id := lit ''s9''\<rparr>"
  let ?run = "store_submission id id [7] ?s 3000000 (Some (lit ''key-9'')) (Some (lit ''fp-9''))
       (Some \<lparr>target_url = lit ''https://example.com/hook'', target_secret = lit ''whsec''\<rparr>) sample_db"
  have "\<not> isl (fst ?run)" by code_simp
  then obtain r d' where run: "?run = (Inr r, d')" using returned by blast
  have e: "sub_endpoint_id ?s = lit ''contact''" by (simp add: hello_def)
  from store_submission_exactly_once [OF sample_db_ok _ _ run] run show ?thesis by (auto simp: e)
qed

text \<open>
  C11. A retry writes nothing as long as the submission it repeats is stored: every later request under its
  key is answered from that submission, the same content with a replay of it, other content with a
  conflict, and the database is untouched either way. Once retention has removed the submission its key is
  free again: a request that nothing interrupts, when it is answered, was stored as a submission of its own.
\<close>
theorem store_submission_retry:
  assumes "db_ok d"
  shows "(\<forall>row \<in> set (submissions d). sub_endpoint_id row = sub_endpoint_id s \<and> sub_idempotency_key row = Some k \<longrightarrow>
      store_submission other later hex s now (Some k) fp webhook d =
        (if fp = sub_payload_fingerprint row
         then Inr \<lparr>ss_submission = to_domain row, ss_replayed = True, ss_delivery_queued = owes_delivery d (sub_id row)\<rparr>
         else Inl (IdempotencyKeyReused (sub_endpoint_id s) (Some k)), d)) \<and>
    ((\<forall>row \<in> set (submissions d). \<not> (sub_endpoint_id row = sub_endpoint_id s \<and> sub_idempotency_key row = Some k)) \<longrightarrow>
      (\<forall>r d'. store_submission id id hex s now (Some k) fp webhook d = (Inr r, d') \<longrightarrow>
        ss_submission r = s \<and> \<not> ss_replayed r \<and> ss_delivery_queued r = (webhook \<noteq> None) \<and>
        submissions d' = submissions d @ [from_domain s (Some k) fp]))"
proof (intro conjI ballI impI allI)
  fix row assume mem: "row \<in> set (submissions d)" and e: "sub_endpoint_id row = sub_endpoint_id s \<and> sub_idempotency_key row = Some k"
  then have row: "keyed (sub_endpoint_id s) k row" by (simp add: keyed_def)
  have "find (keyed (sub_endpoint_id s) k) (submissions d) \<noteq> None"
    using row mem by (auto simp: find_None_iff)
  then obtain x where x: "find (keyed (sub_endpoint_id s) k) (submissions d) = Some x" by blast
  have "row \<in> set (filter (keyed (sub_endpoint_id s) k) (submissions d))" using row mem by simp
  with filter_keyed_found [OF assms x] have "x = row" by simp
  with x e show "store_submission other later hex s now (Some k) fp webhook d =
        (if fp = sub_payload_fingerprint row
         then Inr \<lparr>ss_submission = to_domain row, ss_replayed = True, ss_delivery_queued = owes_delivery d (sub_id row)\<rparr>
         else Inl (IdempotencyKeyReused (sub_endpoint_id s) (Some k)), d)"
    by (simp add: store_submission_def find_by_key_eq [OF assms] replayed_def settle_def)
next
  fix r d'
  assume "\<forall>row \<in> set (submissions d). \<not> (sub_endpoint_id row = sub_endpoint_id s \<and> sub_idempotency_key row = Some k)"
  then have none: "find (keyed (sub_endpoint_id s) k) (submissions d) = None" by (auto simp: find_None_iff keyed_def)
  assume "store_submission id id hex s now (Some k) fp webhook d = (Inr r, d')"
  with none have "r = accepted s webhook \<and> d' = add_submission hex s now webhook (Some k) fp d"
    by (auto simp: store_submission_def find_by_key_eq [OF assms] commit_db_def Let_def accepted_def split: if_splits)
  then show "ss_submission r = s" "\<not> ss_replayed r" "ss_delivery_queued r = (webhook \<noteq> None)"
    "submissions d' = submissions d @ [from_domain s (Some k) fp]"
    by (simp_all add: accepted_def)
qed

text \<open>The key of the sample database, spent; and the same request once the submission is gone.\<close>

lemma store_submission_retry_witness:
  "store_submission id id [7] (hello\<lparr>sub_id := lit ''s9''\<rparr>) 3000000 (Some (lit ''key-1'')) (Some (lit ''fp-1'')) None sample_db =
     (Inr \<lparr>ss_submission = hello, ss_replayed = True, ss_delivery_queued = True\<rparr>, sample_db) \<and>
   store_submission id id [7] (hello\<lparr>sub_id := lit ''s9''\<rparr>) 3000000 (Some (lit ''key-1'')) (Some (lit ''other'')) None sample_db =
     (Inl (IdempotencyKeyReused (lit ''contact'') (Some (lit ''key-1''))), sample_db) \<and>
   (\<exists>r d'. store_submission id id [7] (hello\<lparr>sub_id := lit ''s9''\<rparr>) 3000000 (Some (lit ''key-1'')) (Some (lit ''fp-1'')) None
     (empty_db\<lparr>endpoints := [contact]\<rparr>) = (Inr r, d') \<and> \<not> ss_replayed r \<and> sub_id (ss_submission r) = lit ''s9'')"
proof -
  let ?s = "hello\<lparr>sub_id := lit ''s9''\<rparr>"
  let ?swept = "empty_db\<lparr>endpoints := [contact]\<rparr>"
  let ?again = "store_submission id id [7] ?s 3000000 (Some (lit ''key-1'')) (Some (lit ''fp-1'')) None ?swept"
  have row: "hello_row \<in> set (submissions sample_db)" by (simp add: sample_db_def)
  have e: "sub_endpoint_id hello_row = sub_endpoint_id ?s \<and> sub_idempotency_key hello_row = Some (lit ''key-1'')"
    by (simp add: hello_row_def)
  have vals: "owes_delivery sample_db (sub_id hello_row)" "to_domain hello_row = hello"
    "sub_payload_fingerprint hello_row = Some (lit ''fp-1'')" "sub_endpoint_id ?s = lit ''contact''"
    "lit ''other'' \<noteq> lit ''fp-1''" by code_simp+
  have "db_ok ?swept" "\<not> isl (fst ?again)" by code_simp+
  then obtain r d' where again: "?again = (Inr r, d')" using returned by blast
  have "\<not> ss_replayed r \<and> sub_id (ss_submission r) = lit ''s9''"
    using store_submission_retry [OF \<open>db_ok ?swept\<close>, THEN conjunct2, rule_format, OF _ again] by (simp add: empty_db_def)
  with again store_submission_retry [OF sample_db_ok, THEN conjunct1, rule_format, OF row e] vals show ?thesis by simp
qed

text \<open>
  Two requests race on one fresh key and the second one commits first. The first finds its commit
  refused, discards its own submission and delivery together, and answers for the winner's: a
  replay when the content is the same, a conflict when it differs. Nothing of it is left behind.
\<close>
lemma store_submission_race:
  assumes "db_ok d" and "find_by_idempotency_key d (sub_endpoint_id s) k = Inr None"
    and winner: "store_submission id id hex2 s2 now2 (Some k) fp2 webhook2 d = (Inr r2, d2)"
    and "sub_endpoint_id s2 = sub_endpoint_id s"
  shows "store_submission (\<lambda>x. snd (store_submission id id hex2 s2 now2 (Some k) fp2 webhook2 x)) id
           hex s now (Some k) fp webhook d =
    (if fp = fp2
     then Inr \<lparr>ss_submission = s2, ss_replayed = True, ss_delivery_queued = (webhook2 \<noteq> None)\<rparr>
     else Inl (IdempotencyKeyReused (sub_endpoint_id s) (Some k)), d2)"
proof -
  have unused: "find (keyed (sub_endpoint_id s) k) (submissions d) = None"
    using assms(2) by (simp add: find_by_key_eq [OF assms(1)])
  from unused winner assms(4) have
    d2: "d2 = add_submission hex2 s2 now2 webhook2 (Some k) fp2 d" and ok2: "db_ok d2"
    by (auto simp: store_submission_def find_by_key_eq [OF assms(1)] commit_db_def split: if_splits)
  have last: "find (keyed (sub_endpoint_id s) k) (submissions d2) = Some (from_domain s2 (Some k) fp2)"
    using unused assms(4) by (simp add: d2 find_snoc_None keyed_def)
  have "\<not> distinct (List.map_filter idempotency_identity (submissions d2 @ [from_domain s (Some k) fp]))"
    using in_map_filter [of idempotency_identity "from_domain s2 (Some k) fp2" "(sub_endpoint_id s, k)" "submissions d2"] assms(4)
    by (simp add: idempotency_identity_def d2 map_filter_append)
  then have refused: "\<not> db_ok (add_submission hex s now webhook (Some k) fp d2)"
    by (simp add: db_ok_defs)
  have owed: "owes_delivery d2 (sub_id s2) \<longleftrightarrow> webhook2 \<noteq> None"
    unfolding d2 by (rule owes_delivery_add [OF assms(1) ok2 [unfolded d2]])
  let ?other = "\<lambda>x. snd (store_submission id id hex2 s2 now2 (Some k) fp2 webhook2 x)"
  have mid: "?other d = d2" "id (?other d) = d2" by (simp_all add: winner)
  have end_ok: "db_ok (id (?other d))" using ok2 by (simp add: mid)
  show ?thesis
  proof (cases rule: store_keyed_cases [where other = ?other and later = id and s = s and k = k and fp = fp and
        webhook = webhook and hex = hex and now = now, OF assms(1) end_ok, case_names known stored lost refused])
    case (lost e)
    with last have "e = from_domain s2 (Some k) fp2" by (simp add: mid)
    with lost(4) owed assms(4) show ?thesis by (auto simp: mid replayed_def settle_def)
  qed (use unused refused last in \<open>simp_all add: mid\<close>)
qed

end
