(* ===== verification/Retention.thy ===== *)
theory Retention
  imports SubmissionFacts
begin

text \<open>
  \<^verbatim>\<open>retention.py\<close> and the sweep of \<^verbatim>\<open>storage.py\<close>: which submissions have outlived their use, and
  deleting them in committed batches. Then that a sweep deletes what is eligible and nothing else,
  and that no delivery which could still be attempted loses its payload.
\<close>

subsection \<open>The rule\<close>

definition protected_states :: "delivery_state list" where
  "protected_states = [PENDING, PROCESSING, FAILED]"

definition default_batch_size :: nat where "default_batch_size = 500"
definition max_batches :: nat where "max_batches = 10000"

datatype retention_error = RetentionDisabled | RetentionRaised py_exn

record retention_policy =
  rp_days :: int

definition retention_enabled :: "retention_policy \<Rightarrow> bool" where
  "retention_enabled p \<longleftrightarrow> 0 < rp_days p"

definition retention_cutoff :: "retention_policy \<Rightarrow> time \<Rightarrow> retention_error + time" where
  "retention_cutoff p now =
     (if \<not> retention_enabled p then Inl RetentionDisabled
      else case timedelta_us (rp_days p * day_us) of
             Inl e \<Rightarrow> Inl (RetentionRaised e)
           | Inr age \<Rightarrow>
               (case dt_add now (- age) of
                  Inl e \<Rightarrow> Inl (RetentionRaised e)
                | Inr t \<Rightarrow> Inr t))"

subsection \<open>The sweep\<close>

definition expired_condition :: "db \<Rightarrow> time \<Rightarrow> submission_row \<Rightarrow> bool" where
  "expired_condition d before s \<longleftrightarrow>
     sub_received_at s < before \<and>
     \<not> list_ex (\<lambda>w. whd_submission_id w = Some (sub_id s) \<and> whd_state w \<in> set protected_states) (deliveries d)"

definition count_expired_submissions :: "time \<Rightarrow> db \<Rightarrow> nat" where
  "count_expired_submissions before d = rows_matching (expired_condition d before) (submissions d)"

text \<open>
  The loop over the batches, for \<open>n\<close> batches still allowed. \<open>pick\<close> is the order in which the
  database happens to return the eligible identifiers, which the query leaves open.
\<close>

definition eligible_ids :: "(pystr list \<Rightarrow> pystr list) \<Rightarrow> time \<Rightarrow> nat \<Rightarrow> db \<Rightarrow> pystr list" where
  "eligible_ids pick before batch d =
     take batch (pick (map sub_id (filter (expired_condition d before) (submissions d))))"

fun sweep :: "(pystr list \<Rightarrow> pystr list) \<Rightarrow> time \<Rightarrow> nat \<Rightarrow> nat \<Rightarrow> nat \<Rightarrow> db \<Rightarrow> nat \<times> db" where
  "sweep pick before batch 0 removed d = (removed, d)"
| "sweep pick before batch (Suc n) removed d =
     (let ids = eligible_ids pick before batch d
      in if ids = [] then (removed, d)
         else
           (let gone = rows_matching (\<lambda>s. sub_id s \<in> set ids) (submissions d);
                d' = delete_submissions ids d
            in if length ids < batch then (removed + gone, d')
               else sweep pick before batch n (removed + gone) d'))"

definition delete_expired_submissions :: "(pystr list \<Rightarrow> pystr list) \<Rightarrow> time \<Rightarrow> nat \<Rightarrow> nat \<Rightarrow> db \<Rightarrow> nat \<times> db" where
  "delete_expired_submissions pick before batch batches d = sweep pick before batch batches 0 d"

subsection \<open>What is eligible\<close>

lemma expired_condition_iff:
  "expired_condition d before s \<longleftrightarrow>
     sub_received_at s < before \<and>
     (\<forall>w\<in>set (deliveries d). whd_submission_id w = Some (sub_id s) \<longrightarrow> whd_state w = DELIVERED)"
proof -
  have "w \<in> set protected_states \<longleftrightarrow> w \<noteq> DELIVERED" for w
    by (cases w) (simp_all add: protected_states_def)
  then show ?thesis by (auto simp: expired_condition_def list_ex_iff)
qed

lemma delete_submissions_sel [simp]:
  "submissions (delete_submissions ids d) = filter (\<lambda>s. sub_id s \<notin> set ids) (submissions d)"
  "endpoints (delete_submissions ids d) = endpoints d"
  "api_keys (delete_submissions ids d) = api_keys d"
  "counters (delete_submissions ids d) = counters d"
  by (simp_all add: delete_submissions_def)

text \<open>Deleting submissions changes what a surviving submission owes by nothing.\<close>

lemma expired_delete:
  "sub_id s \<notin> set ids \<Longrightarrow> expired_condition (delete_submissions ids d) before s = expired_condition d before s"
  by (auto simp: expired_condition_iff delete_submissions_def unlink_Some_iff)

lemma eligible_ids_sub:
  assumes "\<And>xs. set (pick xs) = set xs"
  shows "set (eligible_ids pick before batch d) \<subseteq> sub_id ` set (filter (expired_condition d before) (submissions d))"
  using assms by (auto simp: eligible_ids_def dest!: in_set_takeD)

text \<open>What was unlinked, and nothing else, of the deliveries and of the attempts.\<close>

definition unlinked_from :: "db \<Rightarrow> db \<Rightarrow> bool" where
  "unlinked_from d d' \<longleftrightarrow>
     (\<exists>ids. deliveries d' = map (\<lambda>w. w\<lparr>whd_submission_id := unlink ids (whd_submission_id w)\<rparr>) (deliveries d) \<and>
            attempt_log d' = map (\<lambda>a. a\<lparr>att_submission_id := unlink ids (att_submission_id a)\<rparr>) (attempt_log d)) \<and>
     endpoints d' = endpoints d \<and> api_keys d' = api_keys d \<and> counters d' = counters d"

lemma unlink_unlink: "unlink js (unlink gone r) = unlink (gone @ js) r"
  by (auto simp: unlink_def split: option.splits)

lemma unlinked_from_refl: "unlinked_from d d"
proof -
  have "unlink [] r = r" for r by (cases r) (simp_all add: unlink_def)
  then show ?thesis unfolding unlinked_from_def by (intro conjI exI [of _ "[]"]) simp_all
qed

lemma unlinked_from_delete: "unlinked_from d (delete_submissions ids d)"
  unfolding unlinked_from_def by (intro conjI exI [of _ ids]) (simp_all add: delete_submissions_def)

lemma unlinked_from_trans:
  assumes "unlinked_from d d1" "unlinked_from d1 d2"
  shows "unlinked_from d d2"
proof -
  from assms(1) obtain gone where 1:
    "deliveries d1 = map (\<lambda>w. w\<lparr>whd_submission_id := unlink gone (whd_submission_id w)\<rparr>) (deliveries d)"
    "attempt_log d1 = map (\<lambda>a. a\<lparr>att_submission_id := unlink gone (att_submission_id a)\<rparr>) (attempt_log d)"
    unfolding unlinked_from_def by blast
  from assms(2) obtain more where 2:
    "deliveries d2 = map (\<lambda>w. w\<lparr>whd_submission_id := unlink more (whd_submission_id w)\<rparr>) (deliveries d1)"
    "attempt_log d2 = map (\<lambda>a. a\<lparr>att_submission_id := unlink more (att_submission_id a)\<rparr>) (attempt_log d1)"
    unfolding unlinked_from_def by blast
  have "endpoints d2 = endpoints d" "api_keys d2 = api_keys d" "counters d2 = counters d"
    using assms by (simp_all add: unlinked_from_def)
  then show ?thesis
    unfolding unlinked_from_def by (intro conjI exI [of _ "gone @ more"]) (simp_all add: 1 2 comp_def unlink_unlink)
qed

subsection \<open>Deleting keeps the invariants\<close>

lemma delete_submissions_inv [outbox_intros]:
  assumes inv: "outbox_inv d"
    and settled: "\<forall>w\<in>set (deliveries d). \<forall>k. whd_submission_id w = Some k \<and> k \<in> set ids \<longrightarrow> whd_state w = DELIVERED"
  shows "outbox_inv (delete_submissions ids d)"
proof -
  have "db_ok (delete_submissions ids d)" using inv by (simp add: outbox_inv_def delete_submissions_ok)
  moreover have "list_all delivery_wf (deliveries (delete_submissions ids d))"
    using inv settled
    by (fastforce simp: outbox_inv_def delete_submissions_def list_all_iff delivery_wf_def delivery_check_def unlink_eq_None_iff)
  moreover have "map att_number (attempts_of (delete_submissions ids d) k) = map att_number (attempts_of d k)" for k
    by (simp add: attempts_of_def delete_submissions_def filter_map comp_def)
  then have "history_ok (delete_submissions ids d)"
    using inv by (auto simp: outbox_inv_def history_ok_def delete_submissions_def list_all_iff)
  ultimately show ?thesis by (simp add: outbox_inv_def)
qed

subsection \<open>What a sweep does\<close>

definition reorders :: "(pystr list \<Rightarrow> pystr list) \<Rightarrow> bool" where
  "reorders pick \<longleftrightarrow> (\<forall>xs. set (pick xs) = set xs \<and> length (pick xs) = length xs)"

lemma length_filter_ids:
  assumes "distinct (map sub_id ss)" "distinct ids" "set ids \<subseteq> sub_id ` set ss"
  shows "length (filter (\<lambda>s. sub_id s \<in> set ids) ss) = length ids"
proof -
  let ?fs = "filter (\<lambda>s. sub_id s \<in> set ids) ss"
  have "distinct (map sub_id ?fs)" by (rule distinct_key_filter [OF assms(1)])
  then have "length ?fs = card (set (map sub_id ?fs))" using distinct_card by fastforce
  also have "set (map sub_id ?fs) = set ids" using assms(3) by auto
  finally show ?thesis using assms(2) by (simp add: distinct_card)
qed

lemma eligible_ids_distinct:
  assumes "reorders pick" "distinct (map sub_id (submissions d))"
  shows "distinct (eligible_ids pick before batch d)"
proof -
  let ?xs = "map sub_id (filter (expired_condition d before) (submissions d))"
  have "distinct ?xs" by (rule distinct_key_filter [OF assms(2)])
  then have "card (set (pick ?xs)) = length (pick ?xs)"
    using assms(1) by (simp only: reorders_def distinct_card)
  then show ?thesis by (simp add: eligible_ids_def card_distinct)
qed

text \<open>
  The outcome of a sweep from a table \<open>d\<close>: the eligible submissions named in \<open>gone\<close> are deleted, and
  all the eligible ones unless the budget of the run was spent.
\<close>

definition swept :: "time \<Rightarrow> nat \<Rightarrow> db \<Rightarrow> nat \<Rightarrow> db \<Rightarrow> bool" where
  "swept before budget d n d' \<longleftrightarrow>
     (\<exists>gone. set gone \<subseteq> sub_id ` set (filter (expired_condition d before) (submissions d)) \<and>
             submissions d' = filter (\<lambda>s. sub_id s \<notin> set gone) (submissions d)) \<and>
     n + length (submissions d') = length (submissions d) \<and> n \<le> budget \<and>
     (n < budget \<longrightarrow> submissions d' = filter (\<lambda>s. \<not> expired_condition d before s) (submissions d)) \<and>
     unlinked_from d d'"

lemma filter_delete_expired:
  "filter (expired_condition (delete_submissions ids d) before) (submissions (delete_submissions ids d)) =
   filter (\<lambda>s. expired_condition d before s \<and> sub_id s \<notin> set ids) (submissions d)"
  by (auto simp: expired_delete intro!: filter_cong)

lemma filter_delete_kept:
  assumes "set ids \<subseteq> sub_id ` set (filter (expired_condition d before) (submissions d))"
    and "distinct (map sub_id (submissions d))"
  shows "filter (\<lambda>s. \<not> expired_condition (delete_submissions ids d) before s) (submissions (delete_submissions ids d)) =
    filter (\<lambda>s. \<not> expired_condition d before s) (submissions d)"
proof -
  have "sub_id s \<notin> set ids" if s: "s \<in> set (submissions d)" "\<not> expired_condition d before s" for s
  proof
    assume "sub_id s \<in> set ids"
    with assms(1) obtain e where "e \<in> set (submissions d)" "expired_condition d before e" "sub_id e = sub_id s"
      by fastforce
    with s distinct_map_inj [OF assms(2)] show False by metis
  qed
  then show ?thesis by (auto simp: expired_delete intro!: filter_cong)
qed

lemma swept_step:
  assumes ids: "set ids \<subseteq> sub_id ` set (filter (expired_condition d before) (submissions d))" "distinct ids"
    and dist: "distinct (map sub_id (submissions d))"
    and rest: "swept before b (delete_submissions ids d) k d'"
  shows "swept before (b + length ids) d (length ids + k) d'"
proof -
  from rest obtain gone where
    gone: "set gone \<subseteq> sub_id ` set (filter (\<lambda>s. expired_condition d before s \<and> sub_id s \<notin> set ids) (submissions d))"
      "submissions d' = filter (\<lambda>s. sub_id s \<notin> set gone) (submissions (delete_submissions ids d))"
    and count: "k + length (submissions d') = length (submissions (delete_submissions ids d))" "k \<le> b"
    and all: "k < b \<longrightarrow> submissions d' = filter (\<lambda>s. \<not> expired_condition d before s) (submissions d)"
    and links: "unlinked_from (delete_submissions ids d) d'"
    unfolding swept_def filter_delete_expired filter_delete_kept [OF ids(1) dist] by blast
  have "length (filter (\<lambda>s. sub_id s \<in> set ids) (submissions d)) = length ids"
    using ids by (intro length_filter_ids [OF dist]) auto
  then have len: "length ids + length (submissions (delete_submissions ids d)) = length (submissions d)"
    using sum_length_filter_compl [of "\<lambda>s. sub_id s \<in> set ids" "submissions d"] by simp
  have "unlinked_from d d'" using unlinked_from_trans [OF unlinked_from_delete links] .
  moreover have "submissions d' = filter (\<lambda>s. sub_id s \<notin> set (ids @ gone)) (submissions d)"
    using gone(2) by (auto intro!: filter_cong)
  moreover have "set (ids @ gone) \<subseteq> sub_id ` set (filter (expired_condition d before) (submissions d))"
    using ids(1) gone(1) by auto
  ultimately show ?thesis unfolding swept_def using count all len by (intro conjI exI [of _ "ids @ gone"]) auto
qed

lemma swept_nothing:
  assumes "filter (expired_condition d before) (submissions d) = []"
  shows "swept before b d 0 d"
  using assms by (auto simp: swept_def unlinked_from_refl filter_empty_conv intro!: exI [of _ "[]"])

lemma swept_mono:
  assumes "swept before b d k d'" "b \<le> b'" "k < b' \<longrightarrow> k < b"
  shows "swept before b' d k d'"
  using assms by (auto simp: swept_def)

lemma sweep_swept:
  assumes "reorders pick" "0 < batch"
  shows "distinct (map sub_id (submissions d)) \<Longrightarrow>
    \<exists>k. fst (sweep pick before batch n removed d) = removed + k \<and>
        swept before (n * batch) d k (snd (sweep pick before batch n removed d))"
proof (induction n arbitrary: removed d)
  case 0
  then show ?case by (auto simp: swept_def unlinked_from_refl intro!: exI [of _ "[]"])
next
  case (Suc n)
  let ?ids = "eligible_ids pick before batch d"
  let ?el = "filter (expired_condition d before) (submissions d)"
  have pick: "set (pick (map sub_id ?el)) = sub_id ` set ?el" "length (pick (map sub_id ?el)) = length ?el"
    using assms(1) by (simp_all add: reorders_def)
  have sub: "set ?ids \<subseteq> sub_id ` set ?el" using assms(1) by (intro eligible_ids_sub) (simp add: reorders_def)
  note dist = eligible_ids_distinct [OF assms(1) Suc.prems, of before batch]
  have gone: "rows_matching (\<lambda>s. sub_id s \<in> set ?ids) (submissions d) = length ?ids"
    using length_filter_ids [OF Suc.prems dist] sub by (auto simp: rows_matching_def)
  have dist': "distinct (map sub_id (submissions (delete_submissions ?ids d)))"
    using Suc.prems by (simp add: distinct_key_filter)
  consider "?ids = []" | "?ids \<noteq> []" "length ?ids < batch" | "?ids \<noteq> []" "length ?ids = batch"
    by (fastforce simp: eligible_ids_def)
  then show ?case
  proof cases
    case 1
    with assms(2) pick have "?el = []" by (auto simp: eligible_ids_def)
    with 1 show ?thesis by (auto intro!: exI [of _ 0] swept_nothing)
  next
    case 2
    then have "?ids = pick (map sub_id ?el)" by (auto simp: eligible_ids_def)
    with pick have all: "set ?ids = sub_id ` set ?el" by simp
    have "filter (expired_condition (delete_submissions ?ids d) before) (submissions (delete_submissions ?ids d)) = []"
      unfolding filter_delete_expired all by (auto simp: filter_empty_conv)
    from swept_step [OF sub dist Suc.prems swept_nothing [OF this, of 1]]
    have "swept before (1 + length ?ids) d (length ?ids) (delete_submissions ?ids d)" by simp
    from swept_mono [OF this, of "Suc n * batch"] 2(2)
    have "swept before (Suc n * batch) d (length ?ids) (delete_submissions ?ids d)" by simp
    moreover have "sweep pick before batch (Suc n) removed d = (removed + length ?ids, delete_submissions ?ids d)"
      using 2 gone by (simp add: Let_def)
    ultimately show ?thesis by (intro exI [of _ "length ?ids"]) simp
  next
    case 3
    let ?d = "delete_submissions ?ids d"
    have eq: "sweep pick before batch (Suc n) removed d = sweep pick before batch n (removed + length ?ids) ?d"
      using 3 gone by (simp add: Let_def)
    from Suc.IH [OF dist', of "removed + length ?ids"] obtain k where
      k: "fst (sweep pick before batch n (removed + length ?ids) ?d) = removed + length ?ids + k"
      "swept before (n * batch) ?d k (snd (sweep pick before batch n (removed + length ?ids) ?d))"
      by blast
    from swept_step [OF sub dist Suc.prems k(2)] k(1) 3(2) show ?thesis
      unfolding eq by (intro exI [of _ "length ?ids + k"]) (simp add: add.commute)
  qed
qed

lemma delete_expired_swept:
  assumes "db_ok d" "reorders pick" "0 < batch" "delete_expired_submissions pick before batch batches d = (n, d')"
  shows "swept before (batches * batch) d n d'"
  using sweep_swept [OF assms(2,3), of d before batches 0] assms(1,4)
  by (auto simp: delete_expired_submissions_def db_ok_defs)

lemma sweep_inv:
  "reorders pick \<Longrightarrow> outbox_inv d \<Longrightarrow> outbox_inv (snd (sweep pick before batch n removed d))"
proof (induction n arbitrary: removed d)
  case (Suc n)
  let ?ids = "eligible_ids pick before batch d"
  have "set ?ids \<subseteq> sub_id ` set (filter (expired_condition d before) (submissions d))"
    using Suc.prems(1) by (intro eligible_ids_sub) (simp add: reorders_def)
  then have "outbox_inv (delete_submissions ?ids d)"
    using Suc.prems(2) by (intro delete_submissions_inv) (auto simp: expired_condition_iff)
  then show ?case using Suc by (simp add: Let_def)
qed simp

lemma sweep_unlinked: "unlinked_from d (snd (sweep pick before batch n removed d))"
proof (induction n arbitrary: removed d)
  case (Suc n)
  let ?ids = "eligible_ids pick before batch d"
  show ?case
    using unlinked_from_refl [of d] unlinked_from_delete [of d ?ids]
      unlinked_from_trans [OF unlinked_from_delete [of d ?ids] Suc.IH]
    by (simp add: Let_def)
qed (simp add: unlinked_from_refl)

lemma delete_expired_inv [outbox_intros]:
  "reorders pick \<Longrightarrow> outbox_inv d \<Longrightarrow> outbox_inv (snd (delete_expired_submissions pick before batch batches d))"
  by (simp add: delete_expired_submissions_def sweep_inv)

lemma unlinked_from_history:
  assumes "unlinked_from d d'"
  shows "map (whd_submission_id_update (\<lambda>_. None)) (deliveries d') = map (whd_submission_id_update (\<lambda>_. None)) (deliveries d)"
    and "map (att_submission_id_update (\<lambda>_. None)) (attempt_log d') = map (att_submission_id_update (\<lambda>_. None)) (attempt_log d)"
  using assms by (auto simp: unlinked_from_def)

text \<open>
  C15. A sweep deletes submissions that are older than the cutoff and owe nothing any more, reports
  exactly how many, and removes no more than its batches allow; unless that budget was spent, every
  eligible submission is gone and every other one is still there, in place. Deliveries and attempts
  survive with everything they recorded but the link.
\<close>
theorem sweep_removes_only_eligible:
  assumes "db_ok d" and "reorders pick" and "0 < batch"
    and "delete_expired_submissions pick before batch batches d = (n, d')"
  shows "n + length (submissions d') = length (submissions d) \<and> n \<le> batches * batch \<and>
    set (submissions d') \<subseteq> set (submissions d) \<and>
    (\<forall>s\<in>set (submissions d) - set (submissions d'). sub_received_at s < before \<and>
       (\<forall>w\<in>set (deliveries d). whd_submission_id w = Some (sub_id s) \<longrightarrow> whd_state w = DELIVERED)) \<and>
    (n < batches * batch \<longrightarrow> submissions d' = filter (\<lambda>s. \<not> expired_condition d before s) (submissions d)) \<and>
    map (whd_submission_id_update (\<lambda>_. None)) (deliveries d') = map (whd_submission_id_update (\<lambda>_. None)) (deliveries d) \<and>
    map (att_submission_id_update (\<lambda>_. None)) (attempt_log d') = map (att_submission_id_update (\<lambda>_. None)) (attempt_log d)"
proof -
  have ids: "distinct (map sub_id (submissions d))" using assms(1) by (simp add: db_ok_defs)
  from delete_expired_swept [OF assms] obtain gone where
    gone: "set gone \<subseteq> sub_id ` set (filter (expired_condition d before) (submissions d))"
      "submissions d' = filter (\<lambda>s. sub_id s \<notin> set gone) (submissions d)"
    and rest: "n + length (submissions d') = length (submissions d)" "n \<le> batches * batch"
      "n < batches * batch \<longrightarrow> submissions d' = filter (\<lambda>s. \<not> expired_condition d before s) (submissions d)"
      "unlinked_from d d'"
    unfolding swept_def by blast
  have "expired_condition d before s" if "s \<in> set (submissions d)" "s \<notin> set (submissions d')" for s
  proof -
    from that gone obtain e where "e \<in> set (submissions d)" "expired_condition d before e" "sub_id e = sub_id s"
      by fastforce
    with that(1) distinct_map_inj [OF ids] show ?thesis by metis
  qed
  then have "\<forall>s\<in>set (submissions d) - set (submissions d'). sub_received_at s < before \<and>
       (\<forall>w\<in>set (deliveries d). whd_submission_id w = Some (sub_id s) \<longrightarrow> whd_state w = DELIVERED)"
    by (auto simp: expired_condition_iff)
  moreover have "set (submissions d') \<subseteq> set (submissions d)" using gone(2) by auto
  ultimately show ?thesis using rest unlinked_from_history [OF rest(4)] by blast
qed

lemma sweep_removes_only_eligible_witness:
  "\<exists>n d'. delete_expired_submissions rev 900000 2 5 sample_db = (n, d') \<and> n = 1 \<and>
     submissions d' = filter (\<lambda>s. \<not> expired_condition sample_db 900000 s) (submissions sample_db)"
proof -
  obtain n d' where run: "delete_expired_submissions rev 900000 2 5 sample_db = (n, d')" by fastforce
  have "fst (delete_expired_submissions rev 900000 2 5 sample_db) = 1" by code_simp
  with run have "n = 1" by simp
  moreover have "reorders rev" by (simp add: reorders_def)
  ultimately show ?thesis using sweep_removes_only_eligible [OF sample_db_ok _ _ run] run by simp
qed

text \<open>
  C8. A sweep takes no payload that could still be needed: whatever it deletes, every delivery that is
  not delivered yet keeps its row as it was and the submission its payload is built from.
\<close>
theorem sweep_keeps_payloads:
  assumes "outbox_inv d" and "reorders pick" and "0 < batch"
    and "delete_expired_submissions pick before batch batches d = (n, d')"
    and "w \<in> set (deliveries d')" and "whd_state w \<noteq> DELIVERED"
  shows "w \<in> set (deliveries d) \<and>
    (\<exists>s. s \<in> set (submissions d) \<and> s \<in> set (submissions d') \<and> whd_submission_id w = Some (sub_id s))"
proof -
  have inv: "outbox_inv d'" using delete_expired_inv [OF assms(2,1)] assms(4) by (metis snd_conv)
  with assms(5,6) have "whd_submission_id w \<noteq> None"
    by (auto simp: outbox_inv_def list_all_iff delivery_wf_def)
  then obtain sid where sid: "whd_submission_id w = Some sid" by blast
  with inv assms(5) have "sid \<in> set (map sub_id (submissions d'))"
    by (auto simp: outbox_inv_def db_ok_defs list_all_iff refers_to_def)
  then obtain s where s: "s \<in> set (submissions d')" "sub_id s = sid" by auto
  have swept: "swept before (batches * batch) d n d'"
    using delete_expired_swept [OF _ assms(2-4)] assms(1) by (simp add: outbox_inv_def)
  then have "s \<in> set (submissions d)" using s(1) by (auto simp: swept_def)
  moreover from swept assms(5) obtain gone v where
    v: "v \<in> set (deliveries d)" "w = v\<lparr>whd_submission_id := unlink gone (whd_submission_id v)\<rparr>"
    by (auto simp: swept_def unlinked_from_def)
  from sid v(2) have "whd_submission_id v = Some sid" by (simp add: unlink_Some_iff)
  with sid v(2) have "w = v" by simp
  ultimately show ?thesis using v(1) sid s by blast
qed

lemma sweep_keeps_payloads_witness:
  "\<exists>n d'. delete_expired_submissions rev 5000000 2 5 sample_db = (n, d') \<and> waiting \<in> set (deliveries d') \<and>
     hello_row \<in> set (submissions d')"
proof -
  obtain n d' where run: "delete_expired_submissions rev 5000000 2 5 sample_db = (n, d')" by fastforce
  have w: "waiting \<in> set (deliveries (snd (delete_expired_submissions rev 5000000 2 5 sample_db)))"
    "whd_state waiting \<noteq> DELIVERED" "whd_submission_id waiting = Some (sub_id hello_row)" by code_simp+
  have "reorders rev" by (simp add: reorders_def)
  from sweep_keeps_payloads [OF sample_inv this _ run _ w(2)] w(1,3) run
  obtain s where s: "s \<in> set (submissions sample_db)" "s \<in> set (submissions d')" "sub_id s = sub_id hello_row"
    by auto
  moreover have "distinct (map sub_id (submissions sample_db))" using sample_db_ok by (simp add: db_ok_defs)
  moreover have "hello_row \<in> set (submissions sample_db)" by (simp add: sample_db_def)
  ultimately have "s = hello_row" by (metis distinct_map_inj)
  with s w run show ?thesis by auto
qed

text \<open>
  Retention is off unless a positive age is configured, and then the cutoff lies exactly that many
  days before the run; an age that leaves the range of dates raises.
\<close>
lemma retention_cutoff_value:
  "retention_cutoff p now =
     (if rp_days p \<le> 0 then Inl RetentionDisabled
      else if rp_days p \<le> 999999999 \<and> dt_min \<le> now - rp_days p * day_us \<and> now - rp_days p * day_us \<le> dt_max
      then Inr (now - rp_days p * day_us)
      else Inl (RetentionRaised OverflowError))"
  by (auto simp: retention_cutoff_def retention_enabled_def timedelta_us_def dt_add_def day_us_def)

end
