(* ===== verification/Config.thy ===== *)
theory Config
  imports Retention
begin

text \<open>
  \<^verbatim>\<open>config.py\<close>: the settings of a process with their defaults and bounds, and the policies the
  other parts are handed. Reading the environment is left to the settings library; what it
  guarantees, the declared bounds, is the predicate \<open>settings_ok\<close>. Then that the bounds are enough
  for the retry schedule, and where they are not.
\<close>

subsection \<open>Settings\<close>

text \<open>A float setting is taken at its exact rational value.\<close>

record settings =
  cfg_database_url :: pystr
  cfg_max_body_bytes :: int
  cfg_max_fields :: int
  cfg_max_field_name_length :: int
  cfg_max_field_value_length :: int
  cfg_webhook_connect_timeout_seconds :: rat
  cfg_webhook_read_timeout_seconds :: rat
  cfg_webhook_max_attempts :: int
  cfg_webhook_retry_initial_seconds :: rat
  cfg_webhook_retry_max_seconds :: rat
  cfg_worker_poll_seconds :: rat
  cfg_worker_batch_size :: int
  cfg_worker_lease_seconds :: rat
  cfg_allow_private_webhook_targets :: bool
  cfg_rate_limit_enabled :: bool
  cfg_rate_limit_ip_requests :: int
  cfg_rate_limit_ip_window_seconds :: int
  cfg_rate_limit_endpoint_requests :: int
  cfg_rate_limit_endpoint_window_seconds :: int
  cfg_rate_limit_ip_secret :: "pystr option"
  cfg_trusted_proxy_hops :: int
  cfg_submission_retention_days :: int
  cfg_export_max_submissions :: int

definition default_settings :: "pystr \<Rightarrow> settings" where
  "default_settings url =
     \<lparr>cfg_database_url = url,
      cfg_max_body_bytes = 256 * 1024,
      cfg_max_fields = 100,
      cfg_max_field_name_length = 128,
      cfg_max_field_value_length = 16 * 1024,
      cfg_webhook_connect_timeout_seconds = 5,
      cfg_webhook_read_timeout_seconds = 10,
      cfg_webhook_max_attempts = 5,
      cfg_webhook_retry_initial_seconds = 10,
      cfg_webhook_retry_max_seconds = 3600,
      cfg_worker_poll_seconds = 1,
      cfg_worker_batch_size = 10,
      cfg_worker_lease_seconds = 60,
      cfg_allow_private_webhook_targets = False,
      cfg_rate_limit_enabled = True,
      cfg_rate_limit_ip_requests = 60,
      cfg_rate_limit_ip_window_seconds = 60,
      cfg_rate_limit_endpoint_requests = 600,
      cfg_rate_limit_endpoint_window_seconds = 60,
      cfg_rate_limit_ip_secret = None,
      cfg_trusted_proxy_hops = 0,
      cfg_submission_retention_days = 0,
      cfg_export_max_submissions = 10000\<rparr>"

definition settings_ok :: "settings \<Rightarrow> bool" where
  "settings_ok s \<longleftrightarrow>
     1 \<le> cfg_max_body_bytes s \<and> 1 \<le> cfg_max_fields s \<and> 1 \<le> cfg_max_field_name_length s \<and>
     1 \<le> cfg_max_field_value_length s \<and> 0 < cfg_webhook_connect_timeout_seconds s \<and>
     0 < cfg_webhook_read_timeout_seconds s \<and> 1 \<le> cfg_webhook_max_attempts s \<and>
     0 < cfg_webhook_retry_initial_seconds s \<and> 0 < cfg_webhook_retry_max_seconds s \<and>
     0 < cfg_worker_poll_seconds s \<and> 1 \<le> cfg_worker_batch_size s \<and> 0 < cfg_worker_lease_seconds s \<and>
     1 \<le> cfg_rate_limit_ip_requests s \<and> 1 \<le> cfg_rate_limit_ip_window_seconds s \<and>
     1 \<le> cfg_rate_limit_endpoint_requests s \<and> 1 \<le> cfg_rate_limit_endpoint_window_seconds s \<and>
     (case cfg_rate_limit_ip_secret s of None \<Rightarrow> True | Some k \<Rightarrow> 16 \<le> length k) \<and>
     0 \<le> cfg_trusted_proxy_hops s \<and> 0 \<le> cfg_submission_retention_days s \<and> 1 \<le> cfg_export_max_submissions s"

lemma default_settings_ok [simp]: "settings_ok (default_settings url)"
  by (simp add: settings_ok_def default_settings_def)

subsection \<open>The policies the settings describe\<close>

definition settings_retry_policy :: "settings \<Rightarrow> retry_policy" where
  "settings_retry_policy s =
     \<lparr>max_attempts = cfg_webhook_max_attempts s,
      initial_seconds = cfg_webhook_retry_initial_seconds s,
      max_seconds = cfg_webhook_retry_max_seconds s\<rparr>"

definition ip_rate_limit :: "settings \<Rightarrow> rate_limit" where
  "ip_rate_limit s =
     \<lparr>requests = cfg_rate_limit_ip_requests s, window_seconds = cfg_rate_limit_ip_window_seconds s\<rparr>"

definition endpoint_rate_limit :: "settings \<Rightarrow> rate_limit" where
  "endpoint_rate_limit s =
     \<lparr>requests = cfg_rate_limit_endpoint_requests s, window_seconds = cfg_rate_limit_endpoint_window_seconds s\<rparr>"

definition settings_retention_policy :: "settings \<Rightarrow> retention_policy" where
  "settings_retention_policy s = \<lparr>rp_days = cfg_submission_retention_days s\<rparr>"

subsection \<open>The retry schedule\<close>

text \<open>The largest cap a \<^verbatim>\<open>timedelta\<close> can hold.\<close>

definition timedelta_cap :: rat where "timedelta_cap = 86399999999999"

lemma timedelta_seconds_total:
  assumes "0 \<le> x" "x \<le> timedelta_cap"
  shows "timedelta_seconds x = Inr (round_half_even (x * 1000000))"
proof -
  let ?u = "round_half_even (x * 1000000)"
  have "0 \<le> ?u" using assms(1) by (intro round_half_even_nonneg) simp
  moreover have "?u \<le> round_half_even (of_int 86399999999999000000)"
    using assms(2) by (intro round_half_even_mono) (simp add: timedelta_cap_def)
  ultimately have "0 \<le> ?u" "?u \<le> 86399999999999000000" by (simp_all only: round_half_even_of_int)
  then have "0 \<le> ?u div day_us" "?u div day_us \<le> 86399999999999000000 div day_us"
    by (simp_all add: day_us_def pos_imp_zdiv_nonneg_iff zdiv_mono1)
  then have "\<bar>?u div day_us\<bar> \<le> 999999999" by (simp add: day_us_def)
  then show ?thesis by (simp add: timedelta_seconds_def timedelta_us_def)
qed

lemma timedelta_seconds_overflow:
  assumes "86400000000000 \<le> x"
  shows "timedelta_seconds x = Inl OverflowError"
proof -
  let ?u = "round_half_even (x * 1000000)"
  have "round_half_even (of_int 86400000000000000000) \<le> ?u" using assms by (intro round_half_even_mono) simp
  then have "86400000000000000000 \<le> ?u" by (simp only: round_half_even_of_int)
  then have "86400000000000000000 div day_us \<le> ?u div day_us" by (intro zdiv_mono1) (simp_all add: day_us_def)
  then have "1000000000 \<le> ?u div day_us" by (simp add: day_us_def)
  then show ?thesis by (simp add: timedelta_seconds_def timedelta_us_def)
qed

text \<open>
  C37. Under every configuration the settings accept, the wait before the next attempt of a delivery
  doubles from the initial delay up to the cap, for the first 1024 attempts of a cycle: as long as it fits
  a timedelta it is that many seconds, never shrinks and never exceeds the cap. The settings bound neither
  the cap nor the number of attempts; where the wait no longer fits a timedelta, and from the 1025th
  attempt on, computing it raises instead.
\<close>
theorem backoff_bounded:
  assumes "settings_ok s" and "seconds = (\<lambda>n. min (cfg_webhook_retry_initial_seconds s * 2 ^ nat (n - 1)) (cfg_webhook_retry_max_seconds s))"
  shows "(\<forall>n. 1 \<le> n \<and> n \<le> 1024 \<and> seconds n \<le> timedelta_cap \<longrightarrow>
      (\<exists>d. delay_after (settings_retry_policy s) n = Inr d \<and> d = round_half_even (seconds n * 1000000) \<and>
        0 \<le> d \<and> d \<le> round_half_even (cfg_webhook_retry_max_seconds s * 1000000) \<and>
        (\<forall>m e. m \<le> n \<and> delay_after (settings_retry_policy s) m = Inr e \<longrightarrow> e \<le> d))) \<and>
    (\<forall>n. 1 \<le> n \<and> n \<le> 1024 \<and> 86400000000000 \<le> seconds n \<longrightarrow> delay_after (settings_retry_policy s) n = Inl OverflowError) \<and>
    (\<forall>n > 1024. delay_after (settings_retry_policy s) n = Inl OverflowError)"
proof (intro conjI allI impI)
  let ?p = "settings_retry_policy s"
  have pos: "0 < initial_seconds ?p" "0 < max_seconds ?p"
    using assms(1) by (simp_all add: settings_ok_def settings_retry_policy_def)
  have run: "delay_after ?p n = timedelta_seconds (seconds n)" if "1 \<le> n" "n \<le> 1024" for n
  proof -
    have "nat (n - 1) < 1024" "max (n - 1) 0 = n - 1" using that by linarith+
    then show ?thesis by (simp add: delay_after_def Let_def assms(2) settings_retry_policy_def)
  qed
  show "\<exists>d. delay_after ?p n = Inr d \<and> d = round_half_even (seconds n * 1000000) \<and>
      0 \<le> d \<and> d \<le> round_half_even (cfg_webhook_retry_max_seconds s * 1000000) \<and>
      (\<forall>m e. m \<le> n \<and> delay_after ?p m = Inr e \<longrightarrow> e \<le> d)"
    if n: "1 \<le> n \<and> n \<le> 1024 \<and> seconds n \<le> timedelta_cap" for n
  proof -
    have "0 \<le> seconds n" using pos by (auto simp: assms(2) settings_retry_policy_def min_le_iff_disj)
    with n have d: "delay_after ?p n = Inr (round_half_even (seconds n * 1000000))"
      using timedelta_seconds_total [of "seconds n"] run by simp
    from d delay_after_nonneg [OF d] delay_after_cap [OF d] delay_after_mono [OF _ d] pos show ?thesis
      by (auto simp: settings_retry_policy_def)
  qed
  show "delay_after ?p n = Inl OverflowError" if "1 \<le> n \<and> n \<le> 1024 \<and> 86400000000000 \<le> seconds n" for n
    using that run timedelta_seconds_overflow by simp
  show "delay_after ?p n = Inl OverflowError" if "1024 < n" for n
  proof -
    have "1024 \<le> nat (n - 1)" "max (n - 1) 0 = n - 1" using that by linarith+
    then show ?thesis by (simp add: delay_after_def Let_def)
  qed
qed

text \<open>The default settings, and a cap beyond what a timedelta holds, from which on the schedule raises.\<close>

lemma backoff_bounded_witness:
  "(\<exists>d. delay_after (settings_retry_policy (default_settings [])) 3 = Inr d \<and> d \<le> 3600000000) \<and>
   delay_after (settings_retry_policy (default_settings [])) 1025 = Inl OverflowError \<and>
   delay_after (settings_retry_policy ((default_settings [])\<lparr>cfg_webhook_retry_max_seconds := 10 ^ 15\<rparr>)) 51 = Inl OverflowError"
proof -
  let ?far = "(default_settings [])\<lparr>cfg_webhook_retry_max_seconds := 10 ^ 15\<rparr>"
  have "settings_ok ?far" using default_settings_ok [of "[]"] by (simp add: settings_ok_def)
  note far = backoff_bounded [OF this refl, THEN conjunct2, THEN conjunct1, rule_format, of 51]
  have "delay_after (settings_retry_policy ?far) 51 = Inl OverflowError"
    by (rule far) (simp add: default_settings_def)
  note b = backoff_bounded [OF default_settings_ok refl]
  have "\<exists>d. delay_after (settings_retry_policy (default_settings [])) 3 = Inr d \<and>
      d \<le> round_half_even (cfg_webhook_retry_max_seconds (default_settings []) * 1000000)"
    using b [THEN conjunct1, rule_format, of 3] by (auto simp: default_settings_def timedelta_cap_def)
  moreover have "delay_after (settings_retry_policy (default_settings [])) 1025 = Inl OverflowError"
    using b [THEN conjunct2, THEN conjunct2, rule_format, of 1025] by simp
  ultimately show ?thesis using \<open>delay_after (settings_retry_policy ?far) 51 = _\<close> round_half_even_of_int [of 3600000000]
    by (simp add: default_settings_def)
qed

end
