(* ===== verification/Schema.thy ===== *)
theory Schema
  imports Text
begin

text \<open>
  \<^verbatim>\<open>schema.py\<close>: the check every process makes before it works on a database, that the database is at the
  revision this build was written for. What the migration library reads, the newest revision it finds in
  the build and the revision a database is at, are arguments. With it the rendering of a string in a
  message, \<^verbatim>\<open>repr\<close>.
\<close>

subsection \<open>Rendering a string\<close>

text \<open>
  \<^verbatim>\<open>repr\<close> of a string: single quotes, or double ones around a string with single quotes only; what is
  not printable is escaped. Which code points from 128 on are printable is a table of the interpreter.
\<close>

definition hex_fixed :: "nat \<Rightarrow> nat \<Rightarrow> pystr" where
  "hex_fixed n c = map (\<lambda>i. hex_digit (c div 16 ^ i mod 16)) (rev [0..<n])"

definition repr_char :: "(nat \<Rightarrow> bool) \<Rightarrow> nat \<Rightarrow> nat \<Rightarrow> pystr" where
  "repr_char printable quote c =
     (if c = quote \<or> c = 92 then [92, c]
      else if c = 9 then lit [CHR 0x5c, CHR ''t'']
      else if c = 10 then lit [CHR 0x5c, CHR ''n'']
      else if c = 13 then lit [CHR 0x5c, CHR ''r'']
      else if (32 \<le> c \<and> c < 127) \<or> (128 \<le> c \<and> printable c) then [c]
      else if c < 256 then lit [CHR 0x5c, CHR ''x''] @ hex_fixed 2 c
      else if c < 65536 then lit [CHR 0x5c, CHR ''u''] @ hex_fixed 4 c
      else lit [CHR 0x5c, CHR ''U''] @ hex_fixed 8 c)"

definition py_repr :: "(nat \<Rightarrow> bool) \<Rightarrow> pystr \<Rightarrow> pystr" where
  "py_repr printable s =
     (let quote = (if 39 \<in> set s \<and> 34 \<notin> set s then 34 else 39)
      in [quote] @ concat (map (repr_char printable quote) s) @ [quote])"

subsection \<open>The check\<close>

text \<open>\<^verbatim>\<open>SchemaNotReady\<close> carries the message that is shown.\<close>

datatype schema_not_ready = SchemaNotReady pystr

definition head_revision :: "pystr option \<Rightarrow> schema_not_ready + pystr" where
  "head_revision shipped =
     (case shipped of
        None \<Rightarrow> Inl (SchemaNotReady (lit ''this build ships no migrations''))
      | Some head \<Rightarrow> Inr head)"

definition check_revision :: "(nat \<Rightarrow> bool) \<Rightarrow> pystr \<Rightarrow> pystr option \<Rightarrow> schema_not_ready + unit" where
  "check_revision printable expected current =
     (case current of
        None \<Rightarrow> Inl (SchemaNotReady (lit ''the database has no schema. Run 'alembic upgrade head' before starting.''))
      | Some found \<Rightarrow>
          if found \<noteq> expected
          then Inl (SchemaNotReady
                 (lit ''the database is at migration '' @ py_repr printable found @ lit '' but this build expects '' @
                  py_repr printable expected @ lit ''. Run 'alembic upgrade head' before starting.''))
          else Inr ())"

text \<open>
  The whole check. Reading the revision reaches for the database, so it may fail with an error of the
  database library, whose text is given.
\<close>

datatype schema_failure = NotReady schema_not_ready | Unusable pystr

definition verify_schema :: "(nat \<Rightarrow> bool) \<Rightarrow> pystr option \<Rightarrow> pystr + pystr option \<Rightarrow> schema_failure + unit" where
  "verify_schema printable shipped current =
     (case head_revision shipped of
        Inl e \<Rightarrow> Inl (NotReady e)
      | Inr expected \<Rightarrow>
          (case current of
             Inl text \<Rightarrow> Inl (Unusable text)
           | Inr found \<Rightarrow>
               (case check_revision printable expected found of
                  Inl e \<Rightarrow> Inl (NotReady e)
                | Inr _ \<Rightarrow> Inr ())))"

lemma check_revision_Inr: "check_revision printable expected current = Inr () \<longleftrightarrow> current = Some expected"
  by (auto simp: check_revision_def split: option.splits)

lemma verify_schema_Inr:
  "verify_schema printable shipped current = Inr () \<longleftrightarrow> (\<exists>head. shipped = Some head \<and> current = Inr (Some head))"
  by (auto simp: verify_schema_def head_revision_def check_revision_def split: option.splits sum.splits)

lemma py_repr_examples:
  "py_repr printable (lit ''0006'') = lit [CHR 39] @ lit ''0006'' @ lit [CHR 39]"
  "py_repr printable [39] = [34, 39, 34]"
  "py_repr printable [7, 92] = lit [CHR 39, CHR 0x5c, CHR ''x'', CHR ''0'', CHR ''7'', CHR 0x5c, CHR 0x5c, CHR 39]"
  by (simp_all add: py_repr_def repr_char_def hex_fixed_def hex_digit_def lit_def upt_rec)

end
