(* ===== verification/Engine.thy ===== *)
theory Engine
  imports Config Schema
begin

text \<open>
  Which database a process works on, and how: \<^verbatim>\<open>db.py\<close>, the configuration in \<^verbatim>\<open>schema.py\<close> and
  \<^verbatim>\<open>migrations/env.py\<close>. The database library and the migration library are driven by what they are
  configured with, so that configuration is the model; the parser of database URLs is the argument
  \<open>make_url\<close>, which gives nothing for a text that is no URL.
\<close>

subsection \<open>The engine\<close>

record parsed_url =
  url_backend :: pystr
  url_database :: "pystr option"

text \<open>\<open>en_pragma\<close> tells whether foreign keys are switched on for every connection that is opened.\<close>

record engine =
  en_url :: pystr
  en_any_thread :: bool
  en_single_connection :: bool
  en_pragma :: bool

definition sqlite :: pystr where "sqlite = lit ''sqlite''"

definition in_memory :: "pystr option \<Rightarrow> bool" where
  "in_memory name \<longleftrightarrow> name \<in> {None, Some [], Some (lit '':memory:'')}"

definition create_engine_from_url :: "(pystr \<Rightarrow> parsed_url option) \<Rightarrow> pystr \<Rightarrow> engine option" where
  "create_engine_from_url make_url url =
     (case make_url url of
        None \<Rightarrow> None
      | Some u \<Rightarrow>
          if url_backend u \<noteq> sqlite
          then Some \<lparr>en_url = url, en_any_thread = False, en_single_connection = False, en_pragma = False\<rparr>
          else Some \<lparr>en_url = url, en_any_thread = True, en_single_connection = in_memory (url_database u), en_pragma = True\<rparr>)"

text \<open>SQLite enforces foreign keys on every connection, and a database in memory is never opened twice.\<close>

lemma sqlite_engine:
  assumes "create_engine_from_url make_url url = Some e" "make_url url = Some u" "url_backend u = sqlite"
  shows "en_pragma e \<and> (in_memory (url_database u) \<longrightarrow> en_single_connection e)"
  using assms by (auto simp: create_engine_from_url_def)

subsection \<open>Migrating\<close>

text \<open>\<open>loaded\<close> is the database URL of the settings, \<open>None\<close> when they did not validate.\<close>

definition truthy :: "pystr option \<Rightarrow> bool" where
  "truthy v \<longleftrightarrow> v \<noteq> None \<and> v \<noteq> Some []"

definition migration_database_url :: "pystr option \<Rightarrow> pystr option \<Rightarrow> pystr option \<Rightarrow> pystr option" where
  "migration_database_url override from_caller loaded =
     (if truthy override then override else if truthy from_caller then from_caller else loaded)"

text \<open>
  What \<^verbatim>\<open>alembic_config\<close> hands to the environment: the scripts shipped in the package, and the URL its caller
  named, if any.
\<close>

record alembic_settings =
  al_script_location :: pystr
  al_database_url :: "pystr option"

definition alembic_config :: "pystr \<Rightarrow> pystr option \<Rightarrow> alembic_settings" where
  "alembic_config package database_url =
     \<lparr>al_script_location = package @ lit ''/migrations'', al_database_url = database_url\<rparr>"

text \<open>How the migration library is configured for one run: with a connection, or to write the statements out.\<close>

record migration_run =
  mr_url :: pystr
  mr_engine :: "engine option"
  mr_literal_binds :: bool
  mr_compare_type :: bool
  mr_render_as_batch :: bool

definition run_migrations_offline :: "pystr option \<Rightarrow> migration_run option" where
  "run_migrations_offline database_url =
     map_option (\<lambda>url. \<lparr>mr_url = url, mr_engine = None, mr_literal_binds = True, mr_compare_type = True,
       mr_render_as_batch = False\<rparr>) database_url"

definition run_on_connection :: "(pystr \<Rightarrow> parsed_url option) \<Rightarrow> engine \<Rightarrow> migration_run" where
  "run_on_connection make_url e =
     \<lparr>mr_url = en_url e, mr_engine = Some e, mr_literal_binds = False, mr_compare_type = True,
      mr_render_as_batch = (map_option url_backend (make_url (en_url e)) = Some sqlite)\<rparr>"

definition run_migrations_online :: "(pystr \<Rightarrow> parsed_url option) \<Rightarrow> pystr option \<Rightarrow> migration_run option" where
  "run_migrations_online make_url database_url =
     (case database_url of
        None \<Rightarrow> None
      | Some url \<Rightarrow> map_option (run_on_connection make_url) (create_engine_from_url make_url url))"

definition migration_environment ::
  "bool \<Rightarrow> (pystr \<Rightarrow> parsed_url option) \<Rightarrow> pystr option \<Rightarrow> pystr option \<Rightarrow> pystr option \<Rightarrow> migration_run option" where
  "migration_environment offline make_url override from_caller loaded =
     (let url = migration_database_url override from_caller loaded
      in if offline then run_migrations_offline url else run_migrations_online make_url url)"

text \<open>
  The URL on the command line wins over the one a caller configured, and both over the settings; a run on a
  connection alters tables in place unless the database is SQLite, where it copies them with foreign keys
  enforced.
\<close>

lemma migration_target:
  assumes "migration_environment offline make_url override (al_database_url (alembic_config package given)) loaded = Some run"
  shows "Some (mr_url run) = (if truthy override then override else if truthy given then given else loaded) \<and>
    (offline \<longleftrightarrow> mr_engine run = None) \<and>
    (mr_render_as_batch run \<longleftrightarrow> (\<exists>e. mr_engine run = Some e \<and> en_pragma e))"
  using assms
  by (auto simp: migration_environment_def migration_database_url_def alembic_config_def run_migrations_offline_def
      run_migrations_online_def run_on_connection_def create_engine_from_url_def Let_def
      split: if_splits option.splits)

end
