(* ===== verification/Errors.thy ===== *)
theory Errors
  imports Ingestion
begin

text \<open>
  \<^verbatim>\<open>errors.py\<close> and \<^verbatim>\<open>api/validation.py\<close>: the one envelope every failure is answered in, the exceptions
  that reach it, and the checks on request values the routes share. An answer is its status, code,
  details and headers; the human-readable sentence beside them is not modelled.
\<close>

subsection \<open>The envelope\<close>

text \<open>The values that occur in the details of an answer.\<close>

datatype detail =
    DText pystr
  | DCount int
  | DNull
  | DTexts "pystr list"
  | DIssues "(pystr option \<times> pystr) list"

type_synonym detail_fields = "(pystr \<times> detail) list"

record error_answer =
  ans_status :: int
  ans_code :: pystr
  ans_details :: "detail_fields option"
  ans_headers :: "(pystr \<times> pystr) list"

definition error_response ::
  "int \<Rightarrow> pystr \<Rightarrow> detail_fields option \<Rightarrow> (pystr \<times> pystr) list option \<Rightarrow> error_answer" where
  "error_response status code details headers =
     \<lparr>ans_status = status, ans_code = code, ans_details = details,
      ans_headers = (case headers of None \<Rightarrow> [] | Some hs \<Rightarrow> hs)\<rparr>"

text \<open>
  An \<^verbatim>\<open>ApiError\<close> with what its class and its instance fix. A subclass that is rendered with headers
  worked out for the request carries them here as well.
\<close>

record api_error =
  err_status :: int
  err_code :: pystr
  err_headers :: "(pystr \<times> pystr) list option"
  err_details :: "detail_fields option"

definition base_api_error :: api_error where
  "base_api_error = \<lparr>err_status = 500, err_code = lit ''internal_error'', err_headers = None, err_details = None\<rparr>"

definition as_response :: "api_error \<Rightarrow> error_answer" where
  "as_response e = error_response (err_status e) (err_code e) (err_details e) (err_headers e)"

abbreviation api_error_of :: "int \<Rightarrow> pystr \<Rightarrow> detail_fields option \<Rightarrow> api_error" where
  "api_error_of status code details \<equiv> base_api_error\<lparr>err_status := status, err_code := code, err_details := details\<rparr>"

subsection \<open>What can be raised\<close>

text \<open>One step of the location of a value a request failed to validate at.\<close>

datatype location = Key pystr | Index int

record validation_issue =
  vi_loc :: "location list"
  vi_msg :: pystr

datatype raised =
    Api api_error
  | Unacceptable rejection
  | StorageFailure
  | HttpFailure int
  | InvalidRequest "validation_issue list"
  | Unexpected

text \<open>The exceptions of the database library share a base class; the others have no handler of their own.\<close>

fun is_storage_exn :: "py_exn \<Rightarrow> bool" where
  "is_storage_exn NoResultFound = True"
| "is_storage_exn MultipleResultsFound = True"
| "is_storage_exn IntegrityError = True"
| "is_storage_exn DatabaseError = True"
| "is_storage_exn _ = False"

definition raised_exn :: "py_exn \<Rightarrow> raised" where
  "raised_exn e = (if is_storage_exn e then StorageFailure else Unexpected)"

subsection \<open>Status phrases\<close>

text \<open>The phrases of \<^verbatim>\<open>http.HTTPStatus\<close> (Python 3.11).\<close>

definition status_phrases :: "(int \<times> string) list" where
  "status_phrases =
     [(100, ''Continue''), (101, ''Switching Protocols''), (102, ''Processing''), (103, ''Early Hints''),
      (200, ''OK''), (201, ''Created''), (202, ''Accepted''), (203, ''Non-Authoritative Information''),
      (204, ''No Content''), (205, ''Reset Content''), (206, ''Partial Content''), (207, ''Multi-Status''),
      (208, ''Already Reported''), (226, ''IM Used''), (300, ''Multiple Choices''), (301, ''Moved Permanently''),
      (302, ''Found''), (303, ''See Other''), (304, ''Not Modified''), (305, ''Use Proxy''),
      (307, ''Temporary Redirect''), (308, ''Permanent Redirect''), (400, ''Bad Request''), (401, ''Unauthorized''),
      (402, ''Payment Required''), (403, ''Forbidden''), (404, ''Not Found''), (405, ''Method Not Allowed''),
      (406, ''Not Acceptable''), (407, ''Proxy Authentication Required''), (408, ''Request Timeout''),
      (409, ''Conflict''), (410, ''Gone''), (411, ''Length Required''), (412, ''Precondition Failed''),
      (413, ''Request Entity Too Large''), (414, ''Request-URI Too Long''), (415, ''Unsupported Media Type''),
      (416, ''Requested Range Not Satisfiable''), (417, ''Expectation Failed''), (418, ''I'' @ [CHR 0x27] @ ''m a Teapot''),
      (421, ''Misdirected Request''), (422, ''Unprocessable Entity''), (423, ''Locked''), (424, ''Failed Dependency''),
      (425, ''Too Early''), (426, ''Upgrade Required''), (428, ''Precondition Required''), (429, ''Too Many Requests''),
      (431, ''Request Header Fields Too Large''), (451, ''Unavailable For Legal Reasons''),
      (500, ''Internal Server Error''), (501, ''Not Implemented''), (502, ''Bad Gateway''),
      (503, ''Service Unavailable''), (504, ''Gateway Timeout''), (505, ''HTTP Version Not Supported''),
      (506, ''Variant Also Negotiates''), (507, ''Insufficient Storage''), (508, ''Loop Detected''),
      (510, ''Not Extended''), (511, ''Network Authentication Required'')]"

text \<open>\<^verbatim>\<open>phrase.lower().replace("-", " ").replace(" ", "_")\<close>\<close>

definition code_for_status :: "int \<Rightarrow> pystr" where
  "code_for_status status =
     (case map_of status_phrases status of
        None \<Rightarrow> lit ''http_error''
      | Some phrase \<Rightarrow>
          map (\<lambda>c. if c = 32 then 95 else c) (map (\<lambda>c. if c = 45 then 32 else c) (py_lower (lit phrase))))"

subsection \<open>The handlers\<close>

fun rejection_details :: "rejection \<Rightarrow> detail_fields option" where
  "rejection_details (TooManyFields l r) = Some [(lit ''limit'', DCount (int l)), (lit ''received'', DCount (int r))]"
| "rejection_details EmptyFieldName = None"
| "rejection_details (FieldNameTooLong l r) = Some [(lit ''limit'', DCount (int l)), (lit ''received'', DCount (int r))]"
| "rejection_details ControlInFieldName = None"
| "rejection_details (FieldValueTooLong n l r) =
     Some [(lit ''field'', DText n), (lit ''limit'', DCount (int l)), (lit ''received'', DCount (int r))]"
| "rejection_details (NulInFieldValue n) = Some [(lit ''field'', DText n)]"
| "rejection_details EmptySubmission = None"

fun location_text :: "location \<Rightarrow> pystr" where
  "location_text (Key k) = k"
| "location_text (Index i) = str_of_int i"

definition issue_field :: "validation_issue \<Rightarrow> pystr option" where
  "issue_field i =
     (let path = join_with [46] (map location_text (drop 1 (vi_loc i)))
      in if path = [] then None else Some path)"

definition handle_submission_rejected :: "rejection \<Rightarrow> error_answer" where
  "handle_submission_rejected r = error_response 422 (rejection_code r) (rejection_details r) None"

definition handle_storage_error :: error_answer where
  "handle_storage_error = error_response 503 (lit ''storage_unavailable'') None None"

definition handle_http_exception :: "int \<Rightarrow> error_answer" where
  "handle_http_exception status = error_response status (code_for_status status) None None"

definition handle_request_validation_error :: "validation_issue list \<Rightarrow> error_answer" where
  "handle_request_validation_error issues =
     (let listed = map (\<lambda>i. (issue_field i, vi_msg i)) issues
      in error_response 422 (lit ''invalid_request'')
           (if listed = [] then None else Some [(lit ''fields'', DIssues listed)]) None)"

definition handle_unexpected_error :: error_answer where
  "handle_unexpected_error = error_response 500 (lit ''internal_error'') None None"

fun answer :: "raised \<Rightarrow> error_answer" where
  "answer (Api e) = as_response e"
| "answer (Unacceptable r) = handle_submission_rejected r"
| "answer StorageFailure = handle_storage_error"
| "answer (HttpFailure status) = handle_http_exception status"
| "answer (InvalidRequest issues) = handle_request_validation_error issues"
| "answer Unexpected = handle_unexpected_error"

subsection \<open>Handlers of requests\<close>

text \<open>
  A handler reads and changes the database and returns a value or raises. What it committed before
  it raised stays.
\<close>

type_synonym ('d, 'a) handler = "'d \<Rightarrow> (raised + 'a) \<times> 'd"

definition giving :: "'a \<Rightarrow> ('d, 'a) handler" where
  "giving x d = (Inr x, d)"

definition raising :: "raised \<Rightarrow> ('d, 'a) handler" where
  "raising e d = (Inl e, d)"

definition and_then :: "('d, 'a) handler \<Rightarrow> ('a \<Rightarrow> ('d, 'b) handler) \<Rightarrow> ('d, 'b) handler" where
  "and_then h k d = (case h d of (Inl e, d') \<Rightarrow> (Inl e, d') | (Inr x, d') \<Rightarrow> k x d')"

definition guarded :: "bool \<Rightarrow> raised \<Rightarrow> ('d, 'a) handler \<Rightarrow> ('d, 'a) handler" where
  "guarded ok e h = (if ok then h else raising e)"

definition or_raise :: "raised + 'a \<Rightarrow> ('d, 'a) handler" where
  "or_raise r d = (r, d)"

named_theorems handler_simps \<open>running handlers\<close>

lemma handler_basics [handler_simps]:
  "giving x d = (Inr x, d)"
  "raising e d = (Inl e, d)"
  "or_raise r d = (r, d)"
  "guarded ok e h d = (if ok then h d else (Inl e, d))"
  by (simp_all add: giving_def raising_def or_raise_def guarded_def)

lemma and_then_simps [handler_simps]:
  "h d = (Inl e, d') \<Longrightarrow> and_then h k d = (Inl e, d')"
  "h d = (Inr x, d') \<Longrightarrow> and_then h k d = k x d'"
  by (simp_all add: and_then_def)

text \<open>
  \<open>steps R h\<close>: whatever the handler answers, the database it leaves is related to the one it found;
  \<open>fails R h\<close>: it is when the handler raises. Both carry over from the parts of a handler to the whole.
\<close>

definition steps :: "('d \<Rightarrow> 'd \<Rightarrow> bool) \<Rightarrow> ('d, 'a) handler \<Rightarrow> bool" where
  "steps R h \<longleftrightarrow> (\<forall>d. R d (snd (h d)))"

definition fails :: "('d \<Rightarrow> 'd \<Rightarrow> bool) \<Rightarrow> ('d, 'a) handler \<Rightarrow> bool" where
  "fails R h \<longleftrightarrow> (\<forall>d e d'. h d = (Inl e, d') \<longrightarrow> R d d')"

named_theorems handler_intros \<open>what handlers do to the database\<close>

lemma stepsD: "steps R h \<Longrightarrow> h d = (r, d') \<Longrightarrow> R d d'"
  unfolding steps_def by (metis snd_conv)

lemma steps_basics [handler_intros]:
  "reflp R \<Longrightarrow> steps R (giving x)"
  "reflp R \<Longrightarrow> steps R (raising e)"
  "reflp R \<Longrightarrow> steps R (or_raise r)"
  "reflp R \<Longrightarrow> steps R h \<Longrightarrow> steps R (guarded ok e h)"
  by (auto simp: steps_def giving_def raising_def or_raise_def guarded_def reflp_def)

lemma fails_basics [handler_intros]:
  "reflp R \<Longrightarrow> fails R (or_raise r)"
  "reflp R \<Longrightarrow> fails R h \<Longrightarrow> fails R (guarded ok e h)"
  by (auto simp: fails_def or_raise_def guarded_def raising_def reflp_def)

lemma steps_and_then [handler_intros]:
  assumes "transp R" "steps R h" "\<And>x. steps R (k x)"
  shows "steps R (and_then h k)"
  unfolding steps_def and_then_def
  using assms(2,3) transpD [OF assms(1)] by (auto simp: steps_def split: prod.splits sum.splits) (metis snd_conv)+

lemma fails_and_then [handler_intros]:
  assumes "transp R" "steps R h" "\<And>x. fails R (k x)"
  shows "fails R (and_then h k)"
  unfolding fails_def and_then_def
proof (intro allI impI)
  fix d e d'
  assume a: "(case h d of (Inl e, d') \<Rightarrow> (Inl e, d') | (Inr x, d') \<Rightarrow> k x d') = (Inl e, d')"
  obtain r d1 where h: "h d = (r, d1)" by (cases "h d")
  have "R d d1" by (rule stepsD [OF assms(2) h])
  then show "R d d'"
    using a h assms(3) transpD [OF assms(1)] by (cases r) (auto simp: fails_def)
qed

lemma and_then_Inr:
  assumes "and_then h k d = (Inr y, d')"
  obtains x d1 where "h d = (Inr x, d1)" "k x d1 = (Inr y, d')"
  using assms by (auto simp: and_then_def split: prod.splits sum.splits)

lemma guarded_Inr: "guarded ok e h d = (Inr y, d') \<Longrightarrow> ok \<and> h d = (Inr y, d')"
  by (simp add: guarded_def raising_def split: if_splits)

subsection \<open>Checks the routes share\<close>

definition contains_nul :: "pystr \<Rightarrow> bool" where
  "contains_nul v \<longleftrightarrow> 0 \<in> set v"

text \<open>\<^verbatim>\<open>NoNul\<close>: the value unchanged, or a failed validation.\<close>

definition refuse_nul :: "pystr option \<Rightarrow> py_exn + pystr option" where
  "refuse_nul v = (case v of None \<Rightarrow> Inr None | Some s \<Rightarrow> if contains_nul s then Inl ValueError else Inr (Some s))"

end
