(* ===== verification/Middleware.thy ===== *)
theory Middleware
  imports Errors
begin

text \<open>
  \<^verbatim>\<open>middleware.py\<close>: the cap on request bodies in front of the application. The application is anything
  that receives request messages and sends response messages in some order and comes to a result, which is
  the datatype \<open>app\<close>; the body of a response and the result are of any type; the middleware stands between it and the server. Then that no application reads more than the
  cap, that an overrun is answered with a 413, and that nothing else changes.
\<close>

subsection \<open>Applications\<close>

text \<open>A piece of the body comes with whether more of it follows.\<close>

datatype request_message = RequestBody bytes bool | Disconnected

datatype 'b response_message = ResponseStart int | ResponseBody 'b | ResponseAnswer error_answer

text \<open>What a receive gives the application: a message, or the exception the cap raises in it.\<close>

datatype received = Message request_message | BodyTooLarge

datatype ('b, 'r) app =
    Receive "received \<Rightarrow> ('b, 'r) app"
  | Send "'b response_message" "('b, 'r) app"
  | Finished 'r

subsection \<open>The cap\<close>

definition request_body_too_large :: "int \<Rightarrow> api_error" where
  "request_body_too_large limit =
     api_error_of 413 (lit ''request_body_too_large'') (Some [(lit ''limit_bytes'', DCount limit)])"

text \<open>An answer as the two messages it is sent in.\<close>

definition too_large_answer :: "int \<Rightarrow> 'b response_message list" where
  "too_large_answer max_bytes =
     [ResponseStart 413, ResponseAnswer (as_response (request_body_too_large max_bytes))]"

record scope =
  scope_type :: pystr
  scope_headers :: "(pystr \<times> pystr) list"

text \<open>
  \<^verbatim>\<open>int(value)\<close> on bytes: blanks around it, a sign, digits with single underscores between them, and no more
  digits than the interpreter converts.
\<close>

definition byte_blank :: "nat \<Rightarrow> bool" where
  "byte_blank c \<longleftrightarrow> c = 32 \<or> (9 \<le> c \<and> c \<le> 13)"

definition parse_digits :: "pystr \<Rightarrow> int option" where
  "parse_digits s =
     (if list_all (\<lambda>g. g \<noteq> [] \<and> list_all is_digit g) (split_on 95 s) \<and> length (concat (split_on 95 s)) \<le> 4300
      then Some (foldl (\<lambda>n c. n * 10 + int (c - 48)) 0 (concat (split_on 95 s))) else None)"

definition parse_int :: "pystr \<Rightarrow> int option" where
  "parse_int s =
     (let t = rev (dropWhile byte_blank (rev (dropWhile byte_blank s)))
      in case t of
           [] \<Rightarrow> None
         | c # ds \<Rightarrow> if c = 45 then map_option uminus (parse_digits ds) else if c = 43 then parse_digits ds else parse_digits t)"

fun declared_content_length :: "(pystr \<times> pystr) list \<Rightarrow> int option" where
  "declared_content_length [] = None"
| "declared_content_length ((name, v) # headers) =
     (if name = lit ''content-length'' then parse_int v else declared_content_length headers)"

text \<open>The variables of one call, shared by its two closures.\<close>

record cap_state =
  cap_received :: int
  cap_overflowed :: bool
  cap_replaced :: bool

text \<open>What the middleware lets through in each direction, and what the application came to if it ran.\<close>

record ('b, 'r) exchange =
  ex_read :: "request_message list"
  ex_sent :: "'b response_message list"
  ex_result :: "'r option"

definition next_message :: "request_message list \<Rightarrow> request_message \<times> request_message list" where
  "next_message ms = (case ms of [] \<Rightarrow> (Disconnected, []) | m # rest \<Rightarrow> (m, rest))"

definition limited_receive :: "int \<Rightarrow> request_message \<Rightarrow> cap_state \<Rightarrow> received \<times> cap_state" where
  "limited_receive max_bytes m st =
     (case m of
        Disconnected \<Rightarrow> (Message m, st)
      | RequestBody b more_body \<Rightarrow>
          (let st = st\<lparr>cap_received := cap_received st + int (length b)\<rparr>
           in if max_bytes < cap_received st then (BodyTooLarge, st\<lparr>cap_overflowed := True\<rparr>) else (Message m, st)))"

definition guarded_send :: "int \<Rightarrow> 'b response_message \<Rightarrow> cap_state \<Rightarrow> 'b response_message list \<times> cap_state" where
  "guarded_send max_bytes m st =
     (if cap_replaced st then ([], st)
      else (case m of
              ResponseStart status \<Rightarrow>
                if cap_overflowed st \<and> status \<noteq> 413 then (too_large_answer max_bytes, st\<lparr>cap_replaced := True\<rparr>) else ([m], st)
            | _ \<Rightarrow> ([m], st)))"

primrec serve_limited :: "('b, 'r) app \<Rightarrow> int \<Rightarrow> cap_state \<Rightarrow> request_message list \<Rightarrow> ('b, 'r) exchange" where
  "serve_limited (Receive k) = (\<lambda>max_bytes st ms.
     let (m, rest) = next_message ms;
         (r, st') = limited_receive max_bytes m st;
         x = serve_limited (k r) max_bytes st' rest
     in case r of Message m \<Rightarrow> x\<lparr>ex_read := m # ex_read x\<rparr> | BodyTooLarge \<Rightarrow> x)"
| "serve_limited (Send m app') = (\<lambda>max_bytes st ms.
     let (out, st') = guarded_send max_bytes m st; x = serve_limited app' max_bytes st' ms
     in x\<lparr>ex_sent := out @ ex_sent x\<rparr>)"
| "serve_limited (Finished r) = (\<lambda>max_bytes st ms. \<lparr>ex_read = [], ex_sent = [], ex_result = Some r\<rparr>)"

text \<open>The application without the middleware.\<close>

primrec serve :: "('b, 'r) app \<Rightarrow> request_message list \<Rightarrow> ('b, 'r) exchange" where
  "serve (Receive k) = (\<lambda>ms.
     let (m, rest) = next_message ms; x = serve (k (Message m)) rest in x\<lparr>ex_read := m # ex_read x\<rparr>)"
| "serve (Send m app') = (\<lambda>ms. let x = serve app' ms in x\<lparr>ex_sent := m # ex_sent x\<rparr>)"
| "serve (Finished r) = (\<lambda>ms. \<lparr>ex_read = [], ex_sent = [], ex_result = Some r\<rparr>)"

definition body_size_limit :: "('b, 'r) app \<Rightarrow> int \<Rightarrow> scope \<Rightarrow> request_message list \<Rightarrow> ('b, 'r) exchange" where
  "body_size_limit app max_bytes sc ms =
     (if scope_type sc \<noteq> lit ''http'' then serve app ms
      else (case declared_content_length (scope_headers sc) of
              Some declared \<Rightarrow>
                if max_bytes < declared then \<lparr>ex_read = [], ex_sent = too_large_answer max_bytes, ex_result = None\<rparr>
                else serve_limited app max_bytes \<lparr>cap_received = 0, cap_overflowed = False, cap_replaced = False\<rparr> ms
            | None \<Rightarrow> serve_limited app max_bytes \<lparr>cap_received = 0, cap_overflowed = False, cap_replaced = False\<rparr> ms))"

subsection \<open>Facts\<close>

fun body_length :: "request_message list \<Rightarrow> int" where
  "body_length [] = 0"
| "body_length (RequestBody b more_body # ms) = int (length b) + body_length ms"
| "body_length (Disconnected # ms) = body_length ms"

lemma body_length_nonneg: "0 \<le> body_length ms"
  by (induction ms rule: body_length.induct) simp_all

lemma body_length_Cons: "body_length (m # ms) = (case m of RequestBody b more_body \<Rightarrow> int (length b) | Disconnected \<Rightarrow> 0) + body_length ms"
  by (cases m) simp_all

text \<open>What the application reads, from any state on, stays within what is left of the cap.\<close>

lemma read_bounded: "body_length (ex_read (serve_limited app max_bytes st ms)) \<le> max 0 (max_bytes - cap_received st)"
proof (induction app arbitrary: st ms)
  case (Receive k)
  obtain m rest where m: "next_message ms = (m, rest)" by (cases "next_message ms")
  obtain r st' where r: "limited_receive max_bytes m st = (r, st')" by (cases "limited_receive max_bytes m st")
  have ih: "body_length (ex_read (serve_limited (k r) max_bytes st' rest)) \<le> max 0 (max_bytes - cap_received st')"
    by (rule Receive.IH) simp
  show ?case
  proof (cases r)
    case (Message m')
    with ih m r show ?thesis by (auto simp: limited_receive_def Let_def body_length_Cons split: request_message.splits if_splits)
  next
    case BodyTooLarge
    with ih m r show ?thesis by (auto simp: limited_receive_def Let_def split: request_message.splits if_splits)
  qed
next
  case (Send m app')
  obtain out st' where g: "guarded_send max_bytes m st = (out, st')" by (cases "guarded_send max_bytes m st")
  then have "cap_received st' = cap_received st" by (auto simp: guarded_send_def split: if_splits response_message.splits)
  with Send [of st' ms] g show ?case by (simp add: Let_def)
qed simp

definition statuses :: "'b response_message list \<Rightarrow> int list" where
  "statuses ms = List.map_filter (\<lambda>m. case m of ResponseStart s \<Rightarrow> Some s | _ \<Rightarrow> None) ms"

text \<open>The application reads past the cap before it has started to answer.\<close>

primrec overruns :: "('b, 'r) app \<Rightarrow> int \<Rightarrow> int \<Rightarrow> request_message list \<Rightarrow> bool" where
  "overruns (Receive k) = (\<lambda>max_bytes n ms.
     let (m, rest) = next_message ms
     in case m of
          Disconnected \<Rightarrow> overruns (k (Message m)) max_bytes n rest
        | RequestBody b more_body \<Rightarrow> max_bytes < n + int (length b) \<or> overruns (k (Message m)) max_bytes (n + int (length b)) rest)"
| "overruns (Send m app') = (\<lambda>max_bytes n ms.
     case m of ResponseStart status \<Rightarrow> False | _ \<Rightarrow> overruns app' max_bytes n ms)"
| "overruns (Finished r) = (\<lambda>max_bytes n ms. False)"

lemma statuses_append [simp]: "statuses (xs @ ys) = statuses xs @ statuses ys"
  by (induction xs) (auto simp: statuses_def split: option.split response_message.split)

text \<open>Once the cap was crossed, only a 413 can be started.\<close>

lemma overflow_keeps:
  "guarded_send max_bytes m st = (out, st') \<Longrightarrow> cap_overflowed st \<Longrightarrow> cap_overflowed st' \<and> set (statuses out) \<subseteq> {413}"
  by (auto simp: guarded_send_def too_large_answer_def statuses_def split: if_splits response_message.splits)

lemma overflow_413: "cap_overflowed st \<Longrightarrow> set (statuses (ex_sent (serve_limited app max_bytes st ms))) \<subseteq> {413}"
proof (induction app arbitrary: st ms)
  case (Receive k)
  obtain m rest where m: "next_message ms = (m, rest)" by (cases "next_message ms")
  obtain r st' where r: "limited_receive max_bytes m st = (r, st')" by (cases "limited_receive max_bytes m st")
  have "cap_overflowed st'" using r Receive.prems by (auto simp: limited_receive_def Let_def split: request_message.splits if_splits)
  with Receive.IH [of "k r" st' rest] m r show ?case by (cases r) (auto simp: Let_def)
next
  case (Send m app')
  obtain out st' where g: "guarded_send max_bytes m st = (out, st')" by (cases "guarded_send max_bytes m st")
  from overflow_keeps [OF g Send.prems] Send.IH [of st' ms] g show ?case by (simp add: Let_def)
qed (simp add: statuses_def)

lemma overrun_413:
  "overruns app max_bytes (cap_received st) ms \<Longrightarrow> \<not> cap_replaced st \<Longrightarrow> cap_received st \<le> max_bytes \<Longrightarrow>
   set (statuses (ex_sent (serve_limited app max_bytes st ms))) \<subseteq> {413}"
proof (induction app arbitrary: st ms)
  case (Receive k)
  obtain m rest where m: "next_message ms = (m, rest)" by (cases "next_message ms")
  show ?case
  proof (cases m)
    case Disconnected
    with Receive.prems m have "overruns (k (Message m)) max_bytes (cap_received st) rest" by simp
    from Receive.IH [OF rangeI this Receive.prems(2,3)] m Disconnected show ?thesis
      by (simp add: limited_receive_def Let_def)
  next
    case (RequestBody b more_body)
    let ?st = "st\<lparr>cap_received := cap_received st + int (length b)\<rparr>"
    show ?thesis
    proof (cases "max_bytes < cap_received ?st")
      case True
      then show ?thesis using overflow_413 [of "?st\<lparr>cap_overflowed := True\<rparr>" "k BodyTooLarge" max_bytes rest] m RequestBody
        by (simp add: limited_receive_def Let_def)
    next
      case False
      with Receive.prems m RequestBody have "overruns (k (Message m)) max_bytes (cap_received ?st) rest" by simp
      from Receive.IH [OF rangeI this] Receive.prems(2) False m RequestBody show ?thesis
        by (simp add: limited_receive_def Let_def)
    qed
  qed
next
  case (Send m app')
  then show ?case by (cases m) (auto simp: guarded_send_def statuses_def Let_def)
qed simp

text \<open>A body within the cap goes through untouched.\<close>

lemma serve_within:
  "cap_received st + body_length ms \<le> max_bytes \<Longrightarrow> \<not> cap_overflowed st \<Longrightarrow> \<not> cap_replaced st \<Longrightarrow>
   serve_limited app max_bytes st ms = serve app ms"
proof (induction app arbitrary: st ms)
  case (Receive k)
  show ?case
  proof (cases ms)
    case Nil
    with Receive.IH [OF rangeI Receive.prems(1) Receive.prems(2,3), of "Message Disconnected"] show ?thesis
      by (simp add: next_message_def limited_receive_def Let_def)
  next
    case (Cons m rest)
    show ?thesis
    proof (cases m)
      case Disconnected
      with Cons Receive.prems have "cap_received st + body_length rest \<le> max_bytes" by simp
      from Receive.IH [OF rangeI this Receive.prems(2,3), of "Message m"] show ?thesis
        by (simp add: Cons Disconnected next_message_def limited_receive_def Let_def)
    next
      case (RequestBody b more_body)
      let ?st = "st\<lparr>cap_received := cap_received st + int (length b)\<rparr>"
      have b: "cap_received ?st + body_length rest \<le> max_bytes" "\<not> max_bytes < cap_received ?st"
        using Receive.prems(1) body_length_nonneg [of rest] by (simp_all add: Cons RequestBody)
      from Receive.IH [OF rangeI b(1), of "Message m"] Receive.prems(2,3) b(2) show ?thesis
        by (simp add: Cons RequestBody next_message_def limited_receive_def Let_def)
    qed
  qed
next
  case (Send m app')
  then show ?case by (cases m) (simp_all add: guarded_send_def)
qed simp

subsection \<open>Properties\<close>

text \<open>
  C38. Whatever the application does and however the body arrives, it never reads more than the cap. A
  request that declares more is answered with a 413 before it is read; one that turns out longer before
  the application has begun to answer can be answered with a 413 only; and a request within the cap is
  served exactly as it would be without the middleware.
\<close>
theorem body_cap_holds:
  assumes "scope_type sc = lit ''http''" and "0 \<le> max_bytes"
    and "x = body_size_limit app max_bytes sc ms" and "declared = declared_content_length (scope_headers sc)"
  shows "body_length (ex_read x) \<le> max_bytes \<and>
    (if \<exists>n. declared = Some n \<and> max_bytes < n then x = \<lparr>ex_read = [], ex_sent = too_large_answer max_bytes, ex_result = None\<rparr>
     else (overruns app max_bytes 0 ms \<longrightarrow> set (statuses (ex_sent x)) \<subseteq> {413}) \<and>
       (body_length ms \<le> max_bytes \<longrightarrow> x = serve app ms))"
proof (cases "\<exists>n. declared = Some n \<and> max_bytes < n")
  case True
  then show ?thesis using assms by (auto simp: body_size_limit_def)
next
  case False
  let ?st = "\<lparr>cap_received = 0, cap_overflowed = False, cap_replaced = False\<rparr>"
  have x: "x = serve_limited app max_bytes ?st ms"
    using False assms by (auto simp: body_size_limit_def split: option.splits)
  have "body_length (ex_read x) \<le> max_bytes" using read_bounded [of app max_bytes ?st ms] assms(2) by (simp add: x)
  moreover have "set (statuses (ex_sent x)) \<subseteq> {413}" if "overruns app max_bytes 0 ms"
    unfolding x using that assms(2) by (intro overrun_413) simp_all
  moreover have "x = serve app ms" if "body_length ms \<le> max_bytes"
    unfolding x using that by (intro serve_within) simp_all
  ultimately show ?thesis unfolding if_not_P [OF False] by blast
qed

text \<open>
  An application that reads a body of two messages and answers 200, or 400 when reading raised, as the web
  framework does for a JSON route.
\<close>

definition json_route :: "(nat, unit) app" where
  "json_route = Receive (\<lambda>a. Receive (\<lambda>b. if a = BodyTooLarge \<or> b = BodyTooLarge
     then Send (ResponseStart 400) (Send (ResponseBody 1) (Finished ())) else Send (ResponseStart 200) (Finished ())))"

lemma body_cap_holds_witness:
  "body_size_limit json_route 3 \<lparr>scope_type = lit ''http'', scope_headers = []\<rparr> [RequestBody [1, 2] True, RequestBody [3, 4] False] =
     \<lparr>ex_read = [RequestBody [1, 2] True], ex_sent = too_large_answer 3, ex_result = Some ()\<rparr> \<and>
   body_size_limit json_route 3 \<lparr>scope_type = lit ''http'', scope_headers = [(lit ''content-length'', lit '' 1_0 '')]\<rparr> [] =
     \<lparr>ex_read = [], ex_sent = too_large_answer 3, ex_result = None\<rparr> \<and>
   body_size_limit json_route 3 \<lparr>scope_type = lit ''http'', scope_headers = []\<rparr> [RequestBody [1, 2] True] = serve json_route [RequestBody [1, 2] True]"
proof (intro conjI)
  show "body_size_limit json_route 3 \<lparr>scope_type = lit ''http'', scope_headers = []\<rparr> [RequestBody [1, 2] True, RequestBody [3, 4] False] =
     \<lparr>ex_read = [RequestBody [1, 2] True], ex_sent = too_large_answer 3, ex_result = Some ()\<rparr>"
    by (simp add: body_size_limit_def json_route_def next_message_def limited_receive_def guarded_send_def Let_def)
  let ?sc = "\<lparr>scope_type = lit ''http'', scope_headers = [(lit ''content-length'', lit '' 1_0 '')]\<rparr>"
  have "declared_content_length (scope_headers ?sc) = Some 10" by code_simp
  then show "body_size_limit json_route 3 ?sc [] = \<lparr>ex_read = [], ex_sent = too_large_answer 3, ex_result = None\<rparr>"
    using body_cap_holds [of ?sc 3 _ json_route "[]", OF _ _ refl refl] by simp
  show "body_size_limit json_route 3 \<lparr>scope_type = lit ''http'', scope_headers = []\<rparr> [RequestBody [1, 2] True] = serve json_route [RequestBody [1, 2] True]"
    using body_cap_holds [of "\<lparr>scope_type = lit ''http'', scope_headers = []\<rparr>" 3 _ json_route "[RequestBody [1, 2] True]", OF _ _ refl refl] by simp
qed

end
