(* ===== verification/CounterStore.thy ===== *)
theory CounterStore
  imports Models
begin

text \<open>
  \<^verbatim>\<open>storage.py\<close>, the rate limit counters: spending one unit as one upsert, and sweeping the
  counters of windows that ended. Then that a budget cannot be overspent by any interleaving of
  requests and sweeps.
\<close>

subsection \<open>The operations\<close>

datatype counter_error = UnsupportedRateLimitBackend pystr | CounterRaised py_exn

text \<open>Which dialects have the upsert.\<close>

definition upsert_for :: "pystr \<Rightarrow> counter_error + unit" where
  "upsert_for dialect =
     (if dialect = lit ''postgresql'' then Inr ()
      else if dialect = lit ''sqlite'' then Inr ()
      else Inl (UnsupportedRateLimitBackend dialect))"

definition increment :: "rate_counter \<Rightarrow> rate_counter" where
  "increment c = c\<lparr>rc_attempts := rc_attempts c + 1\<rparr>"

text \<open>\<^verbatim>\<open>INSERT ... ON CONFLICT DO UPDATE SET attempts = attempts + 1 RETURNING attempts\<close>.\<close>

definition upsert_counter :: "limiter \<times> pystr \<times> time \<Rightarrow> rate_counter list \<Rightarrow> int \<times> rate_counter list" where
  "upsert_counter k cs =
     (case find_row rc_key cs k of
        None \<Rightarrow> (1, cs @ [\<lparr>rc_limiter = fst k, rc_subject = fst (snd k), rc_window_start = snd (snd k), rc_attempts = 1\<rparr>])
      | Some c \<Rightarrow> (rc_attempts c + 1, update_rows (\<lambda>c. rc_key c = k) increment cs))"

definition consume_rate_limit :: "pystr \<Rightarrow> limiter \<Rightarrow> pystr \<Rightarrow> time \<Rightarrow> db \<Rightarrow> (counter_error + int) \<times> db" where
  "consume_rate_limit dialect l subject start d =
     (case upsert_for dialect of
        Inl e \<Rightarrow> (Inl e, d)
      | Inr _ \<Rightarrow>
          (let (used, cs) = upsert_counter (l, subject, start) (counters d)
           in case commit_db (d\<lparr>counters := cs\<rparr>) of
                None \<Rightarrow> (Inl (CounterRaised IntegrityError), d)
              | Some d' \<Rightarrow> (Inr used, d')))"

definition delete_expired_rate_limit_counters :: "time \<Rightarrow> db \<Rightarrow> nat \<times> db" where
  "delete_expired_rate_limit_counters before d =
     (rows_matching (\<lambda>c. rc_window_start c < before) (counters d),
      d\<lparr>counters := filter (\<lambda>c. \<not> rc_window_start c < before) (counters d)\<rparr>)"

subsection \<open>What a counter holds\<close>

definition counter_value :: "db \<Rightarrow> limiter \<times> pystr \<times> time \<Rightarrow> int" where
  "counter_value d k = (case find_row rc_key (counters d) k of None \<Rightarrow> 0 | Some c \<Rightarrow> rc_attempts c)"

lemma rc_key_increment [simp]: "rc_key (increment c) = rc_key c"
  by (simp add: rc_key_def increment_def)

lemma upsert_counter_value:
  "find_row rc_key (snd (upsert_counter k cs)) k' =
     (if k' = k then Some (case find_row rc_key cs k of
          None \<Rightarrow> \<lparr>rc_limiter = fst k, rc_subject = fst (snd k), rc_window_start = snd (snd k), rc_attempts = 1\<rparr>
        | Some c \<Rightarrow> increment c)
      else find_row rc_key cs k')"
proof (cases "find_row rc_key cs k")
  case None
  then show ?thesis by (auto simp: upsert_counter_def find_row_append rc_key_def split: option.splits)
next
  case (Some c)
  then show ?thesis
    by (cases "find_row rc_key cs k'")
      (auto simp: upsert_counter_def find_row_update dest: find_row_SomeD)
qed

lemma rc_key_new [simp]:
  "rc_key \<lparr>rc_limiter = fst k, rc_subject = fst (snd k), rc_window_start = snd (snd k), rc_attempts = n\<rparr> = k"
  by (simp add: rc_key_def)

lemma window_of_key: "rc_window_start c = snd (snd (rc_key c))"
  by (simp add: rc_key_def)

lemma upsert_counter_keys:
  assumes "distinct (map rc_key cs)"
  shows "distinct (map rc_key (snd (upsert_counter k cs)))"
proof (cases "find_row rc_key cs k")
  case None
  then have "k \<notin> rc_key ` set cs" by (simp add: find_row_None_iff)
  with None assms show ?thesis by (simp add: upsert_counter_def)
next
  case (Some c)
  with assms show ?thesis by (simp add: upsert_counter_def map_update_rows)
qed

lemma consume_ok:
  assumes "db_ok d" "upsert_for dialect = Inr u"
  shows "consume_rate_limit dialect l subject start d =
    (Inr (counter_value d (l, subject, start) + 1),
     d\<lparr>counters := snd (upsert_counter (l, subject, start) (counters d))\<rparr>)"
proof -
  have "db_ok (d\<lparr>counters := snd (upsert_counter (l, subject, start) (counters d))\<rparr>)"
    using assms(1) upsert_counter_keys by (auto simp: db_ok_defs)
  moreover have "fst (upsert_counter (l, subject, start) (counters d)) = counter_value d (l, subject, start) + 1"
    by (simp add: upsert_counter_def counter_value_def split: option.splits)
  ultimately show ?thesis using assms(2) by (simp add: consume_rate_limit_def case_prod_beta commit_db_def)
qed

lemma consume_db_ok: "db_ok d \<Longrightarrow> db_ok (snd (consume_rate_limit dialect l subject start d))"
  by (auto simp: consume_rate_limit_def commit_db_def case_prod_beta split: sum.splits option.splits)

lemma counter_value_consume:
  assumes "db_ok d" "upsert_for dialect = Inr u"
  shows "counter_value (snd (consume_rate_limit dialect l subject start d)) k =
    counter_value d k + (if k = (l, subject, start) then 1 else 0)"
  by (cases "find_row rc_key (counters d) (l, subject, start)")
    (auto simp: consume_ok [OF assms] counter_value_def upsert_counter_value increment_def)

lemma sweep_db_ok: "db_ok d \<Longrightarrow> db_ok (snd (delete_expired_rate_limit_counters before d))"
  by (auto simp: delete_expired_rate_limit_counters_def db_ok_defs intro: distinct_key_filter)

lemma counter_value_sweep:
  "counter_value (snd (delete_expired_rate_limit_counters before d)) k =
     (if snd (snd k) < before then 0 else counter_value d k)"
proof -
  have "find_row rc_key (filter (\<lambda>c. \<not> rc_window_start c < before) cs) k =
      (if snd (snd k) < before then None else find_row rc_key cs k)" for cs
    by (induction cs) (auto simp: window_of_key)
  then show ?thesis by (simp add: counter_value_def delete_expired_rate_limit_counters_def)
qed

subsection \<open>Budgets\<close>

text \<open>
  A store of budgets as its clients see it: spending answers with the new total and charges that
  budget alone, and forgetting leaves the budgets that are still counted in.
\<close>

locale budget_store =
  fixes spend :: "'k \<Rightarrow> 's \<Rightarrow> int \<times> 's"
    and forget :: "'c \<Rightarrow> 's \<Rightarrow> 's"
    and spent :: "'s \<Rightarrow> 'k \<Rightarrow> int"
    and stale :: "'c \<Rightarrow> 'k \<Rightarrow> bool"
    and good :: "'s \<Rightarrow> bool"
  assumes spend_answer: "good s \<Longrightarrow> fst (spend k s) = spent s k + 1"
    and spend_spent: "good s \<Longrightarrow> spent (snd (spend k s)) k' = spent s k' + (if k' = k then 1 else 0)"
    and spend_good: "good s \<Longrightarrow> good (snd (spend k s))"
    and forget_spent: "good s \<Longrightarrow> \<not> stale c k \<Longrightarrow> spent (forget c s) k = spent s k"
    and forget_good: "good s \<Longrightarrow> good (forget c s)"
begin

text \<open>A history of spending and forgetting, and the answers given for one budget.\<close>

primrec answers :: "'k \<Rightarrow> ('k + 'c) list \<Rightarrow> 's \<Rightarrow> int list \<times> 's" where
  "answers k [] s = ([], s)"
| "answers k (e # es) s =
     (case e of
        Inl k' \<Rightarrow> (let (n, s') = spend k' s; (ns, s'') = answers k es s' in (if k' = k then n # ns else ns, s''))
      | Inr c \<Rightarrow> answers k es (forget c s))"

lemma answers_consecutive:
  assumes "good s" "\<And>c. Inr c \<in> set es \<Longrightarrow> \<not> stale c k"
  shows "fst (answers k es s) = map (\<lambda>i. spent s k + 1 + int i) [0..<length (filter (\<lambda>e. e = Inl k) es)]"
  using assms
proof (induction es arbitrary: s)
  case (Cons e es)
  show ?case
  proof (cases e)
    case (Inl k')
    have "good (snd (spend k' s))" using Cons.prems(1) by (rule spend_good)
    then have IH: "fst (answers k es (snd (spend k' s))) =
        map (\<lambda>i. spent (snd (spend k' s)) k + 1 + int i) [0..<length (filter (\<lambda>e. e = Inl k) es)]"
      using Cons by simp
    show ?thesis
      using Inl IH Cons.prems(1)
      by (auto simp: case_prod_beta Let_def spend_answer spend_spent upt_conv_Cons map_Suc_upt [symmetric] comp_def
          simp del: upt_Suc)
  next
    case (Inr c)
    with Cons show ?thesis by (simp add: forget_good forget_spent)
  qed
qed simp

text \<open>Of a budget nothing was spent of, no more than the limit is allowed.\<close>

lemma allowed_count:
  assumes "good s" "\<And>c. Inr c \<in> set es \<Longrightarrow> \<not> stale c k" "spent s k = 0"
  shows "length (filter (\<lambda>n. n \<le> int most) (fst (answers k es s))) = min most (length (filter (\<lambda>e. e = Inl k) es))"
proof -
  have "length (filter (\<lambda>n. n \<le> int most) (map (\<lambda>i. 1 + int i) [0..<m])) = min most m" for m
  proof (induction m)
    case (Suc m)
    then show ?case by (cases "Suc m \<le> most") auto
  qed simp
  then show ?thesis by (simp add: answers_consecutive [OF assms(1,2)] assms(3))
qed

end

definition consume :: "pystr \<Rightarrow> limiter \<times> pystr \<times> time \<Rightarrow> db \<Rightarrow> int \<times> db" where
  "consume dialect k d =
     (let (r, d') = consume_rate_limit dialect (fst k) (fst (snd k)) (snd (snd k)) d
      in (case r of Inl _ \<Rightarrow> 0 | Inr n \<Rightarrow> n, d'))"

lemma consume_pair:
  assumes "db_ok d" "upsert_for dialect = Inr u"
  shows "consume dialect k d = (counter_value d k + 1, d\<lparr>counters := snd (upsert_counter k (counters d))\<rparr>)"
  using consume_ok [OF assms, of "fst k" "fst (snd k)" "snd (snd k)"] by (simp add: consume_def)

lemma consume_eq:
  assumes "db_ok d" "upsert_for dialect = Inr u"
  shows "fst (consume dialect k d) = counter_value d k + 1"
    and "counter_value (snd (consume dialect k d)) k' = counter_value d k' + (if k' = k then 1 else 0)"
    and "db_ok (snd (consume dialect k d))"
  using consume_ok [OF assms, of "fst k" "fst (snd k)" "snd (snd k)"]
    counter_value_consume [OF assms, of "fst k" "fst (snd k)" "snd (snd k)" k']
    consume_db_ok [OF assms(1), of dialect "fst k" "fst (snd k)" "snd (snd k)"]
  by (simp_all add: consume_def)

lemma budget_store_of:
  assumes "upsert_for dialect = Inr u"
  shows "budget_store (consume dialect) (\<lambda>before d. snd (delete_expired_rate_limit_counters before d))
     counter_value (\<lambda>before k. snd (snd k) < before) db_ok"
proof qed (use assms in \<open>simp_all add: consume_eq counter_value_sweep sweep_db_ok\<close>)

interpretation pg_budgets: budget_store "consume (lit ''postgresql'')"
  "\<lambda>before d. snd (delete_expired_rate_limit_counters before d)" counter_value "\<lambda>before k. snd (snd k) < before" db_ok
  by (rule budget_store_of [of _ "()"]) (simp add: upsert_for_def)

interpretation lite_budgets: budget_store "consume (lit ''sqlite'')"
  "\<lambda>before d. snd (delete_expired_rate_limit_counters before d)" counter_value "\<lambda>before k. snd (snd k) < before" db_ok
  by (rule budget_store_of [of _ "()"]) (simp add: upsert_for_def)

subsection \<open>Properties\<close>

text \<open>A history of attempts and sweeps on the database, and the numbers handed out for one window.\<close>

primrec counted :: "limiter \<times> pystr \<times> time \<Rightarrow> (limiter \<times> pystr \<times> time + time) list \<Rightarrow> db \<Rightarrow> int list" where
  "counted k [] d = []"
| "counted k (e # es) d =
     (case e of
        Inl k' \<Rightarrow>
          (let (r, d') = consume_rate_limit (lit ''postgresql'') (fst k') (fst (snd k')) (snd (snd k')) d
           in (case r of Inr n \<Rightarrow> if k' = k then [n] else [] | Inl _ \<Rightarrow> []) @ counted k es d')
      | Inr before \<Rightarrow> counted k es (snd (delete_expired_rate_limit_counters before d)))"

lemma counted_answers:
  "db_ok d \<Longrightarrow> counted k es d = fst (pg_budgets.answers k es d)"
proof (induction es arbitrary: d)
  case (Cons e es)
  have up: "upsert_for (lit ''postgresql'') = Inr ()" by (simp add: upsert_for_def)
  show ?case
  proof (cases e)
    case (Inl k')
    have "db_ok (snd (consume (lit ''postgresql'') k' d))" by (rule consume_eq(3) [OF Cons.prems up])
    with Inl Cons.prems show ?thesis
      by (simp add: case_prod_beta Let_def consume_pair [OF Cons.prems up] consume_ok [OF Cons.prems up] Cons.IH)
  next
    case (Inr before)
    with Cons sweep_db_ok show ?thesis by simp
  qed
qed simp

text \<open>
  C6. A rate limit cannot be overspent. Whatever attempts of other sources and windows, and whatever
  sweeps of older windows, run in between and in whatever order, the attempts of one subject in one
  window are numbered one after the other, so exactly the first \<open>most\<close> of them are within the limit.
\<close>
theorem rate_limit_never_overspent:
  assumes "db_ok d" and "counter_value d k = 0" and "\<And>before. Inr before \<in> set es \<Longrightarrow> before \<le> snd (snd k)"
  shows "counted k es d = map (\<lambda>i. 1 + int i) [0..<length (filter (\<lambda>e. e = Inl k) es)] \<and>
    length (filter (\<lambda>n. n \<le> int most) (counted k es d)) = min most (length (filter (\<lambda>e. e = Inl k) es))"
proof -
  have old: "\<not> snd (snd k) < before" if "Inr before \<in> set es" for before using assms(3) [OF that] by simp
  show ?thesis
    using pg_budgets.answers_consecutive [OF assms(1) old] pg_budgets.allowed_count [OF assms(1) old assms(2)]
    by (simp add: counted_answers [OF assms(1)] assms(2))
qed

lemma rate_limit_never_overspent_witness:
  "counted (IP, [1], 60) [Inl (IP, [1], 60), Inl (IP, [2], 60), Inr 30, Inl (IP, [1], 60), Inl (IP, [1], 60)] empty_db
     = [1, 2, 3] \<and>
   length (filter (\<lambda>n. n \<le> int 2)
     (counted (IP, [1], 60) [Inl (IP, [1], 60), Inl (IP, [2], 60), Inr 30, Inl (IP, [1], 60), Inl (IP, [1], 60)] empty_db)) = 2"
proof -
  let ?es = "[Inl (IP, [1], 60), Inl (IP, [2], 60), Inr 30, Inl (IP, [1], 60), Inl (IP, [1 :: nat], 60 :: int)]"
  have zero: "counter_value empty_db (IP, [1], 60) = 0" by (simp add: counter_value_def empty_db_def)
  have "\<And>before. Inr before \<in> set ?es \<Longrightarrow> before \<le> snd (snd (IP, [1 :: nat], 60 :: int))" by auto
  from rate_limit_never_overspent [OF empty_db_ok zero this, of ?es 2] show ?thesis by (simp add: upt_rec)
qed

end
