(* ===== verification/IpAddress.thy ===== *)
theory IpAddress
  imports RateLimit Sha256
begin

text \<open>
  The part of \<^verbatim>\<open>ratelimit.py\<close> that reduces a client address to its bucket, with what it uses of
  the standard library's \<^verbatim>\<open>ipaddress\<close>: reading IPv4 and IPv6 addresses as CPython does, and
  writing them in canonical form. Then that the spelling of an address is no way out of its bucket.
\<close>

subsection \<open>Reading addresses\<close>

definition digit_value :: "nat \<Rightarrow> int" where
  "digit_value c = int (if is_digit c then c - 48 else if is_lower c then c - 87 else c - 55)"

definition of_digits :: "int \<Rightarrow> pystr \<Rightarrow> int" where
  "of_digits base s = foldl (\<lambda>n c. n * base + digit_value c) 0 s"

definition is_hex_any :: "nat \<Rightarrow> bool" where
  "is_hex_any c \<longleftrightarrow> is_digit c \<or> (65 \<le> c \<and> c \<le> 70) \<or> (97 \<le> c \<and> c \<le> 102)"

text \<open>\<^verbatim>\<open>_parse_octet\<close>: one to three ASCII digits, no leading zero, at most 255.\<close>

definition parse_octet :: "pystr \<Rightarrow> int option" where
  "parse_octet s =
     (if s = [] \<or> \<not> list_all is_digit s \<or> 3 < length s then None
      else if hd s = 48 \<and> s \<noteq> [48] then None
      else if 255 < of_digits 10 s then None
      else Some (of_digits 10 s))"

definition parse_ipv4 :: "pystr \<Rightarrow> int option" where
  "parse_ipv4 s =
     (if 47 \<in> set s \<or> s = [] then None
      else case map parse_octet (split_on 46 s) of
             [Some a, Some b, Some c, Some d] \<Rightarrow> Some (((a * 256 + b) * 256 + c) * 256 + d)
           | _ \<Rightarrow> None)"

text \<open>\<^verbatim>\<open>_parse_hextet\<close>: one to four hexadecimal digits.\<close>

definition parse_hextet :: "pystr \<Rightarrow> int option" where
  "parse_hextet s = (if s = [] \<or> \<not> list_all is_hex_any s \<or> 4 < length s then None else Some (of_digits 16 s))"

fun hextets_value :: "pystr list \<Rightarrow> int \<Rightarrow> int option" where
  "hextets_value [] acc = Some acc"
| "hextets_value (p # ps) acc =
     (case parse_hextet p of None \<Rightarrow> None | Some h \<Rightarrow> hextets_value ps (acc * 65536 + h))"

function hex_of :: "int \<Rightarrow> pystr" where
  "hex_of n = (if n < 16 then [hex_digit (nat n)] else hex_of (n div 16) @ [hex_digit (nat (n mod 16))])"
  by auto
termination by (relation "measure nat") auto

declare hex_of.simps [simp del]

text \<open>An IPv4 suffix becomes the two groups it stands for.\<close>

definition expand_ipv4_suffix :: "pystr list \<Rightarrow> pystr list option" where
  "expand_ipv4_suffix parts =
     (if 46 \<in> set (last parts)
      then (case parse_ipv4 (last parts) of
              None \<Rightarrow> None
            | Some n \<Rightarrow> Some (butlast parts @ [hex_of (n div 65536), hex_of (n mod 65536)]))
      else Some parts)"

text \<open>The positions strictly inside the list that hold an empty group; there may be one.\<close>

definition skip_indices :: "pystr list \<Rightarrow> nat list" where
  "skip_indices parts = filter (\<lambda>i. parts ! i = []) [1..<length parts - 1]"

definition ipv6_value :: "pystr list \<Rightarrow> int option" where
  "ipv6_value parts =
     (case skip_indices parts of
        [] \<Rightarrow> if length parts \<noteq> 8 \<or> hd parts = [] \<or> last parts = [] then None else hextets_value parts 0
      | [skip] \<Rightarrow>
          (let hi = (if hd parts = [] then skip - 1 else skip);
               rest = length parts - skip - 1;
               lo = (if last parts = [] then rest - 1 else rest)
           in if hd parts = [] \<and> hi \<noteq> 0 \<or> last parts = [] \<and> lo \<noteq> 0 then None
              else if 8 \<le> hi + lo then None
              else (case hextets_value (take hi parts) 0 of
                      None \<Rightarrow> None
                    | Some n \<Rightarrow> hextets_value (drop (length parts - lo) parts) (n * 65536 ^ (8 - (hi + lo)))))
      | _ \<Rightarrow> None)"

definition parse_ipv6 :: "pystr \<Rightarrow> int option" where
  "parse_ipv6 s =
     (if 47 \<in> set s then None
      else
        (let address = before_first 37 s; zone = drop (Suc (length address)) s
         in if length address < length s \<and> (zone = [] \<or> 37 \<in> set zone) then None
            else if address = [] then None
            else if length (split_on 58 address) < 3 then None
            else (case expand_ipv4_suffix (split_on 58 address) of
                    None \<Rightarrow> None
                  | Some parts \<Rightarrow> if 9 < length parts then None else ipv6_value parts)))"

datatype ip = V4 int | V6 int

definition ip_address :: "pystr \<Rightarrow> ip option" where
  "ip_address s =
     (case parse_ipv4 s of
        Some n \<Rightarrow> Some (V4 n)
      | None \<Rightarrow> (case parse_ipv6 s of Some n \<Rightarrow> Some (V6 n) | None \<Rightarrow> None))"

subsection \<open>Writing addresses\<close>

definition ipv4_str :: "int \<Rightarrow> pystr" where
  "ipv4_str n = join_with [46] (map (\<lambda>o8. decimal (nat o8)) [n div 16777216, n div 65536 mod 256, n div 256 mod 256, n mod 256])"

definition hextets_of :: "int \<Rightarrow> int list" where
  "hextets_of n = map (\<lambda>i. n div 65536 ^ (7 - i) mod 65536) [0..<8]"

text \<open>The first longest run of zero groups: its start and length, scanning as \<^verbatim>\<open>_compress_hextets\<close> does.\<close>

fun zero_runs :: "nat \<Rightarrow> int list \<Rightarrow> nat \<times> nat \<Rightarrow> nat \<times> nat \<Rightarrow> nat \<times> nat" where
  "zero_runs i [] run best = best"
| "zero_runs i (h # hs) run best =
     (if h = 0
      then (let run' = (if snd run = 0 then (i, 1) else (fst run, snd run + 1))
            in zero_runs (Suc i) hs run' (if snd best < snd run' then run' else best))
      else zero_runs (Suc i) hs (0, 0) best)"

definition compress_hextets :: "int list \<Rightarrow> pystr list" where
  "compress_hextets hs =
     (let (start, len) = zero_runs 0 hs (0, 0) (0, 0); groups = map hex_of hs
      in if len \<le> 1 then groups
         else (if start = 0 then [[]] else []) @ take start groups @ [[]] @ drop (start + len) groups @
              (if start + len = length groups then [[]] else []))"

definition ipv6_str :: "int \<Rightarrow> pystr" where
  "ipv6_str n = join_with [58] (compress_hextets (hextets_of n))"

subsection \<open>Buckets\<close>

definition ipv6_bucket_prefix :: nat where "ipv6_bucket_prefix = 64"

definition count_char :: "nat \<Rightarrow> pystr \<Rightarrow> nat" where
  "count_char c s = length (filter (\<lambda>x. x = c) s)"

definition parse_address :: "pystr \<Rightarrow> ip option" where
  "parse_address v =
     (let candidate = py_strip v
      in if starts_with [91] candidate
         then (if 93 \<in> set candidate then ip_address (before_first 93 (drop 1 candidate)) else None)
         else if count_char 58 candidate = 1 then ip_address (before_first 58 candidate)
         else ip_address candidate)"

definition ipv4_mapped :: "int \<Rightarrow> int option" where
  "ipv4_mapped n = (if n div 4294967296 = 65535 then Some (n mod 4294967296) else None)"

definition address_bucket :: "pystr \<Rightarrow> pystr" where
  "address_bucket address =
     (case parse_address address of
        None \<Rightarrow> py_strip address
      | Some (V6 n) \<Rightarrow>
          (case ipv4_mapped n of
             Some m \<Rightarrow> ipv4_str m
           | None \<Rightarrow>
               ipv6_str (n div 2 ^ (128 - ipv6_bucket_prefix) * 2 ^ (128 - ipv6_bucket_prefix)) @ [47] @
               decimal ipv6_bucket_prefix)
      | Some (V4 n) \<Rightarrow> ipv4_str n)"

definition ip_subject :: "pystr \<Rightarrow> pystr option \<Rightarrow> py_exn + pystr" where
  "ip_subject address secret =
     (case utf8_encode (address_bucket address) of
        Inl e \<Rightarrow> Inl e
      | Inr bucket \<Rightarrow>
          (case secret of
             None \<Rightarrow> Inr (sha256_hex bucket)
           | Some k \<Rightarrow> (case utf8_encode k of Inl e \<Rightarrow> Inl e | Inr kb \<Rightarrow> Inr (hmac_sha256_hex kb bucket))))"

subsection \<open>Facts about the notation\<close>

lemma of_digits_snoc: "of_digits b (s @ [c]) = of_digits b s * b + digit_value c"
  by (simp add: of_digits_def)

lemma digit_value_hex_digit: "m < 16 \<Longrightarrow> digit_value (hex_digit m) = int m"
  by (auto simp: digit_value_def hex_digit_def is_digit_def is_lower_def)

lemma is_hex_any_hex_digit: "m < 16 \<Longrightarrow> is_hex_any (hex_digit m)"
  by (auto simp: is_hex_any_def hex_digit_def is_digit_def)

lemma hex_of_not_Nil [simp]: "hex_of n \<noteq> []"
  by (subst hex_of.simps) simp

lemma of_digits_hex_of: "0 \<le> n \<Longrightarrow> of_digits 16 (hex_of n) = n"
proof (induction n rule: hex_of.induct)
  case (1 n)
  show ?case
  proof (cases "n < 16")
    case True
    with 1 show ?thesis by (subst hex_of.simps) (simp add: of_digits_def digit_value_hex_digit)
  next
    case False
    with 1 have "of_digits 16 (hex_of (n div 16)) = n div 16" by simp
    with False show ?thesis by (subst hex_of.simps) (simp add: of_digits_snoc digit_value_hex_digit)
  qed
qed

lemma hex_of_chars: "list_all is_hex_any (hex_of n)"
proof (induction n rule: hex_of.induct)
  case (1 n)
  then show ?case by (subst hex_of.simps) (auto simp: is_hex_any_hex_digit)
qed

lemma length_hex_of: "n < 16 ^ k \<Longrightarrow> 0 < k \<Longrightarrow> length (hex_of n) \<le> k"
proof (induction k arbitrary: n)
  case (Suc k)
  show ?case
  proof (cases "n < 16")
    case False
    with Suc.prems have "0 < k" by (cases k) auto
    moreover have "n div 16 < 16 ^ k" using Suc.prems(1) by (simp add: div_less_iff_less_mult mult.commute)
    ultimately have "length (hex_of (n div 16)) \<le> k" by (intro Suc.IH)
    with False show ?thesis by (subst hex_of.simps) simp
  qed (subst hex_of.simps, simp)
qed simp

lemma parse_hextet_hex_of: "0 \<le> n \<Longrightarrow> n < 65536 \<Longrightarrow> parse_hextet (hex_of n) = Some n"
  using length_hex_of [of n 4] hex_of_chars [of n] by (simp add: parse_hextet_def of_digits_hex_of)

lemma hex_of_inj: "0 \<le> m \<Longrightarrow> 0 \<le> n \<Longrightarrow> hex_of m = hex_of n \<Longrightarrow> m = n"
  by (metis of_digits_hex_of)

subsection \<open>Facts about IPv4\<close>

lemma digit_value_nonneg: "is_digit c \<Longrightarrow> 0 \<le> digit_value c"
  by (simp add: digit_value_def)

lemma of_digits_nonneg: "list_all is_digit s \<Longrightarrow> 0 \<le> of_digits 10 s"
  by (induction s rule: rev_induct) (simp_all add: of_digits_snoc digit_value_nonneg, simp add: of_digits_def)

lemma parse_octet_Some:
  "parse_octet s = Some n \<Longrightarrow> list_all is_digit s \<and> 0 \<le> n \<and> n \<le> 255"
  by (auto simp: parse_octet_def of_digits_nonneg split: if_splits)

lemma parse_ipv4_Some:
  assumes "parse_ipv4 s = Some n"
  shows "(\<forall>c\<in>set s. is_digit c \<or> c = 46) \<and> 46 \<in> set s \<and> 0 \<le> n \<and> n < 4294967296"
proof -
  from assms obtain a b c d where o8: "map parse_octet (split_on 46 s) = [Some a, Some b, Some c, Some d]"
    and n: "n = ((a * 256 + b) * 256 + c) * 256 + d"
    by (auto simp: parse_ipv4_def split: if_splits list.splits option.splits)
  then obtain s1 s2 s3 s4 where sp: "split_on 46 s = [s1, s2, s3, s4]" by (auto simp: map_eq_Cons_conv)
  with o8 have oct: "parse_octet s1 = Some a" "parse_octet s2 = Some b" "parse_octet s3 = Some c" "parse_octet s4 = Some d"
    by simp_all
  have s: "s = s1 @ 46 # s2 @ 46 # s3 @ 46 # s4" using join_split_on [of 46 s] by (simp add: sp)
  note d = oct [THEN parse_octet_Some]
  from d s have "\<forall>c\<in>set s. is_digit c \<or> c = 46" "46 \<in> set s" by (auto simp: list_all_iff)
  moreover have "0 \<le> n" "n < 4294967296" using d n by auto
  ultimately show ?thesis by blast
qed

lemma parse_ipv4_None: "c \<in> set s \<Longrightarrow> \<not> is_digit c \<Longrightarrow> c \<noteq> 46 \<Longrightarrow> parse_ipv4 s = None"
  using parse_ipv4_Some [of s] by (cases "parse_ipv4 s") auto

lemma dropWhile_none: "\<forall>c\<in>set s. \<not> P c \<Longrightarrow> dropWhile P s = s"
  by (cases s) auto

lemma py_strip_id: "\<forall>c\<in>set s. \<not> is_space c \<Longrightarrow> py_strip s = s"
  by (simp add: py_strip_def dropWhile_none)

lemma before_first_clean: "d \<notin> set s \<Longrightarrow> before_first d s = s"
  by (auto simp: before_first_def)

lemma before_first_append: "d \<notin> set s \<Longrightarrow> before_first d (s @ d # t) = s"
  by (induction s) (auto simp: before_first_def)

text \<open>The address an IPv4 client has when it is seen as an IPv6 one.\<close>

lemma parse_mapped:
  assumes "parse_ipv4 s = Some n"
  shows "ip_address (lit ''::ffff:'' @ s) = Some (V6 (65535 * 4294967296 + n))"
proof -
  note v4 = parse_ipv4_Some [OF assms]
  let ?t = "lit ''::ffff:'' @ s"
  have t: "?t = [] @ 58 # ([] @ 58 # (lit ''ffff'' @ 58 # s))" by (simp add: lit_def)
  have no: "58 \<notin> set s" "37 \<notin> set s" "47 \<notin> set s" using v4 by (auto simp: is_digit_def)
  have split: "split_on 58 ?t = [[], [], lit ''ffff'', s]"
    unfolding t by (simp only: split_on_append) (simp add: split_on_clean no lit_def)
  have clean: "37 \<notin> set ?t" "47 \<notin> set ?t" using no by (simp_all add: lit_def)
  have hi: "parse_hextet (hex_of (n div 65536)) = Some (n div 65536)"
    and lo: "parse_hextet (hex_of (n mod 65536)) = Some (n mod 65536)"
    using v4 by (auto intro!: parse_hextet_hex_of simp: pos_imp_zdiv_nonneg_iff div_less_iff_less_mult)
  have ffff: "parse_hextet (lit ''ffff'') = Some 65535" by code_simp
  let ?p = "[[], [], lit ''ffff'', hex_of (n div 65536), hex_of (n mod 65536)]"
  have "expand_ipv4_suffix [[], [], lit ''ffff'', s] = Some ?p"
    using v4 by (simp add: expand_ipv4_suffix_def assms)
  moreover have "skip_indices ?p = [1]"
    by (simp add: skip_indices_def upt_rec lit_def)
  then have "ipv6_value ?p = Some ((65535 * 65536 + n div 65536) * 65536 + n mod 65536)"
    by (simp add: ipv6_value_def hi lo ffff)
  moreover have "(65535 * 65536 + n div 65536) * 65536 + n mod 65536 = 65535 * 4294967296 + n" by simp
  ultimately have "parse_ipv6 ?t = Some (65535 * 4294967296 + n)"
    using clean by (simp add: parse_ipv6_def before_first_clean split Let_def) (simp add: lit_def)
  moreover have "parse_ipv4 ?t = None" by (rule parse_ipv4_None [of 58]) (simp_all add: lit_def is_digit_def)
  ultimately show ?thesis by (simp add: ip_address_def)
qed

lemma ipv4_no_space: "parse_ipv4 s = Some n \<Longrightarrow> c \<in> set s \<Longrightarrow> \<not> is_space c"
  using parse_ipv4_Some [of s n] by (auto simp: is_space_def is_digit_def)

lemma bucket_of_address:
  "address_bucket v = (case parse_address v of
     None \<Rightarrow> py_strip v
   | Some (V4 n) \<Rightarrow> ipv4_str n
   | Some (V6 n) \<Rightarrow> (case ipv4_mapped n of Some m \<Rightarrow> ipv4_str m
       | None \<Rightarrow> ipv6_str (n div 2 ^ 64 * 2 ^ 64) @ [47] @ decimal 64))"
  by (simp add: address_bucket_def ipv6_bucket_prefix_def split: option.splits ip.splits)

lemma count_char_append [simp]: "count_char c (s @ t) = count_char c s + count_char c t"
  by (simp add: count_char_def)

lemma count_char_Cons: "count_char c (x # s) = (if x = c then 1 else 0) + count_char c s"
  by (simp add: count_char_def)

lemma count_char_0: "c \<notin> set s \<Longrightarrow> count_char c s = 0"
  by (auto simp: count_char_def filter_empty_conv)

text \<open>
  The spelling of an IPv4 source is no way out of its bucket: written plainly, with any port, or as an
  IPv4-mapped IPv6 address with or without brackets and port, it is counted under the same canonical
  address.
\<close>
lemma ipv4_spellings_share_bucket:
  assumes "parse_ipv4 s = Some n" and "list_all is_digit port"
  shows "address_bucket s = ipv4_str n \<and>
    address_bucket (s @ lit '':'' @ port) = ipv4_str n \<and>
    address_bucket (lit ''::ffff:'' @ s) = ipv4_str n \<and>
    address_bucket (lit ''[::ffff:'' @ s @ lit '']:'' @ port) = ipv4_str n"
proof -
  note v4 = parse_ipv4_Some [OF assms(1)]
  have no: "58 \<notin> set s" "91 \<notin> set s" "93 \<notin> set s" using v4 by (auto simp: is_digit_def)
  have ps: "\<forall>c\<in>set port. \<not> is_space c" "58 \<notin> set port"
    using assms(2) by (auto simp: list_all_iff is_digit_def is_space_def)
  have lits: "lit '':'' = [58]" "lit ''::ffff:'' = [58, 58, 102, 102, 102, 102, 58]"
    "lit ''[::ffff:'' = [91, 58, 58, 102, 102, 102, 102, 58]" "lit '']:'' = [93, 58]" by (simp_all add: lit_def)
  have clean: "\<forall>c\<in>set s. \<not> is_space c" using ipv4_no_space [OF assms(1)] by blast
  have marks: "\<not> is_space 58" "\<not> is_space 102" "\<not> is_space 91" "\<not> is_space 93" by (simp_all add: is_space_def)
  have sp: "py_strip s = s" "py_strip (s @ lit '':'' @ port) = s @ lit '':'' @ port"
    "py_strip (lit ''::ffff:'' @ s) = lit ''::ffff:'' @ s"
    "py_strip (lit ''[::ffff:'' @ s @ lit '']:'' @ port) = lit ''[::ffff:'' @ s @ lit '']:'' @ port"
    using clean ps(1) marks by (intro py_strip_id; auto simp: lits)+
  have "s \<noteq> []" using v4 by auto
  then have first: "\<not> starts_with [91] s" "\<not> starts_with [91] (s @ t)" for t
    using no(2) by (cases s; simp)+
  have plain: "ip_address s = Some (V4 n)" by (simp add: ip_address_def assms(1))
  have "parse_address s = Some (V4 n)"
    using no by (simp add: parse_address_def sp first plain count_char_0)
  moreover have "parse_address (s @ lit '':'' @ port) = Some (V4 n)"
    using no ps by (simp add: parse_address_def sp(2) [unfolded lits, simplified] first plain count_char_0 lits before_first_append count_char_Cons Let_def)
  moreover have "parse_address (lit ''::ffff:'' @ s) = Some (V6 (65535 * 4294967296 + n))"
    using no parse_mapped [OF assms(1)] by (simp add: parse_address_def sp(3) [unfolded lits, simplified] lits count_char_0 count_char_Cons Let_def)
  moreover have "before_first 93 (drop 1 (lit ''[::ffff:'' @ s @ lit '']:'' @ port)) = lit ''::ffff:'' @ s"
    using no before_first_append [of 93 "lit ''::ffff:'' @ s" "58 # port"] by (simp add: lits)
  then have "parse_address (lit ''[::ffff:'' @ s @ lit '']:'' @ port) = Some (V6 (65535 * 4294967296 + n))"
    using parse_mapped [OF assms(1)] by (simp add: parse_address_def sp(4) [unfolded lits, simplified] lits Let_def)
  moreover have "(65535 * 4294967296 + n) div 4294967296 = 65535" "(65535 * 4294967296 + n) mod 4294967296 = n"
    using v4 by (simp_all only: div_mult_self3 mod_mult_self3 div_pos_pos_trivial mod_pos_pos_trivial)
  then have "ipv4_mapped (65535 * 4294967296 + n) = Some n" by (simp add: ipv4_mapped_def)
  ultimately show ?thesis by (simp add: bucket_of_address)
qed

end
