(* ===== verification/EndpointStore.thy ===== *)
theory EndpointStore
  imports Models
begin

text \<open>
  \<^verbatim>\<open>storage.py\<close>, the endpoints: adding one, reading one, and writing a resolved configuration, and
  what each comes to on a database whose constraints hold.
\<close>

subsection \<open>The operations\<close>

datatype endpoint_error = EndpointAlreadyExists pystr

definition create_endpoint ::
  "pystr \<Rightarrow> pystr \<Rightarrow> bool \<Rightarrow> pystr option \<Rightarrow> pystr option \<Rightarrow> time \<Rightarrow> db \<Rightarrow> (endpoint_error + endpoint) \<times> db" where
  "create_endpoint endpoint_id name is_active url secret now d =
     (let e = \<lparr>ep_id = endpoint_id, ep_name = name, ep_is_active = is_active, ep_created_at = now,
               ep_webhook_url = url, ep_webhook_secret = secret\<rparr>
      in case commit_db (d\<lparr>endpoints := endpoints d @ [e]\<rparr>) of
           None \<Rightarrow> (Inl (EndpointAlreadyExists endpoint_id), d)
         | Some d' \<Rightarrow> (Inr e, d'))"

definition get_endpoint :: "db \<Rightarrow> pystr \<Rightarrow> endpoint option" where
  "get_endpoint d endpoint_id = find_row ep_id (endpoints d) endpoint_id"

text \<open>The row is locked until the transaction ends, so nothing changes it before it is written.\<close>

definition get_endpoint_for_update :: "db \<Rightarrow> pystr \<Rightarrow> py_exn + endpoint option" where
  "get_endpoint_for_update d endpoint_id = one_or_none (filter (\<lambda>e. ep_id e = endpoint_id) (endpoints d))"

definition update_endpoint ::
  "endpoint \<Rightarrow> pystr \<Rightarrow> bool \<Rightarrow> pystr option \<Rightarrow> pystr option \<Rightarrow> db \<Rightarrow> (py_exn + endpoint) \<times> db" where
  "update_endpoint e name is_active url secret d =
     (let f = (\<lambda>e. e\<lparr>ep_name := name, ep_is_active := is_active, ep_webhook_url := url, ep_webhook_secret := secret\<rparr>)
      in case commit_db (d\<lparr>endpoints := update_rows (\<lambda>r. ep_id r = ep_id e) f (endpoints d)\<rparr>) of
           None \<Rightarrow> (Inl IntegrityError, d)
         | Some d' \<Rightarrow> (Inr (f e), d'))"

subsection \<open>Facts\<close>

lemma get_for_update_eq: "db_ok d \<Longrightarrow> get_endpoint_for_update d k = Inr (get_endpoint d k)"
  by (simp add: get_endpoint_for_update_def get_endpoint_def one_or_none_key db_ok_defs)

lemma get_endpoint_id: "get_endpoint d k = Some e \<Longrightarrow> ep_id e = k \<and> e \<in> set (endpoints d)"
  using find_row_SomeD [of ep_id "endpoints d" k e] by (simp add: get_endpoint_def)

lemma get_endpoint_check: "db_ok d \<Longrightarrow> get_endpoint d k = Some e \<Longrightarrow> endpoint_check e"
  using get_endpoint_id [of d k e] by (auto simp: db_ok_defs list_all_iff)

text \<open>Adding an endpoint breaks nothing but the uniqueness of its identifier.\<close>

lemma add_endpoint_ok:
  "db_ok d \<Longrightarrow> ep_id e \<notin> ep_id ` set (endpoints d) \<Longrightarrow> endpoint_check e \<Longrightarrow>
   db_ok (d\<lparr>endpoints := endpoints d @ [e]\<rparr>)"
  by (auto simp: db_ok_defs list_all_iff)

lemma create_endpoint_eq:
  assumes "db_ok d" "(url = None) = (secret = None)"
  shows "create_endpoint i n a url secret now d =
    (let e = \<lparr>ep_id = i, ep_name = n, ep_is_active = a, ep_created_at = now, ep_webhook_url = url, ep_webhook_secret = secret\<rparr>
     in if get_endpoint d i = None then (Inr e, d\<lparr>endpoints := endpoints d @ [e]\<rparr>) else (Inl (EndpointAlreadyExists i), d))"
proof (cases "get_endpoint d i")
  case None
  then have "i \<notin> ep_id ` set (endpoints d)" by (simp add: get_endpoint_def find_row_None_iff)
  with assms None show ?thesis
    by (simp add: create_endpoint_def Let_def commit_db_def add_endpoint_ok endpoint_check_def)
next
  case (Some e)
  then have "i \<in> ep_id ` set (endpoints d)" using get_endpoint_id by blast
  with Some show ?thesis by (simp add: create_endpoint_def Let_def commit_db_def db_ok_defs)
qed

lemma update_endpoints_ok:
  assumes "db_ok d" "\<And>e. ep_id (f e) = ep_id e" "\<And>e. P e \<Longrightarrow> endpoint_check (f e)"
  shows "db_ok (d\<lparr>endpoints := update_rows P f (endpoints d)\<rparr>)"
  using assms by (auto simp: db_ok_defs map_update_rows list_all_iff set_update_rows image_image if_distrib)

lemma update_endpoint_eq:
  assumes "db_ok d" "(url = None) = (secret = None)"
  shows "update_endpoint e n a url secret d =
    (Inr (e\<lparr>ep_name := n, ep_is_active := a, ep_webhook_url := url, ep_webhook_secret := secret\<rparr>),
     d\<lparr>endpoints := update_rows (\<lambda>r. ep_id r = ep_id e)
       (\<lambda>e. e\<lparr>ep_name := n, ep_is_active := a, ep_webhook_url := url, ep_webhook_secret := secret\<rparr>) (endpoints d)\<rparr>)"
proof -
  have "db_ok (d\<lparr>endpoints := update_rows (\<lambda>r. ep_id r = ep_id e)
       (\<lambda>e. e\<lparr>ep_name := n, ep_is_active := a, ep_webhook_url := url, ep_webhook_secret := secret\<rparr>) (endpoints d)\<rparr>)"
    using assms by (intro update_endpoints_ok) (simp_all add: endpoint_check_def)
  then show ?thesis by (simp add: update_endpoint_def Let_def commit_db_def)
qed

end
