(* ===== verification/SubmitApi.thy ===== *)
theory SubmitApi
  imports SubmissionFacts CounterStore IpAddress EndpointStore Config Errors
begin

text \<open>
  \<^verbatim>\<open>api/submissions.py\<close>: the public route \<^verbatim>\<open>POST /f/{endpoint_id}\<close>. Its order is its design: the source
  address is charged first, then the endpoint is looked up and charged, and only then the body is
  parsed and stored. The form parsers are a library; the one chosen by the media type is the
  argument \<open>parse\<close>. Requests of other clients run between two transactions of this one: \<open>other i\<close> is
  whatever they do to the database at the i-th such point.
\<close>

subsection \<open>Errors\<close>

definition invalid_endpoint_id :: api_error where
  "invalid_endpoint_id = api_error_of 404 (lit ''invalid_endpoint_id'') None"

definition endpoint_not_found :: "pystr \<Rightarrow> api_error" where
  "endpoint_not_found endpoint_id =
     api_error_of 404 (lit ''endpoint_not_found'') (Some [(lit ''endpoint_id'', DText endpoint_id)])"

definition endpoint_inactive :: "pystr \<Rightarrow> api_error" where
  "endpoint_inactive endpoint_id =
     api_error_of 409 (lit ''endpoint_inactive'') (Some [(lit ''endpoint_id'', DText endpoint_id)])"

definition invalid_idempotency_key :: api_error where
  "invalid_idempotency_key = api_error_of 400 (lit ''invalid_idempotency_key'') None"

definition idempotency_conflict :: "pystr \<Rightarrow> pystr \<Rightarrow> api_error" where
  "idempotency_conflict endpoint_id key =
     api_error_of 409 (lit ''idempotency_conflict'')
       (Some [(lit ''endpoint_id'', DText endpoint_id), (lit ''idempotency_key'', DText key)])"

definition urlencoded :: pystr where "urlencoded = lit ''application/x-www-form-urlencoded''"
definition multipart :: pystr where "multipart = lit ''multipart/form-data''"
definition supported_media_types :: "pystr list" where "supported_media_types = [urlencoded, multipart]"
definition media_type_echo_limit :: nat where "media_type_echo_limit = 128"

definition unsupported_media_type :: "pystr \<Rightarrow> api_error" where
  "unsupported_media_type received =
     api_error_of 415 (lit ''unsupported_media_type'')
       (Some [(lit ''received'', if take media_type_echo_limit received = [] then DNull
                                 else DText (take media_type_echo_limit received)),
              (lit ''supported'', DTexts supported_media_types)])"

definition malformed_form_body :: "pystr \<Rightarrow> api_error" where
  "malformed_form_body reason = api_error_of 400 (lit ''malformed_form_body'') (Some [(lit ''reason'', DText reason)])"

definition file_upload_not_supported :: "pystr \<Rightarrow> api_error" where
  "file_upload_not_supported field_name =
     api_error_of 422 (lit ''file_upload_not_supported'') (Some [(lit ''field'', DText field_name)])"

definition rate_limit_exceeded :: "rate_limit_decision \<Rightarrow> api_error" where
  "rate_limit_exceeded dec =
     (api_error_of 429 (lit ''rate_limit_exceeded'')
       (Some [(lit ''scope'', DText (limiter_value (dec_limiter dec))),
              (lit ''limit'', DCount (requests (dec_limit dec))),
              (lit ''window_seconds'', DCount (window_seconds (dec_limit dec))),
              (lit ''retry_after_seconds'', DCount (dec_retry_after dec))]))
     \<lparr>err_headers := Some [(lit ''Retry-After'', str_of_int (dec_retry_after dec))]\<rparr>"

subsection \<open>Requests and what the process adds to them\<close>

record submit_request =
  rq_endpoint_id :: pystr
  rq_peer :: "pystr option"
  rq_forwarded_for :: "pystr list"
  rq_content_type :: "pystr option"
  rq_idempotency_key :: "pystr option"
  rq_body :: bytes

datatype form_value = FieldValue pystr | UploadFile

type_synonym form_parser = "pystr \<Rightarrow> submit_request \<Rightarrow> pystr + (pystr \<times> form_value) list"

text \<open>The clock readings, random parts and database faults one request meets.\<close>

record submit_env =
  env_now :: time
  env_received_at :: time
  env_random :: rat
  env_sweep_fails :: bool
  env_submission_hex :: pystr
  env_delivery_hex :: pystr
  env_dialect :: pystr

subsection \<open>Reading the request\<close>

definition address_subject :: "submit_request \<Rightarrow> settings \<Rightarrow> raised + pystr" where
  "address_subject rq s =
     (let address = client_address (rq_peer rq)
            (if rq_forwarded_for rq = [] then None else Some (join_with (lit '', '') (rq_forwarded_for rq)))
            (nat (cfg_trusted_proxy_hops s))
      in case ip_subject address (cfg_rate_limit_ip_secret s) of Inl e \<Rightarrow> Inl (raised_exn e) | Inr h \<Rightarrow> Inr h)"

definition idempotency_key_of :: "submit_request \<Rightarrow> raised + pystr option" where
  "idempotency_key_of rq =
     (case rq_idempotency_key rq of
        None \<Rightarrow> Inr None
      | Some key \<Rightarrow> if is_valid_idempotency_key key then Inr (Some key) else Inl (Api invalid_idempotency_key))"

text \<open>\<^verbatim>\<open>content_type.split(";", 1)[0].strip().lower()\<close>\<close>

definition media_type :: "pystr option \<Rightarrow> pystr" where
  "media_type content_type =
     (case content_type of None \<Rightarrow> [] | Some c \<Rightarrow> py_lower (py_strip (before_first 59 c)))"

fun form_items :: "(pystr \<times> form_value) list \<Rightarrow> raised + (pystr \<times> pystr) list" where
  "form_items [] = Inr []"
| "form_items ((n, UploadFile) # items) = Inl (Api (file_upload_not_supported n))"
| "form_items ((n, FieldValue v) # items) =
     (case form_items items of Inl e \<Rightarrow> Inl e | Inr rest \<Rightarrow> Inr ((n, v) # rest))"

definition parse_form :: "form_parser \<Rightarrow> pystr \<Rightarrow> submit_request \<Rightarrow> raised + (pystr \<times> pystr) list" where
  "parse_form parse media rq =
     (case parse media rq of
        Inl reason \<Rightarrow> Inl (Api (malformed_form_body reason))
      | Inr form \<Rightarrow> form_items form)"

definition settings_field_limits :: "settings \<Rightarrow> field_limits" where
  "settings_field_limits s =
     \<lparr>max_fields = nat (cfg_max_fields s), max_field_name_length = nat (cfg_max_field_name_length s),
      max_field_value_length = nat (cfg_max_field_value_length s)\<rparr>"

definition checked_submission ::
  "settings \<Rightarrow> submit_env \<Rightarrow> pystr \<Rightarrow> (pystr \<times> pystr) list \<Rightarrow> raised + submission" where
  "checked_submission s env endpoint_id items =
     (case build_submission (settings_field_limits s) endpoint_id items (env_submission_hex env) (env_received_at env) of
        Inl r \<Rightarrow> Inl (Unacceptable r)
      | Inr sub \<Rightarrow> Inr sub)"

subsection \<open>Charging\<close>

fun raised_counter :: "counter_error \<Rightarrow> raised" where
  "raised_counter (UnsupportedRateLimitBackend dialect) = Unexpected"
| "raised_counter (CounterRaised e) = raised_exn e"

definition charge :: "pystr \<Rightarrow> limiter \<Rightarrow> pystr \<Rightarrow> rate_limit \<Rightarrow> time \<Rightarrow> (db, unit) handler" where
  "charge dialect l subject allowance now d =
     (case window_start now (window_seconds allowance) of
        Inl e \<Rightarrow> (Inl (raised_exn e), d)
      | Inr start \<Rightarrow>
          (case consume_rate_limit dialect l subject start d of
             (Inl e, d') \<Rightarrow> (Inl (raised_counter e), d')
           | (Inr used, d') \<Rightarrow>
               (case seconds_until_window_ends now start (window_seconds allowance) of
                  Inl e \<Rightarrow> (Inl (raised_exn e), d')
                | Inr retry \<Rightarrow>
                    (let dec = \<lparr>dec_limiter = l, dec_limit = allowance, dec_used = used, dec_retry_after = retry\<rparr>
                     in if decision_allowed dec then (Inr (), d')
                        else (Inl (Api (rate_limit_exceeded dec)), d')))))"

text \<open>The sweep happens for one attempt in a hundred, and a failing database does not matter to it.\<close>

definition sweep_probability :: rat where "sweep_probability = 1 / 100"
definition sweep_retained_windows :: int where "sweep_retained_windows = 2"

definition sweep_cutoff :: "settings \<Rightarrow> time \<Rightarrow> py_exn + time" where
  "sweep_cutoff s now =
     (let oldest = max (cfg_rate_limit_ip_window_seconds s) (cfg_rate_limit_endpoint_window_seconds s)
      in case timedelta_us (sweep_retained_windows * oldest * 1000000) of
           Inl e \<Rightarrow> Inl e
         | Inr age \<Rightarrow> dt_add now (- age))"

definition sweep_old_windows :: "settings \<Rightarrow> submit_env \<Rightarrow> (db, unit) handler" where
  "sweep_old_windows s env d =
     (if sweep_probability \<le> env_random env then (Inr (), d)
      else (case sweep_cutoff s (env_now env) of
              Inl e \<Rightarrow> (Inl (raised_exn e), d)
            | Inr before \<Rightarrow>
                if env_sweep_fails env then (Inr (), d)
                else (Inr (), snd (delete_expired_rate_limit_counters before d))))"

subsection \<open>The handler\<close>

record submission_accepted =
  acc_submission_id :: pystr
  acc_endpoint_id :: pystr
  acc_received_at :: time
  acc_field_count :: nat
  acc_idempotent_replay :: bool
  acc_delivery_queued :: bool

definition interrupted :: "(db \<Rightarrow> db) \<Rightarrow> (db, unit) handler" where
  "interrupted f d = (Inr (), f d)"

definition charge_address :: "settings \<Rightarrow> submit_env \<Rightarrow> submit_request \<Rightarrow> (db, unit) handler" where
  "charge_address s env rq =
     (if cfg_rate_limit_enabled s
      then and_then (or_raise (address_subject rq s))
             (\<lambda>subject. charge (env_dialect env) IP subject (ip_rate_limit s) (env_now env))
      else giving ())"

definition charge_endpoint :: "settings \<Rightarrow> submit_env \<Rightarrow> (nat \<Rightarrow> db \<Rightarrow> db) \<Rightarrow> pystr \<Rightarrow> (db, unit) handler" where
  "charge_endpoint s env other endpoint_id =
     (if cfg_rate_limit_enabled s
      then and_then (interrupted (other 1))
             (\<lambda>_. and_then (charge (env_dialect env) ENDPOINT endpoint_id (endpoint_rate_limit s) (env_now env))
             (\<lambda>_. and_then (interrupted (other 2))
             (\<lambda>_. sweep_old_windows s env)))
      else giving ())"

definition resolve_endpoint :: "pystr \<Rightarrow> (db, endpoint) handler" where
  "resolve_endpoint endpoint_id d =
     (case get_endpoint d endpoint_id of
        None \<Rightarrow> (Inl (Api (endpoint_not_found endpoint_id)), d)
      | Some e \<Rightarrow> (Inr e, d))"

fun raised_store :: "store_error \<Rightarrow> raised" where
  "raised_store (IdempotencyKeyReused e key) =
     Api (idempotency_conflict e (case key of None \<Rightarrow> lit ''None'' | Some k \<Rightarrow> k))"
| "raised_store (StoreRaised e) = raised_exn e"

definition endpoint_webhook :: "endpoint \<Rightarrow> webhook_target option" where
  "endpoint_webhook e =
     (case (ep_webhook_url e, ep_webhook_secret e) of
        (Some url, Some secret) \<Rightarrow> Some \<lparr>target_url = url, target_secret = secret\<rparr>
      | _ \<Rightarrow> None)"

definition key_fingerprint :: "pystr option \<Rightarrow> submission \<Rightarrow> raised + pystr option" where
  "key_fingerprint key sub =
     (if key = None then Inr None
      else (case payload_fingerprint (sub_fields sub) of Inl e \<Rightarrow> Inl (raised_exn e) | Inr h \<Rightarrow> Inr (Some h)))"

definition acknowledge :: "stored_submission \<Rightarrow> submission_accepted" where
  "acknowledge st =
     \<lparr>acc_submission_id = sub_id (ss_submission st), acc_endpoint_id = sub_endpoint_id (ss_submission st),
      acc_received_at = sub_received_at (ss_submission st), acc_field_count = field_count (sub_fields (ss_submission st)),
      acc_idempotent_replay = ss_replayed st, acc_delivery_queued = ss_delivery_queued st\<rparr>"

definition store_accepted ::
  "submit_env \<Rightarrow> (nat \<Rightarrow> db \<Rightarrow> db) \<Rightarrow> webhook_target option \<Rightarrow> pystr option \<Rightarrow> submission \<Rightarrow> (db, submission_accepted) handler" where
  "store_accepted env other webhook key sub =
     and_then (or_raise (key_fingerprint key sub))
       (\<lambda>fingerprint d.
          (case store_submission (other 4) (other 5) (env_delivery_hex env) sub (sub_received_at sub) key fingerprint webhook d of
             (Inl e, d') \<Rightarrow> (Inl (raised_store e), d')
           | (Inr st, d') \<Rightarrow> (Inr (acknowledge st), d')))"

definition take_body ::
  "settings \<Rightarrow> submit_env \<Rightarrow> (nat \<Rightarrow> db \<Rightarrow> db) \<Rightarrow> form_parser \<Rightarrow> submit_request \<Rightarrow> endpoint \<Rightarrow> (db, submission_accepted) handler" where
  "take_body s env other parse rq e =
     (let media = media_type (rq_content_type rq)
      in guarded (media \<in> set supported_media_types) (Api (unsupported_media_type media))
           (and_then (or_raise (idempotency_key_of rq))
             (\<lambda>key. and_then (or_raise (parse_form parse media rq))
             (\<lambda>items. and_then (or_raise (checked_submission s env (rq_endpoint_id rq) items))
             (\<lambda>sub. and_then (interrupted (other 3))
             (\<lambda>_. store_accepted env other (endpoint_webhook e) key sub))))))"

definition submit ::
  "settings \<Rightarrow> submit_env \<Rightarrow> (nat \<Rightarrow> db \<Rightarrow> db) \<Rightarrow> form_parser \<Rightarrow> submit_request \<Rightarrow> (db, submission_accepted) handler" where
  "submit s env other parse rq =
     and_then (charge_address s env rq)
       (\<lambda>_. guarded (is_valid_endpoint_id (rq_endpoint_id rq)) (Api invalid_endpoint_id)
         (and_then (interrupted (other 0))
           (\<lambda>_. and_then (resolve_endpoint (rq_endpoint_id rq))
           (\<lambda>e. and_then (charge_endpoint s env other (rq_endpoint_id rq))
           (\<lambda>_. guarded (ep_is_active e) (Api (endpoint_inactive (rq_endpoint_id rq)))
             (take_body s env other parse rq e))))))"

end
