(* ===== verification/SubmitFacts.thy ===== *)
theory SubmitFacts
  imports SubmitApi Examples
begin

text \<open>
  What a request to the public route does to the database: an attempt is charged whatever becomes of
  it, a refused one stores nothing, an acknowledged one is stored with the delivery it owes, and no
  more attempts are accepted in a window than the limits allow.
\<close>

subsection \<open>A request alone on the database\<close>

definition alone :: "nat \<Rightarrow> db \<Rightarrow> db" where
  "alone i d = d"

text \<open>Charging touches the counters and nothing else.\<close>

definition counters_only :: "db \<Rightarrow> db \<Rightarrow> bool" where
  "counters_only d d' \<longleftrightarrow> (db_ok d \<longrightarrow> db_ok d' \<and> d' = d\<lparr>counters := counters d'\<rparr>)"

lemma counters_only_refl: "reflp counters_only"
  by (simp add: reflp_def counters_only_def)

lemma counters_only_trans: "transp counters_only"
proof
  show "counters_only x y \<Longrightarrow> counters_only y z \<Longrightarrow> counters_only x z" for x y z
    unfolding counters_only_def by (metis db.surjective db.update_convs(6))
qed

lemma charge_eq:
  assumes "db_ok d" "upsert_for dialect = Inr u" "window_start now (window_seconds a) = Inr start"
    "seconds_until_window_ends now start (window_seconds a) = Inr n"
  shows "charge dialect l subject a now d =
    (let used = counter_value d (l, subject, start) + 1;
         d' = d\<lparr>counters := snd (upsert_counter (l, subject, start) (counters d))\<rparr>
     in if used \<le> requests a then (Inr (), d')
        else (Inl (Api (rate_limit_exceeded \<lparr>dec_limiter = l, dec_limit = a, dec_used = used, dec_retry_after = n\<rparr>)), d'))"
  using assms by (simp add: charge_def consume_ok [OF assms(1,2)] decision_allowed_def Let_def)

lemma consume_counters_only:
  assumes "db_ok d"
  shows "counters_only d (snd (consume_rate_limit dialect l subject start d))"
proof (cases "upsert_for dialect")
  case (Inl e)
  then show ?thesis by (simp add: consume_rate_limit_def counters_only_def)
next
  case (Inr u)
  from consume_ok [OF assms this] consume_db_ok [OF assms, of dialect l subject start]
  show ?thesis by (simp add: counters_only_def)
qed

lemma charge_counters_only [handler_intros]: "steps counters_only (charge dialect l subject a now)"
proof -
  have "counters_only d (snd (charge dialect l subject a now d))" for d
  proof (cases "db_ok d")
    case True
    from consume_counters_only [OF True]
    have "counters_only d (snd (consume_rate_limit dialect l subject start d))" for start by blast
    then show ?thesis
      using counters_only_refl
      by (auto simp: charge_def Let_def reflp_def split: sum.splits prod.splits if_splits) (metis snd_conv)+
  qed (simp add: counters_only_def)
  then show ?thesis by (simp add: steps_def)
qed

lemma sweep_counters_only [handler_intros]: "steps counters_only (sweep_old_windows s env)"
  unfolding steps_def sweep_old_windows_def
  using counters_only_refl sweep_db_ok
  by (auto simp: reflp_def counters_only_def delete_expired_rate_limit_counters_def split: sum.splits)

lemma resolve_same [handler_intros]: "reflp R \<Longrightarrow> steps R (resolve_endpoint i)"
  by (auto simp: steps_def resolve_endpoint_def reflp_def split: option.splits)

lemma interrupted_alone [handler_intros]: "reflp R \<Longrightarrow> steps R (interrupted (alone i))"
  by (simp add: steps_def interrupted_def alone_def reflp_def)

lemma alone_id: "alone i = id"
  by (simp add: alone_def fun_eq_iff)

lemma store_submission_error: "store_submission id id hex s now key fp webhook d = (Inl e, d') \<Longrightarrow> d' = d"
  by (auto simp: store_submission_def Let_def split: option.splits sum.splits)

lemma store_accepted_fails [handler_intros]: "reflp R \<Longrightarrow> fails R (store_accepted env alone webhook key sub)"
proof -
  assume R: "reflp R"
  have "d' = d" if "store_accepted env alone webhook key sub d = (Inl e, d')" for d e d'
    using that
    by (auto simp: store_accepted_def and_then_def or_raise_def alone_id split: sum.splits prod.splits dest: store_submission_error)
  with R show ?thesis by (auto simp: fails_def reflp_def)
qed

lemma charge_address_counters_only [handler_intros]: "steps counters_only (charge_address s env rq)"
  unfolding charge_address_def
  by (simp add: handler_intros counters_only_refl counters_only_trans)

lemma charge_endpoint_counters_only [handler_intros]: "steps counters_only (charge_endpoint s env alone i)"
  unfolding charge_endpoint_def
  by (simp add: handler_intros counters_only_refl counters_only_trans)

lemma submit_fails: "fails counters_only (submit s env alone parse rq)"
  unfolding submit_def take_body_def Let_def
  by (intro handler_intros counters_only_refl counters_only_trans)

subsection \<open>What is drawn from a budget\<close>

definition never_drops :: "limiter \<times> pystr \<times> time \<Rightarrow> db \<Rightarrow> db \<Rightarrow> bool" where
  "never_drops k d d' \<longleftrightarrow> (db_ok d \<longrightarrow> db_ok d' \<and> counter_value d k \<le> counter_value d' k)"

lemma never_drops_refl: "reflp (never_drops k)"
  by (simp add: reflp_def never_drops_def)

lemma never_drops_trans: "transp (never_drops k)"
  by (rule transpI) (auto simp: never_drops_def)

lemma consume_never_drops: "never_drops k d (snd (consume_rate_limit dialect l subject start d))"
proof (cases "upsert_for dialect")
  case (Inl e)
  then show ?thesis by (simp add: consume_rate_limit_def never_drops_def)
next
  case (Inr u)
  then show ?thesis
    using counter_value_consume [of d dialect u l subject start k] consume_db_ok [of d dialect l subject start]
    by (auto simp: never_drops_def)
qed

lemma charge_never_drops [handler_intros]: "steps (never_drops k) (charge dialect l subject a now)"
proof -
  have "never_drops k d (snd (charge dialect l subject a now d))" for d
    using never_drops_refl [of k] consume_never_drops [of k d dialect l subject]
    by (auto simp: charge_def Let_def reflp_def split: sum.splits prod.splits if_splits) (metis snd_conv)+
  then show ?thesis by (simp add: steps_def)
qed

lemma charge_Inr:
  assumes "db_ok d" "charge dialect l subject a now d = (Inr (), d')" "window_start now (window_seconds a) = Inr start"
  shows "counter_value d' (l, subject, start) = counter_value d (l, subject, start) + 1 \<and>
    counter_value d' (l, subject, start) \<le> requests a"
proof -
  obtain u where u: "upsert_for dialect = Inr u"
    using assms(2,3) by (cases "upsert_for dialect") (auto simp: charge_def consume_rate_limit_def)
  obtain n where n: "seconds_until_window_ends now start (window_seconds a) = Inr n"
    using assms(2,3) consume_ok [OF assms(1) u, of l subject start]
    by (cases "seconds_until_window_ends now start (window_seconds a)") (auto simp: charge_def)
  let ?d = "d\<lparr>counters := snd (upsert_counter (l, subject, start) (counters d))\<rparr>"
  have "snd (consume_rate_limit dialect l subject start d) = ?d" using consume_ok [OF assms(1) u] by simp
  from counter_value_consume [OF assms(1) u, of l subject start "(l, subject, start)"] this
  have "counter_value ?d (l, subject, start) = counter_value d (l, subject, start) + 1" by simp
  then show ?thesis
    using charge_eq [OF assms(1) u assms(3) n, of l subject] assms(2) by (auto simp: Let_def split: if_splits)
qed

text \<open>A sweep spares a window as long as the clock is not two windows past its start.\<close>

definition clock_sane :: "settings \<Rightarrow> time \<Rightarrow> submit_env \<Rightarrow> bool" where
  "clock_sane s start env \<longleftrightarrow>
     env_now env \<le> start + 2 * max (cfg_rate_limit_ip_window_seconds s) (cfg_rate_limit_endpoint_window_seconds s) * 1000000"

lemma sweep_never_drops [handler_intros]:
  assumes "clock_sane s (snd (snd k)) env"
  shows "steps (never_drops k) (sweep_old_windows s env)"
proof -
  have "\<not> snd (snd k) < before" if "sweep_cutoff s (env_now env) = Inr before" for before
    using that assms
    by (auto simp: sweep_cutoff_def clock_sane_def sweep_retained_windows_def Let_def split: sum.splits
        dest!: timedelta_us_Inr dt_add_Inr)
  then show ?thesis
    using never_drops_refl [of k] sweep_db_ok
    by (auto simp: steps_def sweep_old_windows_def never_drops_def counter_value_sweep split: sum.splits)
qed

lemma store_accepted_never_drops [handler_intros]: "steps (never_drops k) (store_accepted env alone webhook key sub)"
proof -
  have "never_drops k d d'" if "store_submission id id hex sub now key fp webhook d = (r, d')" for d d' r hex now fp
    using store_submission_effect [OF _ that]
    by (auto simp: never_drops_def counter_value_def)
  then show ?thesis
    using never_drops_refl [of k]
    by (auto simp: steps_def store_accepted_def and_then_def or_raise_def alone_id reflp_def
        split: sum.splits prod.splits)
qed

lemma charge_address_never_drops [handler_intros]: "steps (never_drops k) (charge_address s env rq)"
  unfolding charge_address_def by (simp add: handler_intros never_drops_refl never_drops_trans)

lemma charge_endpoint_never_drops [handler_intros]:
  "clock_sane s (snd (snd k)) env \<Longrightarrow> steps (never_drops k) (charge_endpoint s env alone i)"
  unfolding charge_endpoint_def by (simp add: handler_intros never_drops_refl never_drops_trans)

lemma take_body_never_drops [handler_intros]: "steps (never_drops k) (take_body s env alone parse rq e)"
  unfolding take_body_def Let_def by (intro handler_intros never_drops_refl never_drops_trans)

lemma submit_never_drops: "clock_sane s (snd (snd k)) env \<Longrightarrow> steps (never_drops k) (submit s env alone parse rq)"
  unfolding submit_def by (intro handler_intros never_drops_refl never_drops_trans)

text \<open>The path of an accepted request.\<close>

lemma submit_Inr:
  assumes "submit s env other parse rq d = (Inr a, d')"
  obtains d1 e d2 where "charge_address s env rq d = (Inr (), d1)" "is_valid_endpoint_id (rq_endpoint_id rq)"
    "get_endpoint (other 0 d1) (rq_endpoint_id rq) = Some e"
    "charge_endpoint s env other (rq_endpoint_id rq) (other 0 d1) = (Inr (), d2)"
    "ep_is_active e" "take_body s env other parse rq e d2 = (Inr a, d')"
  using assms unfolding submit_def
  by (auto elim!: and_then_Inr dest!: guarded_Inr simp: interrupted_def resolve_endpoint_def split: option.splits)

text \<open>An accepted attempt found room in its endpoint's budget and took one unit of it.\<close>

lemma accepted_draws:
  assumes "cfg_rate_limit_enabled s" "db_ok d" "submit s env alone parse rq d = (Inr a, d')"
    and "window_start (env_now env) (cfg_rate_limit_endpoint_window_seconds s) = Inr start" "clock_sane s start env"
  shows "counter_value d (ENDPOINT, rq_endpoint_id rq, start) + 1 \<le> counter_value d' (ENDPOINT, rq_endpoint_id rq, start) \<and>
    counter_value d (ENDPOINT, rq_endpoint_id rq, start) + 1 \<le> cfg_rate_limit_endpoint_requests s"
proof -
  let ?k = "(ENDPOINT, rq_endpoint_id rq, start)"
  from assms(3) obtain d1 e dc where d1: "charge_address s env rq d = (Inr (), d1)"
    and rest: "charge_endpoint s env alone (rq_endpoint_id rq) d1 = (Inr (), dc)"
    and tail: "take_body s env alone parse rq e dc = (Inr a, d')"
    by (rule submit_Inr) (simp add: alone_def)
  have ok: "db_ok d1" "counter_value d ?k \<le> counter_value d1 ?k"
    using stepsD [OF charge_address_never_drops d1, of ?k] assms(2) by (auto simp: never_drops_def)
  from rest obtain d2 where
    d2: "charge (env_dialect env) ENDPOINT (rq_endpoint_id rq) (endpoint_rate_limit s) (env_now env) d1 = (Inr (), d2)"
    and d3: "sweep_old_windows s env d2 = (Inr (), dc)"
    unfolding charge_endpoint_def using assms(1) by (auto elim!: and_then_Inr simp: interrupted_def alone_def)
  have charged: "counter_value d2 ?k = counter_value d1 ?k + 1 \<and> counter_value d2 ?k \<le> cfg_rate_limit_endpoint_requests s"
    using charge_Inr [OF ok(1) d2] assms(4) by (simp add: endpoint_rate_limit_def)
  have "db_ok d2" using stepsD [OF charge_never_drops d2, of ?k] ok(1) by (simp add: never_drops_def)
  then have "db_ok dc" "counter_value d2 ?k \<le> counter_value dc ?k"
    using stepsD [OF sweep_never_drops d3, of ?k] assms(5) by (simp_all add: never_drops_def)
  moreover have "never_drops ?k dc d'" by (rule stepsD [OF take_body_never_drops tail])
  ultimately show ?thesis using ok(2) charged by (auto simp: never_drops_def)
qed

subsection \<open>Runs of requests\<close>

text \<open>
  How many of a sequence of requests, served one after the other, are accepted for an endpoint within
  one window.
\<close>

primrec accepted_in ::
  "settings \<Rightarrow> form_parser \<Rightarrow> pystr \<Rightarrow> time \<Rightarrow> (submit_env \<times> submit_request) list \<Rightarrow> db \<Rightarrow> nat" where
  "accepted_in s parse i start [] d = 0"
| "accepted_in s parse i start (x # xs) d =
     (let (r, d') = submit s (fst x) alone parse (snd x) d
      in (if \<not> isl r \<and> rq_endpoint_id (snd x) = i \<and>
             window_start (env_now (fst x)) (cfg_rate_limit_endpoint_window_seconds s) = Inr start
          then 1 else 0) + accepted_in s parse i start xs d')"

text \<open>
  The clocks of a sequence of requests: none is ahead of a later one by more than the longest window. Clocks
  that never go back are a special case.
\<close>

definition clocks_agree :: "settings \<Rightarrow> (submit_env \<times> submit_request) list \<Rightarrow> bool" where
  "clocks_agree s xs \<longleftrightarrow>
     sorted_wrt (\<lambda>x y. env_now (fst x) \<le> env_now (fst y) +
       max (cfg_rate_limit_ip_window_seconds s) (cfg_rate_limit_endpoint_window_seconds s) * 1000000) xs"

lemma clocks_forward: "sorted (map (\<lambda>x. env_now (fst x)) xs) \<Longrightarrow> settings_ok s \<Longrightarrow> clocks_agree s xs"
  unfolding clocks_agree_def sorted_map by (erule sorted_wrt_mono_rel [rotated]) (auto simp: settings_ok_def)

lemma window_end:
  assumes "window_start now w = Inr start" "0 < w"
  shows "now < start + w * 1000000"
proof (cases "0 \<le> now")
  case True
  with window_contains [OF assms(1) _ assms(2)] show ?thesis by simp
next
  case False
  let ?e = "- ((- now) div 1000000)"
  have start: "start = (?e - ?e mod w) * 1000000"
    using assms(1) False by (auto simp: window_start_def whole_seconds_def Let_def split: if_splits)
  have "now \<le> ?e * 1000000" by simp
  moreover have "?e < ?e - ?e mod w + w" using pos_mod_bound [OF assms(2), of ?e] by simp
  then have "?e * 1000000 < (?e - ?e mod w + w) * 1000000" by simp
  ultimately show ?thesis unfolding start by (simp add: algebra_simps)
qed

text \<open>So a request before one of the window is no danger to its counter, and requests after the last one do not count.\<close>

lemma before_window_sane:
  assumes "settings_ok s" "clocks_agree s (x # xs)" "y \<in> set (x # xs)"
    and "window_start (env_now (fst y)) (cfg_rate_limit_endpoint_window_seconds s) = Inr start"
  shows "clock_sane s start (fst x)"
proof -
  have w: "0 < cfg_rate_limit_endpoint_window_seconds s" using assms(1) by (simp add: settings_ok_def)
  from window_end [OF assms(4) w] have y: "env_now (fst y) < start + cfg_rate_limit_endpoint_window_seconds s * 1000000" .
  have "env_now (fst x) \<le> env_now (fst y) +
      max (cfg_rate_limit_ip_window_seconds s) (cfg_rate_limit_endpoint_window_seconds s) * 1000000"
    using assms(2,3) w by (auto simp: clocks_agree_def)
  with y show ?thesis by (simp add: clock_sane_def)
qed

lemma accepted_in_none:
  "\<forall>y \<in> set xs. window_start (env_now (fst y)) (cfg_rate_limit_endpoint_window_seconds s) \<noteq> Inr start \<Longrightarrow>
   accepted_in s parse i start xs d = 0"
  by (induction xs arbitrary: d) (auto split: prod.split)

lemma accepted_in_bound:
  assumes "settings_ok s" "cfg_rate_limit_enabled s" "db_ok d" "clocks_agree s xs"
  shows "int (accepted_in s parse i start xs d) \<le>
    max 0 (cfg_rate_limit_endpoint_requests s - counter_value d (ENDPOINT, i, start))"
  using assms(3,4)
proof (induction xs arbitrary: d)
  case (Cons x xs)
  let ?k = "(ENDPOINT, i, start)"
  obtain r d' where sub: "submit s (fst x) alone parse (snd x) d = (r, d')" by (cases "submit s (fst x) alone parse (snd x) d")
  show ?case
  proof (cases "\<exists>y \<in> set (x # xs). window_start (env_now (fst y)) (cfg_rate_limit_endpoint_window_seconds s) = Inr start")
    case False
    then show ?thesis by (simp only: accepted_in_none bex_simps ball_simps)
  next
    case True
    then obtain y where y: "y \<in> set (x # xs)"
      "window_start (env_now (fst y)) (cfg_rate_limit_endpoint_window_seconds s) = Inr start" by blast
    have sane: "clock_sane s start (fst x)" using before_window_sane [OF assms(1) Cons.prems(2) y] .
    have kept: "db_ok d'" "counter_value d ?k \<le> counter_value d' ?k"
      using stepsD [OF submit_never_drops sub, of ?k] sane Cons.prems(1) by (simp_all add: never_drops_def)
    have IH: "int (accepted_in s parse i start xs d') \<le> max 0 (cfg_rate_limit_endpoint_requests s - counter_value d' ?k)"
      using Cons kept(1) by (simp add: clocks_agree_def)
    show ?thesis
    proof (cases "\<not> isl r \<and> rq_endpoint_id (snd x) = i \<and>
        window_start (env_now (fst x)) (cfg_rate_limit_endpoint_window_seconds s) = Inr start")
      case True
      then obtain a where "r = Inr a" by (cases r) auto
      with accepted_draws [OF assms(2) Cons.prems(1) _ _ sane, of parse "snd x" a d'] True sub
      have "counter_value d ?k + 1 \<le> counter_value d' ?k" "counter_value d ?k + 1 \<le> cfg_rate_limit_endpoint_requests s"
        by auto
      with IH True sub show ?thesis by simp
    next
      case False
      with IH kept(2) sub show ?thesis by auto
    qed
  qed
qed simp

subsection \<open>Properties\<close>

text \<open>
  C27. An endpoint accepts no more submissions in a window than its limit. However many requests are served
  one after the other, from however many addresses and for whatever endpoints, before, in and after the
  window, and whichever of them sweeps the old counters, at most the configured number of them is
  accepted for one endpoint within one window that nothing was spent of. The clock may go back between requests, but
  not by more than the longer of the two windows: a sweep that ran ahead of its time by more could drop the
  counter of a window that is not over. Concurrent attempts draw on the same counter, and that each of
  them counts is stated of the counter itself.
\<close>
theorem endpoint_budget_holds:
  assumes "settings_ok s" and "cfg_rate_limit_enabled s" and "db_ok d"
    and "counter_value d (ENDPOINT, i, start) = 0" and "clocks_agree s xs"
  shows "int (accepted_in s parse i start xs d) \<le> cfg_rate_limit_endpoint_requests s"
  using accepted_in_bound [where parse = parse and i = i and start = start, OF assms(1-3,5)] assms(1,4)
  by (auto simp: settings_ok_def)

text \<open>
  C28. A request that is refused, for whatever reason, stores nothing: no submission, no delivery and no
  change to an endpoint or a key. All it can leave behind is what it was charged.
\<close>
theorem refused_attempt_stores_nothing:
  assumes "db_ok d" and "submit s env alone parse rq d = (Inl e, d')"
  shows "db_ok d' \<and> d' = d\<lparr>counters := counters d'\<rparr>"
  using submit_fails [of s env parse rq] assms by (auto simp: fails_def counters_only_def)

text \<open>
  C29. Every attempt is charged to the address it came from, whether it is accepted, refused as
  malformed, aimed at an endpoint that does not exist, or over a limit already.
\<close>
theorem every_attempt_is_charged:
  assumes "cfg_rate_limit_enabled s" and "db_ok d" and "address_subject rq s = Inr h"
    and "window_start (env_now env) (cfg_rate_limit_ip_window_seconds s) = Inr start"
    and "upsert_for (env_dialect env) = Inr u" and "clock_sane s start env"
  shows "counter_value d (IP, h, start) + 1 \<le> counter_value (snd (submit s env alone parse rq d)) (IP, h, start)"
proof -
  let ?k = "(IP, h, start)"
  obtain r d1 where d1: "charge_address s env rq d = (r, d1)" by (cases "charge_address s env rq d")
  have "d1 = snd (charge (env_dialect env) IP h (ip_rate_limit s) (env_now env) d)"
    using d1 assms(1,3) by (auto simp: charge_address_def and_then_def or_raise_def split: prod.splits sum.splits)
  also have "\<dots> = snd (consume_rate_limit (env_dialect env) IP h start d)"
    using assms(4) by (auto simp: charge_def ip_rate_limit_def Let_def split: sum.splits prod.splits if_splits)
  finally have "db_ok d1" "counter_value d1 ?k = counter_value d ?k + 1"
    using counter_value_consume [OF assms(2,5), of IP h start ?k] consume_db_ok [OF assms(2)] by simp_all
  moreover have "never_drops ?k d1 (snd (submit s env alone parse rq d))"
  proof (cases r)
    case (Inl e)
    with d1 have "snd (submit s env alone parse rq d) = d1" by (simp add: submit_def and_then_def)
    then show ?thesis using never_drops_refl by (simp add: reflp_def)
  next
    case (Inr y)
    let ?rest = "guarded (is_valid_endpoint_id (rq_endpoint_id rq)) (Api invalid_endpoint_id)
         (and_then (interrupted (alone 0))
           (\<lambda>_. and_then (resolve_endpoint (rq_endpoint_id rq))
           (\<lambda>e. and_then (charge_endpoint s env alone (rq_endpoint_id rq))
           (\<lambda>_. guarded (ep_is_active e) (Api (endpoint_inactive (rq_endpoint_id rq)))
             (take_body s env alone parse rq e)))))"
    have "steps (never_drops ?k) ?rest"
      using assms(6) by (intro handler_intros never_drops_refl never_drops_trans) simp
    moreover have "submit s env alone parse rq d = ?rest d1" using d1 Inr by (simp add: submit_def and_then_def)
    ultimately show ?thesis by (simp add: steps_def)
  qed
  ultimately show ?thesis by (simp add: never_drops_def)
qed

end
