(* ===== verification/SubmitTheorems.thy ===== *)
theory SubmitTheorems
  imports SubmitFacts
begin

text \<open>
  More properties of the public route: what an acknowledgement promises, what a refusal for the rate
  limit tells the client, and that guessing endpoint identifiers creates no counters. Then the examples
  on which the properties of the route are exercised.
\<close>

subsection \<open>What is stored\<close>

lemma form_items_Inr: "form_items xs = Inr items \<Longrightarrow> xs = map (\<lambda>(n, v). (n, FieldValue v)) items"
  by (induction xs arbitrary: items rule: form_items.induct) (auto split: sum.splits)

definition keeps_ok :: "db \<Rightarrow> db \<Rightarrow> bool" where
  "keeps_ok d d' \<longleftrightarrow> (db_ok d \<longrightarrow> db_ok d')"

lemma keeps_ok_refl: "reflp keeps_ok"
  by (simp add: reflp_def keeps_ok_def)

lemma keeps_ok_trans: "transp keeps_ok"
  by (rule transpI) (simp add: keeps_ok_def)

lemma counters_only_keeps: "steps counters_only h \<Longrightarrow> steps keeps_ok h"
  by (auto simp: steps_def counters_only_def keeps_ok_def)

lemma charge_endpoint_keeps_ok:
  assumes "\<And>i x. db_ok x \<Longrightarrow> db_ok (other i x)"
  shows "steps keeps_ok (charge_endpoint s env other i)"
proof -
  have "steps keeps_ok (interrupted (other n))" for n
    using assms by (simp add: steps_def interrupted_def keeps_ok_def)
  then show ?thesis
    unfolding charge_endpoint_def
    by (simp add: steps_and_then steps_basics keeps_ok_refl keeps_ok_trans counters_only_keeps
        charge_counters_only sweep_counters_only)
qed

lemma take_body_Inr:
  assumes "take_body s env other parse rq e d = (Inr a, d')"
  obtains key items sub fp st where
    "idempotency_key_of rq = Inr key" "parse_form parse (media_type (rq_content_type rq)) rq = Inr items"
    "checked_submission s env (rq_endpoint_id rq) items = Inr sub" "key_fingerprint key sub = Inr fp"
    "store_submission (other 4) (other 5) (env_delivery_hex env) sub (sub_received_at sub) key fp (endpoint_webhook e) (other 3 d) = (Inr st, d')"
    "a = acknowledge st"
  using assms unfolding take_body_def Let_def store_accepted_def
  by (auto elim!: and_then_Inr dest!: guarded_Inr simp: interrupted_def or_raise_def split: sum.splits prod.splits)

text \<open>
  C26. An acknowledged submission is stored. Whatever other clients do meanwhile, when the answer is a
  202 the database holds the submission it names, for the endpoint it was sent to, with as many values
  as it reports; the answer says a delivery is queued exactly when one is; and unless it is a replay the
  stored fields are those of the form, every value under its name in the order it was sent.
\<close>
theorem acknowledged_is_stored:
  assumes "db_ok d" and "\<And>i x. db_ok x \<Longrightarrow> db_ok (other i x)" and "submit s env other parse rq d = (Inr a, d')"
  shows "db_ok d' \<and> acc_endpoint_id a = rq_endpoint_id rq \<and>
    (\<exists>row \<in> set (submissions d').
       sub_id row = acc_submission_id a \<and> sub_endpoint_id row = rq_endpoint_id rq \<and>
       sub_received_at row = acc_received_at a \<and> field_count (sub_fields row) = acc_field_count a \<and>
       (acc_delivery_queued a \<longleftrightarrow> owes_delivery d' (sub_id row)) \<and>
       (\<not> acc_idempotent_replay a \<longrightarrow>
         (\<exists>items. parse (media_type (rq_content_type rq)) rq = Inr (map (\<lambda>(n, v). (n, FieldValue v)) items) \<and>
            sub_fields row = grouped items)))"
proof -
  from assms(3) obtain d1 e d2 where d1: "charge_address s env rq d = (Inr (), d1)"
    and d2: "charge_endpoint s env other (rq_endpoint_id rq) (other 0 d1) = (Inr (), d2)"
    and body: "take_body s env other parse rq e d2 = (Inr a, d')" by (rule submit_Inr)
  have "db_ok d1" using stepsD [OF charge_address_counters_only d1] assms(1) by (simp add: counters_only_def)
  then have ok: "db_ok (other 3 d2)"
    using stepsD [OF charge_endpoint_keeps_ok [where other = other] d2] assms(2) by (simp add: keeps_ok_def)
  from body obtain key items sub fp st where
    items: "parse_form parse (media_type (rq_content_type rq)) rq = Inr items"
    and sub: "checked_submission s env (rq_endpoint_id rq) items = Inr sub"
    and store: "store_submission (other 4) (other 5) (env_delivery_hex env) sub (sub_received_at sub) key fp (endpoint_webhook e) (other 3 d2) = (Inr st, d')"
    and a: "a = acknowledge st" by (rule take_body_Inr)
  have form: "parse (media_type (rq_content_type rq)) rq = Inr (map (\<lambda>(n, v). (n, FieldValue v)) items)"
    using items by (auto simp: parse_form_def split: sum.splits dest: form_items_Inr)
  have fields: "sub_fields sub = grouped items" "sub_endpoint_id sub = rq_endpoint_id rq"
    using sub by (auto simp: checked_submission_def build_submission_Inr_iff split: sum.splits)
  have "db_ok d' \<and> (\<exists>row \<in> set (submissions d'). to_domain row = ss_submission st \<and> sub_endpoint_id row = rq_endpoint_id rq \<and>
      ss_delivery_queued st = owes_delivery d' (sub_id row) \<and> (\<not> ss_replayed st \<longrightarrow> ss_submission st = sub))"
  proof (cases key)
    case None
    let ?d = "add_submission (env_delivery_hex env) sub (sub_received_at sub) (endpoint_webhook e) None None (other 3 d2)"
    from store None have d': "d' = ?d" "db_ok d'" and st: "st = accepted sub (endpoint_webhook e)"
      by (auto simp: store_submission_def commit_db_Some split: option.splits)
    have "owes_delivery d' (sub_id sub) \<longleftrightarrow> endpoint_webhook e \<noteq> None"
      using owes_delivery_add [OF ok, of "env_delivery_hex env" sub "sub_received_at sub" "endpoint_webhook e" None None] d' by simp
    then show ?thesis using d' st fields
      by (auto simp: accepted_def intro!: bexI [of _ "from_domain sub None None"])
  next
    case (Some k)
    from keyed_store_effect [OF ok, of "other 4" "other 5"] assms(2) store Some
    have "db_ok d'" and "\<exists>row. filter (keyed (sub_endpoint_id sub) k) (submissions d') = [row] \<and>
        to_domain row = ss_submission st \<and> ss_delivery_queued st = owes_delivery d' (sub_id row) \<and>
        (\<not> ss_replayed st \<longrightarrow> ss_submission st = sub)" by blast+
    then obtain row where row: "filter (keyed (sub_endpoint_id sub) k) (submissions d') = [row]"
      "to_domain row = ss_submission st" "ss_delivery_queued st = owes_delivery d' (sub_id row)"
      "\<not> ss_replayed st \<longrightarrow> ss_submission st = sub" by blast
    then have "row \<in> set (submissions d')" "sub_endpoint_id row = sub_endpoint_id sub"
      by (auto simp: filter_eq_Cons_iff keyed_def)
    with row \<open>db_ok d'\<close> fields show ?thesis by auto
  qed
  then obtain row where row: "db_ok d'" "row \<in> set (submissions d')" "to_domain row = ss_submission st"
    "sub_endpoint_id row = rq_endpoint_id rq" "ss_delivery_queued st = owes_delivery d' (sub_id row)"
    "\<not> ss_replayed st \<longrightarrow> ss_submission st = sub" by blast
  have same: "sub_id row = sub_id (ss_submission st)" "sub_received_at row = sub_received_at (ss_submission st)"
    "sub_fields row = sub_fields (ss_submission st)" "sub_endpoint_id (ss_submission st) = sub_endpoint_id row"
    using arg_cong [OF row(3), of sub_id] arg_cong [OF row(3), of sub_received_at]
      arg_cong [OF row(3), of sub_fields] arg_cong [OF row(3), of sub_endpoint_id] by simp_all
  show ?thesis
    using row form fields by (intro conjI bexI [OF _ row(2)]) (auto simp: a acknowledge_def same)
qed

subsection \<open>When to come back\<close>

text \<open>
  C36. A refusal for the rate limit is a 429 that says how long to wait: between one second and the
  length of the window, and a client that waits that long finds a window it has not spent anything in.
\<close>
theorem refusal_tells_when:
  assumes "charge dialect l subject a now d = (Inl (Api e), d')" and "0 \<le> now" and "1 \<le> window_seconds a"
  shows "\<exists>n. err_status e = 429 \<and> ans_headers (as_response e) = [(lit ''Retry-After'', str_of_int n)] \<and>
    1 \<le> n \<and> n \<le> window_seconds a \<and>
    (\<forall>later start start'. now + n * 1000000 \<le> later \<and> window_start now (window_seconds a) = Inr start \<and>
       window_start later (window_seconds a) = Inr start' \<longrightarrow> start < start')"
proof -
  from assms(1) obtain start used n where start: "window_start now (window_seconds a) = Inr start"
    and n: "seconds_until_window_ends now start (window_seconds a) = Inr n"
    and e: "e = rate_limit_exceeded \<lparr>dec_limiter = l, dec_limit = a, dec_used = used, dec_retry_after = n\<rparr>"
    by (auto simp: charge_def Let_def raised_exn_def split: sum.splits prod.splits if_splits elim!: raised_counter.elims)
  have "start \<le> now" using window_contains [OF start assms(2)] assms(3) by simp
  from seconds_until_bounds [OF n this assms(3)] have bounds: "1 \<le> n" "n \<le> window_seconds a" by simp_all
  have enough: "start + window_seconds a * 1000000 \<le> now + n * 1000000" by (rule seconds_until_enough [OF n])
  have "start < start'" if "now + n * 1000000 \<le> later" "window_start later (window_seconds a) = Inr start'" for later start'
    using window_contains [OF that(2)] that(1) enough assms(2,3) bounds(1) by linarith
  with start bounds e show ?thesis
    by (auto simp: rate_limit_exceeded_def as_response_def error_response_def)
qed

subsection \<open>Guessing\<close>

definition known_counters :: "db \<Rightarrow> bool" where
  "known_counters d \<longleftrightarrow> (\<forall>c\<in>set (counters d). rc_limiter c = ENDPOINT \<longrightarrow> rc_subject c \<in> ep_id ` set (endpoints d))"

text \<open>The endpoint \<open>i\<close>, if it was there, still is, and no counter of an unknown endpoint appeared.\<close>

definition endpoint_ids :: "db \<Rightarrow> pystr set" where
  "endpoint_ids d = ep_id ` set (endpoints d)"

definition stays_known :: "pystr option \<Rightarrow> db \<Rightarrow> db \<Rightarrow> bool" where
  "stays_known i d d' \<longleftrightarrow>
     (db_ok d \<and> known_counters d \<and> (case i of None \<Rightarrow> True | Some i \<Rightarrow> i \<in> endpoint_ids d) \<longrightarrow>
      db_ok d' \<and> known_counters d' \<and> endpoint_ids d \<subseteq> endpoint_ids d')"

text \<open>Other work on the database that breaks neither its constraints nor this, and deletes no endpoint.\<close>

definition keeps_known :: "(nat \<Rightarrow> db \<Rightarrow> db) \<Rightarrow> bool" where
  "keeps_known other \<longleftrightarrow> (\<forall>n d. stays_known None d (other n d))"

lemma stays_known_refl: "reflp (stays_known i)"
  by (simp add: reflp_def stays_known_def)

lemma stays_known_trans: "transp (stays_known i)"
  by (rule transpI) (auto simp: stays_known_def split: option.splits)

lemma stays_known_any: "stays_known None d d' \<Longrightarrow> stays_known i d d'"
  by (auto simp: stays_known_def)

lemma same_endpoints_known:
  "(db_ok d \<Longrightarrow> known_counters d \<Longrightarrow> db_ok d') \<Longrightarrow> endpoints d' = endpoints d \<Longrightarrow> counters d' = counters d \<Longrightarrow> stays_known i d d'"
  by (auto simp: stays_known_def known_counters_def endpoint_ids_def)

lemma upsert_subjects:
  "c \<in> set (snd (upsert_counter k cs)) \<Longrightarrow> rc_key c = k \<or> (\<exists>c' \<in> set cs. rc_key c = rc_key c')"
  by (auto simp: upsert_counter_def set_update_rows split: option.splits if_splits)

lemma consume_stays_known:
  assumes "l = IP \<or> i = Some subject"
  shows "stays_known i d (snd (consume_rate_limit dialect l subject start d))"
proof (cases "upsert_for dialect")
  case (Inl e)
  then show ?thesis by (simp add: consume_rate_limit_def stays_known_def)
next
  case (Inr u)
  have keys: "rc_limiter c = fst (rc_key c)" "rc_subject c = fst (snd (rc_key c))" for c by (simp_all add: rc_key_def)
  show ?thesis
  proof (cases "db_ok d")
    case True
    from consume_ok [OF True Inr, of l subject start] consume_db_ok [OF True, of dialect l subject start] assms
    show ?thesis
      by (auto simp: stays_known_def known_counters_def endpoint_ids_def keys split: option.splits dest!: upsert_subjects)
  qed (simp add: stays_known_def)
qed

lemma charge_stays_known:
  assumes "l = IP \<or> i = Some subject"
  shows "steps (stays_known i) (charge dialect l subject a now)"
proof -
  have "stays_known i d (snd (charge dialect l subject a now d))" for d
    using stays_known_refl [of i] consume_stays_known [OF assms, of d dialect]
    by (auto simp: charge_def Let_def reflp_def split: sum.splits prod.splits if_splits) (metis snd_conv)+
  then show ?thesis by (simp add: steps_def)
qed

lemma sweep_stays_known: "steps (stays_known i) (sweep_old_windows s env)"
  using stays_known_refl [of i] sweep_db_ok
  by (auto simp: steps_def sweep_old_windows_def stays_known_def known_counters_def endpoint_ids_def reflp_def
      delete_expired_rate_limit_counters_def split: sum.splits)

lemma store_submission_stays_known:
  assumes other: "\<And>x. stays_known None x (other x)" and later: "\<And>x. stays_known None x (later x)"
    and store: "store_submission other later hex sub now key fp webhook d = (r, d')"
  shows "stays_known None d d'"
proof -
  have add: "stays_known None x (add_submission hex sub now webhook k f x)" if "db_ok (add_submission hex sub now webhook k f x)" for x k f
    by (rule same_endpoints_known) (use that in simp_all)
  have refl: "stays_known None x x" for x using stays_known_refl by (simp add: reflp_def)
  have trans: "stays_known None x z" if "stays_known None x y" "stays_known None y z" for x y z
    using transpD [OF stays_known_trans that] .
  show ?thesis
  proof (cases key)
    case None
    with store refl add show ?thesis by (auto simp: store_submission_def commit_db_def split: if_splits)
  next
    case (Some k)
    have "d' \<in> {d, later (other d)} \<or> (\<exists>k f. d' = add_submission hex sub now webhook k f (other d) \<and> db_ok d')"
      using store Some by (auto simp: store_submission_def commit_db_def Let_def split: sum.splits option.splits if_splits)
    then show ?thesis using refl trans other later add by blast
  qed
qed

lemma store_accepted_stays_known: "keeps_known other \<Longrightarrow> steps (stays_known i) (store_accepted env other webhook key sub)"
proof -
  assume other: "keeps_known other"
  have "stays_known i d (snd (store_accepted env other webhook key sub d))" for d
  proof (cases "key_fingerprint key sub")
    case (Inl e)
    then show ?thesis using stays_known_refl [of i] by (simp add: store_accepted_def and_then_def or_raise_def reflp_def)
  next
    case (Inr fp)
    obtain r d' where run: "store_submission (other 4) (other 5) (env_delivery_hex env) sub (sub_received_at sub) key fp webhook d = (r, d')"
      by (cases "store_submission (other 4) (other 5) (env_delivery_hex env) sub (sub_received_at sub) key fp webhook d")
    have "snd (store_accepted env other webhook key sub d) = d'"
      using run Inr by (cases r) (simp_all add: store_accepted_def and_then_def or_raise_def)
    moreover have "stays_known None d d'"
      using store_submission_stays_known [OF _ _ run] other by (simp add: keeps_known_def)
    ultimately show ?thesis by (simp add: stays_known_any)
  qed
  then show ?thesis by (simp add: steps_def)
qed

lemma interrupted_stays_known: "keeps_known other \<Longrightarrow> steps (stays_known i) (interrupted (other n))"
  by (simp add: steps_def interrupted_def keeps_known_def stays_known_any)

lemma after_lookup_stays_known:
  assumes "keeps_known other"
  shows "steps (stays_known (Some i)) (and_then (charge_endpoint s env other i)
     (\<lambda>_. guarded (ep_is_active e) x (take_body s env other parse rq e)))"
  unfolding charge_endpoint_def take_body_def Let_def
  by (cases "cfg_rate_limit_enabled s"; simp)
    (intro steps_and_then steps_basics stays_known_refl stays_known_trans charge_stays_known sweep_stays_known
      store_accepted_stays_known interrupted_stays_known assms disjI2 refl)+

lemma charge_address_stays_known: "steps (stays_known None) (charge_address s env rq)"
  unfolding charge_address_def by (simp add: steps_and_then steps_basics stays_known_refl stays_known_trans charge_stays_known)

lemma submit_stays_known:
  assumes "keeps_known other"
  shows "stays_known None d (snd (submit s env other parse rq d))"
proof -
  let ?i = "rq_endpoint_id rq"
  obtain r d1 where d1: "charge_address s env rq d = (r, d1)" by (cases "charge_address s env rq d")
  from stepsD [OF charge_address_stays_known d1] have first: "stays_known None d d1" .
  have "stays_known None d1 (other 0 d1)" using assms by (simp add: keeps_known_def)
  with first have second: "stays_known None d (other 0 d1)" by (rule transpD [OF stays_known_trans])
  show ?thesis
  proof (cases "\<exists>e. r = Inr () \<and> is_valid_endpoint_id ?i \<and> get_endpoint (other 0 d1) ?i = Some e")
    case True
    then obtain e where e: "r = Inr ()" "is_valid_endpoint_id ?i" "get_endpoint (other 0 d1) ?i = Some e" by blast
    let ?rest = "and_then (charge_endpoint s env other ?i)
      (\<lambda>_. guarded (ep_is_active e) (Api (endpoint_inactive ?i)) (take_body s env other parse rq e))"
    have "submit s env other parse rq d = ?rest (other 0 d1)"
      using d1 e by (simp add: submit_def and_then_def guarded_def interrupted_def resolve_endpoint_def)
    moreover have "?i \<in> endpoint_ids (other 0 d1)" using get_endpoint_id [OF e(3)] by (force simp: endpoint_ids_def)
    ultimately have "stays_known None (other 0 d1) (snd (submit s env other parse rq d))"
      using stepsD [OF after_lookup_stays_known [OF assms, of ?i s env e "Api (endpoint_inactive ?i)" parse rq], of "other 0 d1"]
      by (cases "?rest (other 0 d1)") (simp add: stays_known_def)
    with second show ?thesis by (rule transpD [OF stays_known_trans])
  next
    case False
    then have "snd (submit s env other parse rq d) \<in> {d1, other 0 d1}"
      using d1 by (cases r) (auto simp: submit_def and_then_def guarded_def raising_def interrupted_def resolve_endpoint_def split: option.splits)
    with first second show ?thesis by auto
  qed
qed

text \<open>Requests one after the other, each with what other clients do while it runs.\<close>

primrec run_requests ::
  "settings \<Rightarrow> form_parser \<Rightarrow> (submit_env \<times> (nat \<Rightarrow> db \<Rightarrow> db) \<times> submit_request) list \<Rightarrow> db \<Rightarrow> db" where
  "run_requests s parse [] d = d"
| "run_requests s parse (x # xs) d =
     (case x of (env, other, rq) \<Rightarrow> run_requests s parse xs (snd (submit s env other parse rq d)))"

lemma run_requests_stays_known:
  "\<forall>(env, other, rq) \<in> set xs. keeps_known other \<Longrightarrow> stays_known None d (run_requests s parse xs d)"
proof (induction xs arbitrary: d)
  case Nil
  then show ?case using stays_known_refl by (simp add: reflp_def)
next
  case (Cons x xs)
  obtain env other rq where x: "x = (env, other, rq)" by (cases x)
  have "keeps_known other" using Cons.prems x by simp
  then have "stays_known None d (snd (submit s env other parse rq d))" by (rule submit_stays_known)
  moreover have "stays_known None (snd (submit s env other parse rq d)) (run_requests s parse xs (snd (submit s env other parse rq d)))"
    using Cons by simp
  ultimately have "stays_known None d (run_requests s parse xs (snd (submit s env other parse rq d)))"
    by (rule transpD [OF stays_known_trans])
  then show ?case by (simp add: x)
qed

text \<open>A request for an endpoint that does not exist ends after its address was charged.\<close>

lemma unknown_endpoint_effect:
  assumes "db_ok d" "get_endpoint d (rq_endpoint_id rq) = None" "submit s env alone parse rq d = (res, d')"
  shows "isl res \<and> d' = d\<lparr>counters := counters d'\<rparr> \<and>
    (\<forall>l subject start. counter_value d' (l, subject, start) \<noteq> counter_value d (l, subject, start) \<longrightarrow>
       l = IP \<and> address_subject rq s = Inr subject)"
proof -
  obtain r d1 where d1: "charge_address s env rq d = (r, d1)" by (cases "charge_address s env rq d")
  have only: "d1 = d\<lparr>counters := counters d1\<rparr>"
    using stepsD [OF charge_address_counters_only d1] assms(1) by (simp add: counters_only_def)
  then have "endpoints d1 = endpoints d" by (metis db.select_convs(1) db.surjective db.update_convs(6))
  then have "get_endpoint d1 (rq_endpoint_id rq) = None" using assms(2) by (simp add: get_endpoint_def)
  then have d': "d' = d1" "isl res"
    using assms(3) d1 by (cases r; auto simp: submit_def and_then_def guarded_def raising_def interrupted_def alone_def
        resolve_endpoint_def split: if_splits)+
  have consume: "counter_value (snd (consume_rate_limit dialect IP h w d)) (l, subject, start) = counter_value d (l, subject, start)"
    if "l \<noteq> IP \<or> subject \<noteq> h" for dialect h w l subject start
    using counter_value_consume [OF assms(1), of dialect _ IP h w "(l, subject, start)"] that
    by (cases "upsert_for dialect") (auto simp: consume_rate_limit_def)
  have charge: "counter_value (snd (charge dialect IP h a now d)) (l, subject, start) = counter_value d (l, subject, start)"
    if "l \<noteq> IP \<or> subject \<noteq> h" for dialect h a now l subject start
    using consume [OF that] by (auto simp: charge_def Let_def split: sum.splits prod.splits if_splits) (metis snd_conv)+
  have "l = IP \<and> address_subject rq s = Inr subject"
    if "counter_value d1 (l, subject, start) \<noteq> counter_value d (l, subject, start)" for l subject start
  proof (rule ccontr)
    assume no: "\<not> (l = IP \<and> address_subject rq s = Inr subject)"
    show False
    proof (cases "cfg_rate_limit_enabled s \<and> \<not> isl (address_subject rq s)")
      case True
      then obtain h where h: "address_subject rq s = Inr h" by (cases "address_subject rq s") auto
      have "d1 = snd (charge (env_dialect env) IP h (ip_rate_limit s) (env_now env) d)"
        using d1 h True by (simp add: charge_address_def and_then_def or_raise_def)
      with charge no h that show False by auto
    next
      case False
      then have "d1 = d" using d1 by (auto simp: charge_address_def and_then_def or_raise_def giving_def split: if_splits sum.splits)
      with that show False by simp
    qed
  qed
  with d' only show ?thesis by simp
qed

text \<open>
  C35. Guessing endpoint identifiers costs the guesser and nobody else. However often the route is
  tried, with whatever identifiers, and with whatever else goes on meanwhile that keeps the constraints
  and deletes no endpoint, every endpoint counter belongs to an endpoint that exists, so the number of
  subjects that are counted is not in the hands of who sends the requests. And at any point of such a run
  a request for an endpoint that does not exist is refused, changes no row but a counter, and no counter but one of
  the address it came from.
\<close>
theorem guessed_ids_add_no_counters:
  assumes "db_ok d" and "known_counters d" and "\<forall>(env, other, rq) \<in> set xs. keeps_known other"
    and "d' = run_requests s parse xs d"
  shows "db_ok d' \<and> known_counters d' \<and> endpoint_ids d \<subseteq> endpoint_ids d' \<and>
    (\<forall>env rq res d''. get_endpoint d' (rq_endpoint_id rq) = None \<and> submit s env alone parse rq d' = (res, d'') \<longrightarrow>
       isl res \<and> d'' = d'\<lparr>counters := counters d''\<rparr> \<and>
       (\<forall>l subject start. counter_value d'' (l, subject, start) \<noteq> counter_value d' (l, subject, start) \<longrightarrow>
          l = IP \<and> address_subject rq s = Inr subject))"
proof -
  have run: "db_ok d' \<and> known_counters d' \<and> endpoint_ids d \<subseteq> endpoint_ids d'"
    using run_requests_stays_known [OF assms(3), of d s parse] assms(1,2,4) by (simp add: stays_known_def)
  then show ?thesis using unknown_endpoint_effect by blast
qed

subsection \<open>Examples\<close>

definition quiet_settings :: settings where
  "quiet_settings = (default_settings [])\<lparr>cfg_rate_limit_enabled := False, cfg_max_fields := 5, cfg_max_field_name_length := 10,
     cfg_max_field_value_length := 20\<rparr>"

definition sample_env :: submit_env where
  "sample_env = \<lparr>env_now = 3000000, env_received_at = 3000001, env_random = 1 / 2, env_sweep_fails = False,
     env_submission_hex = lit ''9'', env_delivery_hex = lit ''9'', env_dialect = lit ''postgresql''\<rparr>"

definition sample_request :: submit_request where
  "sample_request = \<lparr>rq_endpoint_id = lit ''contact'', rq_peer = Some (lit ''203.0.113.9''), rq_forwarded_for = [],
     rq_content_type = Some (lit ''Application/x-www-form-urlencoded; charset=utf-8''), rq_idempotency_key = None, rq_body = []\<rparr>"

definition sample_parser :: form_parser where
  "sample_parser media rq = (if media = urlencoded
     then Inr [(lit ''name'', FieldValue (lit ''Ada'')), (lit ''name'', FieldValue (lit ''Eve''))]
     else Inr [(lit ''photo'', UploadFile)])"

lemma acknowledged_is_stored_witness:
  "\<exists>a d'. submit quiet_settings sample_env alone sample_parser sample_request sample_db = (Inr a, d') \<and>
     acc_field_count a = 2 \<and> acc_delivery_queued a \<and>
     (\<exists>row \<in> set (submissions d'). sub_id row = lit ''sub_9'' \<and> sub_id row = acc_submission_id a \<and>
        field_count (sub_fields row) = acc_field_count a)"
proof -
  have run: "map_sum id (\<lambda>a. (acc_field_count a, acc_delivery_queued a, acc_submission_id a))
       (fst (submit quiet_settings sample_env alone sample_parser sample_request sample_db)) = Inr (2, True, lit ''sub_9'')"
    by code_simp
  then have "\<not> isl (fst (submit quiet_settings sample_env alone sample_parser sample_request sample_db))"
    by (cases "fst (submit quiet_settings sample_env alone sample_parser sample_request sample_db)") auto
  then obtain a d' where a: "submit quiet_settings sample_env alone sample_parser sample_request sample_db = (Inr a, d')"
    using returned by blast
  have "db_ok x \<Longrightarrow> db_ok (alone i x)" for i x by (simp add: alone_def)
  from acknowledged_is_stored [OF sample_db_ok this a] run a show ?thesis by auto
qed

lemma refused_attempt_stores_nothing_witness:
  "\<exists>e d'. submit quiet_settings sample_env alone sample_parser (sample_request\<lparr>rq_content_type := Some multipart\<rparr>) sample_db = (Inl e, d') \<and>
     ans_status (answer e) = 422 \<and> d' = sample_db\<lparr>counters := counters d'\<rparr>"
proof -
  let ?rq = "sample_request\<lparr>rq_content_type := Some multipart\<rparr>"
  have run: "map_sum (\<lambda>e. ans_status (answer e)) (\<lambda>_. ()) (fst (submit quiet_settings sample_env alone sample_parser ?rq sample_db)) = Inl 422"
    by code_simp
  then obtain e where "fst (submit quiet_settings sample_env alone sample_parser ?rq sample_db) = Inl e" "ans_status (answer e) = 422"
    by (cases "fst (submit quiet_settings sample_env alone sample_parser ?rq sample_db)") auto
  then obtain d' where e: "submit quiet_settings sample_env alone sample_parser ?rq sample_db = (Inl e, d')" "ans_status (answer e) = 422"
    by (metis prod.collapse)
  with refused_attempt_stores_nothing [OF sample_db_ok e(1)] show ?thesis by blast
qed

text \<open>Five requests in one window, the first of which sweeps, and one long after it.\<close>

definition busy_requests :: "(submit_env \<times> submit_request) list" where
  "busy_requests = (sample_env\<lparr>env_random := 0\<rparr>, sample_request) # replicate 4 (sample_env, sample_request) @
     [(sample_env\<lparr>env_now := 900000000, env_random := 0\<rparr>, sample_request)]"

lemma endpoint_budget_holds_witness:
  "int (accepted_in ((default_settings [])\<lparr>cfg_rate_limit_endpoint_requests := 2\<rparr>) sample_parser (lit ''contact'') 0
     busy_requests sample_db) \<le> 2"
proof -
  let ?s = "(default_settings [])\<lparr>cfg_rate_limit_endpoint_requests := 2\<rparr>"
  have s: "settings_ok ?s" "cfg_rate_limit_enabled ?s" "cfg_rate_limit_endpoint_requests ?s = 2"
    by (simp_all add: settings_ok_def default_settings_def)
  have fresh: "counter_value sample_db (ENDPOINT, lit ''contact'', 0) = 0" by (simp add: counter_value_def sample_db_def)
  have "clocks_agree ?s busy_requests"
    by (rule clocks_forward [OF _ s(1)]) (simp add: busy_requests_def sample_env_def numeral_eq_Suc)
  from endpoint_budget_holds [OF s(1,2) sample_db_ok fresh this] s(3) show ?thesis by metis
qed

lemma address_subject_total:
  assumes "\<forall>c \<in> set (address_bucket (client_address (rq_peer rq) (if rq_forwarded_for rq = [] then None
      else Some (join_with (lit '', '') (rq_forwarded_for rq))) (nat (cfg_trusted_proxy_hops s)))). \<not> is_surrogate c"
    and "cfg_rate_limit_ip_secret s = None"
  shows "\<exists>h. address_subject rq s = Inr h"
proof -
  obtain b where "utf8_encode (address_bucket (client_address (rq_peer rq) (if rq_forwarded_for rq = [] then None
      else Some (join_with (lit '', '') (rq_forwarded_for rq))) (nat (cfg_trusted_proxy_hops s)))) = Inr b"
    using assms(1) utf8_encode_Inr_iff by blast
  with assms(2) show ?thesis by (simp add: address_subject_def ip_subject_def Let_def)
qed

lemma every_attempt_is_charged_witness:
  "\<exists>h. address_subject (sample_request\<lparr>rq_endpoint_id := lit ''nobody''\<rparr>) (default_settings []) = Inr h \<and>
     1 \<le> counter_value (snd (submit (default_settings []) sample_env alone sample_parser
       (sample_request\<lparr>rq_endpoint_id := lit ''nobody''\<rparr>) sample_db)) (IP, h, 0)"
proof -
  let ?s = "default_settings []"
  let ?rq = "sample_request\<lparr>rq_endpoint_id := lit ''nobody''\<rparr>"
  have "list_all (\<lambda>c. \<not> is_surrogate c) (address_bucket (client_address (rq_peer ?rq) (if rq_forwarded_for ?rq = [] then None
      else Some (join_with (lit '', '') (rq_forwarded_for ?rq))) (nat (cfg_trusted_proxy_hops ?s))))" by code_simp
  from address_subject_total [OF this [unfolded list_all_iff]] obtain h where h: "address_subject ?rq ?s = Inr h"
    by (auto simp: default_settings_def)
  have "window_start (env_now sample_env) (cfg_rate_limit_ip_window_seconds ?s) = Inr 0"
    "upsert_for (env_dialect sample_env) = Inr ()" "clock_sane ?s 0 sample_env" "cfg_rate_limit_enabled ?s"
    by (simp_all add: window_start_def whole_seconds_def Let_def dt_min_def dt_max_def sample_env_def default_settings_def upsert_for_def clock_sane_def)
  moreover have "counter_value sample_db (IP, h, 0) = 0" by (simp add: counter_value_def sample_db_def)
  ultimately show ?thesis
    using every_attempt_is_charged [OF _ sample_db_ok h, of sample_env 0 "()" sample_parser] h by (auto simp del: submit_request.simps)
qed

lemma guessed_ids_add_no_counters_witness:
  "\<exists>d'. d' = run_requests (default_settings []) sample_parser
       (replicate 2 (sample_env, alone, sample_request\<lparr>rq_endpoint_id := lit ''nobody''\<rparr>)) sample_db \<and>
     db_ok d' \<and> known_counters d' \<and> isl (fst (submit (default_settings []) sample_env alone sample_parser
       (sample_request\<lparr>rq_endpoint_id := lit ''nobody''\<rparr>) d'))"
proof -
  let ?rq = "sample_request\<lparr>rq_endpoint_id := lit ''nobody''\<rparr>"
  let ?run = "\<lambda>d. submit (default_settings []) sample_env alone sample_parser ?rq d"
  let ?xs = "replicate 2 (sample_env, alone, ?rq)"
  let ?d = "run_requests (default_settings []) sample_parser ?xs sample_db"
  have known: "known_counters sample_db" by (simp add: known_counters_def sample_db_def)
  have others: "\<forall>(env, other, rq) \<in> set ?xs. keeps_known other"
    by (auto simp: keeps_known_def alone_def stays_known_def)
  note run = guessed_ids_add_no_counters [OF sample_db_ok known others refl, of "default_settings []" sample_parser]
  have step: "db_ok (snd (?run d)) \<and> get_endpoint (snd (?run d)) (lit ''nobody'') = None"
    if "db_ok d" "get_endpoint d (lit ''nobody'') = None" for d
  proof -
    obtain res d' where out: "?run d = (res, d')" by (cases "?run d")
    have "d' = d\<lparr>counters := counters d'\<rparr>" using unknown_endpoint_effect [OF that(1) _ out] that(2) by simp
    then have "endpoints d' = endpoints d" by (metis db.select_convs(1) db.surjective db.update_convs(6))
    moreover have "clock_sane (default_settings []) 0 sample_env"
      by (simp add: clock_sane_def sample_env_def default_settings_def)
    then have "db_ok d'" using stepsD [OF submit_never_drops out, of "(IP, [], 0)"] that(1) by (simp add: never_drops_def)
    ultimately show ?thesis using that(2) out by (simp add: get_endpoint_def)
  qed
  have "get_endpoint sample_db (lit ''nobody'') = None" by code_simp
  with step [OF step [THEN conjunct1] step [THEN conjunct2]] sample_db_ok
  have none: "get_endpoint ?d (lit ''nobody'') = None" by (simp add: numeral_2_eq_2)
  from run have refused: "\<forall>env rq res d''. get_endpoint ?d (rq_endpoint_id rq) = None \<and>
      submit (default_settings []) env alone sample_parser rq ?d = (res, d'') \<longrightarrow> isl res" by blast
  obtain res d'' where out: "?run ?d = (res, d'')" by (cases "?run ?d")
  with refused [rule_format, of ?rq sample_env res d''] none have "isl (fst (?run ?d))" by (simp del: run_requests.simps replicate.simps)
  with run show ?thesis by blast
qed

lemma refusal_tells_when_witness:
  "\<exists>e d' n. charge (lit ''postgresql'') ENDPOINT (lit ''contact'') \<lparr>requests = 0, window_seconds = 60\<rparr> 3000000 sample_db = (Inl (Api e), d') \<and>
     ans_headers (as_response e) = [(lit ''Retry-After'', str_of_int n)] \<and> 1 \<le> n \<and> n \<le> 60"
proof -
  let ?a = "\<lparr>requests = 0, window_seconds = 60\<rparr>"
  have up: "upsert_for (lit ''postgresql'') = Inr ()" by (simp add: upsert_for_def)
  have w: "window_start 3000000 (window_seconds ?a) = Inr 0"
    "seconds_until_window_ends 3000000 0 (window_seconds ?a) = Inr 57" by code_simp+
  have "counter_value sample_db (ENDPOINT, lit ''contact'', 0) = 0" by (simp add: counter_value_def sample_db_def)
  with charge_eq [OF sample_db_ok up w, of ENDPOINT "lit ''contact''"]
  obtain e d' where c: "charge (lit ''postgresql'') ENDPOINT (lit ''contact'') ?a 3000000 sample_db = (Inl (Api e), d')"
    by (auto simp: Let_def)
  from refusal_tells_when [OF c] c show ?thesis by auto
qed

end
