(* ===== verification/Application.thy ===== *)
theory Application
  imports Engine Middleware SubmitTheorems
begin

text \<open>
  \<^verbatim>\<open>app.py\<close> and \<^verbatim>\<open>api/health.py\<close>: the application as it is put together, and the public route behind the cap on
  request bodies, from the messages of the server to the messages sent back. The route does its charging
  and its lookups before it reads, so the body arrives in the middle of it, piece by piece, and reading it
  may fail. Then that within the cap this is the handler on the whole body, and beyond it nothing but the
  charging has happened.
\<close>

subsection \<open>Assembly\<close>

record health_response =
  hr_status :: pystr
  hr_service :: pystr
  hr_version :: pystr

definition version :: pystr where "version = lit ''0.2.0''"

definition health :: health_response where
  "health = \<lparr>hr_status = lit ''ok'', hr_service = lit ''hymical-forms'', hr_version = version\<rparr>"

record application =
  app_settings :: settings
  app_engine :: engine
  app_max_bytes :: int

definition create_app :: "(pystr \<Rightarrow> parsed_url option) \<Rightarrow> settings \<Rightarrow> application option" where
  "create_app make_url s =
     map_option (\<lambda>e. \<lparr>app_settings = s, app_engine = e, app_max_bytes = cfg_max_body_bytes s\<rparr>)
       (create_engine_from_url make_url (cfg_database_url s))"

text \<open>Serving begins only after the schema was found to be the one this build expects.\<close>

definition lifespan :: "(nat \<Rightarrow> bool) \<Rightarrow> pystr option \<Rightarrow> pystr + pystr option \<Rightarrow> 'a \<Rightarrow> schema_failure + 'a" where
  "lifespan printable shipped current serving =
     (case verify_schema printable shipped current of Inl e \<Rightarrow> Inl e | Inr _ \<Rightarrow> Inr serving)"

subsection \<open>The public route, message by message\<close>

text \<open>The part of \<^verbatim>\<open>submit\<close> before the body is read.\<close>

definition before_body ::
  "settings \<Rightarrow> submit_env \<Rightarrow> (nat \<Rightarrow> db \<Rightarrow> db) \<Rightarrow> submit_request \<Rightarrow> (db, endpoint \<times> pystr option) handler" where
  "before_body s env other rq =
     and_then (charge_address s env rq)
       (\<lambda>_. guarded (is_valid_endpoint_id (rq_endpoint_id rq)) (Api invalid_endpoint_id)
         (and_then (interrupted (other 0))
           (\<lambda>_. and_then (resolve_endpoint (rq_endpoint_id rq))
           (\<lambda>e. and_then (charge_endpoint s env other (rq_endpoint_id rq))
           (\<lambda>_. guarded (ep_is_active e) (Api (endpoint_inactive (rq_endpoint_id rq)))
             (guarded (media_type (rq_content_type rq) \<in> set supported_media_types)
                (Api (unsupported_media_type (media_type (rq_content_type rq))))
               (and_then (or_raise (idempotency_key_of rq)) (\<lambda>key. giving (e, key)))))))))"

text \<open>The part after it, on what was read.\<close>

definition after_body ::
  "settings \<Rightarrow> submit_env \<Rightarrow> (nat \<Rightarrow> db \<Rightarrow> db) \<Rightarrow> form_parser \<Rightarrow> submit_request \<Rightarrow> endpoint \<times> pystr option
     \<Rightarrow> (db, submission_accepted) handler" where
  "after_body s env other parse rq ek =
     and_then (or_raise (parse_form parse (media_type (rq_content_type rq)) rq))
       (\<lambda>items. and_then (or_raise (checked_submission s env (rq_endpoint_id rq) items))
       (\<lambda>sub. and_then (interrupted (other 3))
       (\<lambda>_. store_accepted env other (endpoint_webhook (fst ek)) (snd ek) sub)))"

text \<open>
  Reading the body is the web framework's: the form parser pulls the stream of the request. It is the argument
  \<open>reader\<close>, an application that goes on with the body or with what reading it raised.
\<close>

type_synonym ('b, 'r) body_reader = "(raised + bytes \<Rightarrow> ('b, 'r) app) \<Rightarrow> ('b, 'r) app"

text \<open>How a handler is answered: with what it returned, or through the exception handlers.\<close>

definition respond :: "(raised + submission_accepted) \<times> 'r \<Rightarrow> (submission_accepted, 'r) app" where
  "respond result =
     (case fst result of
        Inl e \<Rightarrow> Send (ResponseStart (ans_status (answer e))) (Send (ResponseAnswer (answer e)) (Finished (snd result)))
      | Inr acc \<Rightarrow> Send (ResponseStart 202) (Send (ResponseBody acc) (Finished (snd result))))"

definition submit_app ::
  "settings \<Rightarrow> submit_env \<Rightarrow> (nat \<Rightarrow> db \<Rightarrow> db) \<Rightarrow> form_parser \<Rightarrow> (submission_accepted, db) body_reader \<Rightarrow> submit_request \<Rightarrow> db
     \<Rightarrow> (submission_accepted, db) app" where
  "submit_app s env other parse reader rq d =
     (case before_body s env other rq d of
        (Inl e, d') \<Rightarrow> respond (Inl e, d')
      | (Inr ek, d') \<Rightarrow>
          reader
            (\<lambda>r. case r of
               Inl e \<Rightarrow> respond (Inl e, d')
             | Inr body \<Rightarrow> respond (after_body s env other parse (rq\<lparr>rq_body := body\<rparr>) ek d')))"

definition serve_submission ::
  "application \<Rightarrow> submit_env \<Rightarrow> (nat \<Rightarrow> db \<Rightarrow> db) \<Rightarrow> form_parser \<Rightarrow> (submission_accepted, db) body_reader \<Rightarrow> submit_request
     \<Rightarrow> scope \<Rightarrow> request_message list \<Rightarrow> db \<Rightarrow> (submission_accepted, db) exchange" where
  "serve_submission a env other parse reader rq sc ms d =
     body_size_limit (submit_app (app_settings a) env other parse reader rq d) (app_max_bytes a) sc ms"

subsection \<open>Facts\<close>

text \<open>An application serves only on a database at the revision it ships.\<close>

lemma lifespan_serves:
  "lifespan printable shipped current serving = Inr x \<longleftrightarrow> x = serving \<and> (\<exists>head. shipped = Some head \<and> current = Inr (Some head))"
  using verify_schema_Inr [of printable shipped current]
  by (auto simp: lifespan_def split: sum.splits)

lemma and_then_assoc: "and_then (and_then h k) k' = and_then h (\<lambda>x. and_then (k x) k')"
proof
  show "and_then (and_then h k) k' d = and_then h (\<lambda>x. and_then (k x) k') d" for d
    by (cases "h d"; cases "fst (h d)") (auto simp: and_then_def)
qed

lemma guarded_and_then: "and_then (guarded ok e h) k = guarded ok e (and_then h k)"
  by (cases ok) (auto simp: guarded_def raising_def and_then_def fun_eq_iff)

lemma giving_and_then: "and_then (giving x) k = k x"
  by (simp add: giving_def and_then_def fun_eq_iff)

lemma submit_in_parts: "submit s env other parse rq = and_then (before_body s env other rq) (after_body s env other parse rq)"
  unfolding submit_def take_body_def before_body_def after_body_def Let_def and_then_assoc guarded_and_then giving_and_then fst_conv snd_conv
  ..

lemma before_body_blind: "before_body s env other (rq\<lparr>rq_body := body\<rparr>) = before_body s env other rq"
  by (simp add: before_body_def charge_address_def address_subject_def idempotency_key_of_def)

lemma before_body_counters_only: "steps counters_only (before_body s env alone rq)"
  unfolding before_body_def
  by (intro handler_intros counters_only_refl counters_only_trans)

subsection \<open>How the body arrives\<close>

text \<open>
  A body in pieces as the server passes it on: the last piece says that no more follows, unless the client
  hangs up first.
\<close>

fun body_messages :: "bytes list \<Rightarrow> bool \<Rightarrow> request_message list" where
  "body_messages [] ended = []"
| "body_messages [b] ended = [RequestBody b (\<not> ended)]"
| "body_messages (b # b' # bs) ended = RequestBody b True # body_messages (b' # bs) ended"

definition answered :: "raised + submission_accepted \<Rightarrow> submission_accepted response_message list" where
  "answered r =
     (case r of
        Inl e \<Rightarrow> [ResponseStart (ans_status (answer e)), ResponseAnswer (answer e)]
      | Inr acc \<Rightarrow> [ResponseStart 202, ResponseBody acc])"

lemma body_messages_Cons:
  "body_messages (b # bs) ended = RequestBody b (bs \<noteq> [] \<or> \<not> ended) # body_messages bs ended"
  by (cases bs) simp_all

lemma length_body_messages [simp]: "length (body_messages bs ended) = length bs"
  by (induction bs) (simp_all add: body_messages_Cons)

text \<open>
  What the stream of a request promises its reader: the pieces in order until one says that no more follows,
  or until the parser, fed with what has arrived, has given up (\<open>stop\<close>); a client that hangs up, and an exception
  raised by the receive, make the reading raise. An application is a finite tree, so the promise is made for
  bodies of up to \<open>n\<close> pieces before the last.
\<close>

fun consume :: "('b, 'r) app \<Rightarrow> received list \<Rightarrow> ('b, 'r) app option" where
  "consume app [] = Some app"
| "consume (Receive k) (m # ms) = consume (k m) ms"
| "consume app (m # ms) = None"

abbreviation continuing :: "bytes list \<Rightarrow> received list" where
  "continuing bs \<equiv> map (\<lambda>b. Message (RequestBody b True)) bs"

definition never_stops :: "(bytes \<Rightarrow> bool) \<Rightarrow> bytes list \<Rightarrow> bool" where
  "never_stops stop bs \<longleftrightarrow> (\<forall>i < length bs. \<not> stop (concat (take (Suc i) bs)))"

definition streams :: "int \<Rightarrow> (bytes \<Rightarrow> bool) \<Rightarrow> nat \<Rightarrow> ('b, 'r) body_reader \<Rightarrow> bool" where
  "streams limit stop n reader \<longleftrightarrow> (\<forall>k bs. length bs \<le> n \<and> never_stops stop bs \<longrightarrow>
     consume (reader k) (continuing bs @ [Message Disconnected]) = Some (k (Inl Unexpected)) \<and>
     consume (reader k) (continuing bs @ [BodyTooLarge]) = Some (k (Inl (Api (request_body_too_large limit)))) \<and>
     (\<forall>b more_body. \<not> more_body \<or> stop (concat bs @ b) \<longrightarrow>
       consume (reader k) (continuing bs @ [Message (RequestBody b more_body)]) = Some (k (Inr (concat bs @ b)))))"

lemma consume_append: "consume app (xs @ ys) = Option.bind (consume app xs) (\<lambda>app'. consume app' ys)"
  by (induction app xs rule: consume.induct) (auto simp: Option.bind_eq_None_conv split: list.split)

lemma consume_one: "consume app [m] = Some app' \<longleftrightarrow> (\<exists>k. app = Receive k \<and> k m = app')"
  by (cases app) auto

lemma never_stops_snoc: "never_stops stop (bs @ [b]) \<longleftrightarrow> never_stops stop bs \<and> \<not> stop (concat bs @ b)"
  by (auto simp: never_stops_def less_Suc_eq)

text \<open>The next step of a reader that has taken some pieces.\<close>

lemma streams_next:
  assumes "streams limit stop n reader" "length bs \<le> n" "never_stops stop bs" "consume (reader k) (continuing bs) = Some app"
  obtains f where "app = Receive f" "f (Message Disconnected) = k (Inl Unexpected)"
    "f BodyTooLarge = k (Inl (Api (request_body_too_large limit)))"
    "\<And>b more_body. \<not> more_body \<or> stop (concat bs @ b) \<Longrightarrow> f (Message (RequestBody b more_body)) = k (Inr (concat bs @ b))"
proof -
  note law = assms(1) [unfolded streams_def consume_append, THEN spec, THEN spec, THEN mp, OF conjI, OF assms(2,3), of k, unfolded assms(4) bind.bind_lunit]
  have "consume app [Message Disconnected] = Some (k (Inl Unexpected))" "consume app [BodyTooLarge] = Some (k (Inl (Api (request_body_too_large limit))))"
    by (rule law [THEN conjunct1] law [THEN conjunct2, THEN conjunct1])+
  have last: "\<And>b more_body. \<not> more_body \<or> stop (concat bs @ b) \<Longrightarrow> consume app [Message (RequestBody b more_body)] = Some (k (Inr (concat bs @ b)))"
    by (rule law [THEN conjunct2, THEN conjunct2, THEN spec, THEN spec, THEN mp])
  from \<open>consume app [Message Disconnected] = _\<close> \<open>consume app [BodyTooLarge] = _\<close> obtain f where f: "app = Receive f" "f (Message Disconnected) = k (Inl Unexpected)" "f BodyTooLarge = k (Inl (Api (request_body_too_large limit)))"
    by (auto simp: consume_one)
  with last have "f (Message (RequestBody b more_body)) = k (Inr (concat bs @ b))" if "\<not> more_body \<or> stop (concat bs @ b)" for b more_body
    using that by (simp add: consume_one)
  with f that show thesis by blast
qed

text \<open>What reading comes to: the cap or the client raises, or a part of the body after which it may stop.\<close>

definition read_to :: "int \<Rightarrow> (bytes \<Rightarrow> bool) \<Rightarrow> bytes \<Rightarrow> bool \<Rightarrow> cap_state \<Rightarrow> raised + bytes \<Rightarrow> bool" where
  "read_to max_bytes stop whole ended st r \<longleftrightarrow>
     \<not> cap_replaced st \<and>
     (case r of
        Inl e \<Rightarrow> (e = Api (request_body_too_large max_bytes) \<and> max_bytes < int (length whole)) \<or>
          (e = Unexpected \<and> \<not> ended \<and> \<not> cap_overflowed st)
      | Inr p \<Rightarrow> \<not> cap_overflowed st \<and>
          ((p = whole \<and> ended \<and> int (length whole) \<le> max_bytes) \<or> (stop p \<and> (\<exists>q. whole = p @ q))))"

lemma reader_outcome:
  assumes "streams max_bytes stop n reader" "length (as @ bs) \<le> n" "never_stops stop as" "consume (reader k) (continuing as) = Some app"
    and "cap_received st = int (length (concat as))" "\<not> cap_overflowed st" "\<not> cap_replaced st" "ended \<longrightarrow> bs \<noteq> []"
  shows "\<exists>r st' rest. read_to max_bytes stop (concat (as @ bs)) ended st' r \<and>
    ex_sent (serve_limited app max_bytes st (body_messages bs ended)) = ex_sent (serve_limited (k r) max_bytes st' rest) \<and>
    ex_result (serve_limited app max_bytes st (body_messages bs ended)) = ex_result (serve_limited (k r) max_bytes st' rest)"
  using assms(2-)
proof (induction bs arbitrary: as app st)
  case Nil
  from Nil have "length as \<le> n" by simp
  from streams_next [OF assms(1) this Nil(2,3)] obtain f where "app = Receive f" "f (Message Disconnected) = k (Inl Unexpected)"
    by blast
  moreover have "read_to max_bytes stop (concat (as @ [])) ended st (Inl Unexpected)" using Nil by (simp add: read_to_def)
  ultimately show ?case
    by (intro exI [of _ "Inl Unexpected"] exI [of _ st] exI [of _ "[]"]) (simp add: next_message_def limited_receive_def Let_def)
next
  case (Cons b bs)
  let ?st = "st\<lparr>cap_received := cap_received st + int (length b)\<rparr>"
  from Cons.prems(1) have "length as \<le> n" by simp
  then obtain f where f: "app = Receive f" "f BodyTooLarge = k (Inl (Api (request_body_too_large max_bytes)))"
    "\<And>more_body. \<not> more_body \<or> stop (concat as @ b) \<Longrightarrow> f (Message (RequestBody b more_body)) = k (Inr (concat as @ b))"
    using streams_next [OF assms(1) _ Cons.prems(2,3)] by metis
  note run = f(1) body_messages_Cons next_message_def limited_receive_def Let_def
  show ?case
  proof (cases "max_bytes < cap_received ?st")
    case True
    have "read_to max_bytes stop (concat (as @ b # bs)) ended (?st\<lparr>cap_overflowed := True\<rparr>) (Inl (Api (request_body_too_large max_bytes)))"
      using True Cons.prems by (simp add: read_to_def)
    then show ?thesis
      using True f(2) by (intro exI) (auto simp: run)
  next
    case within: False
    let ?next = "f (Message (RequestBody b (bs \<noteq> [] \<or> \<not> ended)))"
    have step: "ex_sent (serve_limited app max_bytes st (body_messages (b # bs) ended)) = ex_sent (serve_limited ?next max_bytes ?st (body_messages bs ended))"
      "ex_result (serve_limited app max_bytes st (body_messages (b # bs) ended)) = ex_result (serve_limited ?next max_bytes ?st (body_messages bs ended))"
      using within by (simp_all add: run)
    show ?thesis unfolding step
    proof (cases "(bs \<noteq> [] \<or> \<not> ended) \<and> \<not> stop (concat as @ b)")
      case True
      then have more_body: "?next = f (Message (RequestBody b True))" by simp
      have taken: "consume (reader k) (continuing (as @ [b])) = Some (f (Message (RequestBody b True)))"
        using Cons.prems(3) f(1) by (simp add: consume_append)
      have "length ((as @ [b]) @ bs) \<le> n" "never_stops stop (as @ [b])" "cap_received ?st = int (length (concat (as @ [b])))"
        "ended \<longrightarrow> bs \<noteq> []" using Cons.prems True by (auto simp: never_stops_snoc)
      note IH = Cons.IH [OF this(1,2) taken this(3) _ _ this(4)]
      have "(as @ [b]) @ bs = as @ b # bs" by simp
      from IH [unfolded this] Cons.prems(5,6) show "\<exists>r st' rest. read_to max_bytes stop (concat (as @ b # bs)) ended st' r \<and>
        ex_sent (serve_limited ?next max_bytes ?st (body_messages bs ended)) = ex_sent (serve_limited (k r) max_bytes st' rest) \<and>
        ex_result (serve_limited ?next max_bytes ?st (body_messages bs ended)) = ex_result (serve_limited (k r) max_bytes st' rest)"
        unfolding more_body by simp
    next
      case False
      then have last: "?next = k (Inr (concat as @ b))" by (intro f(3)) argo
      have "read_to max_bytes stop (concat (as @ b # bs)) ended ?st (Inr (concat as @ b))"
        using False within Cons.prems by (auto simp: read_to_def)
      then show "\<exists>r st' rest. read_to max_bytes stop (concat (as @ b # bs)) ended st' r \<and>
        ex_sent (serve_limited ?next max_bytes ?st (body_messages bs ended)) = ex_sent (serve_limited (k r) max_bytes st' rest) \<and>
        ex_result (serve_limited ?next max_bytes ?st (body_messages bs ended)) = ex_result (serve_limited (k r) max_bytes st' rest)"
        unfolding last by blast
    qed
  qed
qed

lemma serve_respond:
  assumes "\<not> cap_replaced st" "cap_overflowed st \<longrightarrow> (\<exists>limit. fst result = Inl (Api (request_body_too_large limit)))"
  shows "ex_sent (serve_limited (respond result) max_bytes st ms) = answered (fst result) \<and>
    ex_result (serve_limited (respond result) max_bytes st ms) = Some (snd result)"
  using assms
  by (auto simp: respond_def answered_def guarded_send_def request_body_too_large_def as_response_def error_response_def Let_def split: sum.splits)

text \<open>A parser that has given up says the same whatever follows.\<close>

definition gives_up :: "(bytes \<Rightarrow> bool) \<Rightarrow> form_parser \<Rightarrow> submit_request \<Rightarrow> bool" where
  "gives_up stop parse rq \<longleftrightarrow> (\<forall>p media. stop p \<longrightarrow> (\<exists>reason. \<forall>q. parse media (rq\<lparr>rq_body := p @ q\<rparr>) = Inl reason))"

lemma after_body_gave_up:
  assumes "gives_up stop parse rq" "stop p"
  obtains reason where "\<And>q. after_body s env other parse (rq\<lparr>rq_body := p @ q\<rparr>) ek d = (Inl (Api (malformed_form_body reason)), d)"
proof -
  obtain reason where "\<And>q. parse (media_type (rq_content_type rq)) (rq\<lparr>rq_body := p @ q\<rparr>) = Inl reason"
    using assms unfolding gives_up_def by blast
  then have "after_body s env other parse (rq\<lparr>rq_body := p @ q\<rparr>) ek d = (Inl (Api (malformed_form_body reason)), d)" for q
    by (simp add: after_body_def parse_form_def and_then_def or_raise_def)
  with that show thesis .
qed

text \<open>What the route answers and leaves when nothing was declared beyond the cap.\<close>

definition broken_off :: "int \<Rightarrow> (bytes \<Rightarrow> bool) \<Rightarrow> bytes \<Rightarrow> bool \<Rightarrow> raised \<Rightarrow> bool" where
  "broken_off max_bytes stop whole ended e \<longleftrightarrow>
     (e = Api (request_body_too_large max_bytes) \<and> max_bytes < int (length whole)) \<or>
     (e = Unexpected \<and> \<not> ended) \<or>
     (\<exists>p q reason. e = Api (malformed_form_body reason) \<and> stop p \<and> whole = p @ q)"

lemma submit_app_served:
  assumes reader: "streams (cfg_max_body_bytes s) stop (length bs) reader" and up: "gives_up stop parse rq" and ended: "ended \<longrightarrow> bs \<noteq> []"
    and before: "before_body s env other rq d = (Inr ek, d')"
    and st: "cap_received st = 0" "\<not> cap_overflowed st" "\<not> cap_replaced st"
    and x: "x = serve_limited (submit_app s env other parse reader rq d) (cfg_max_body_bytes s) st (body_messages bs ended)"
  shows "if ended \<and> int (length (concat bs)) \<le> cfg_max_body_bytes s
    then ex_sent x = answered (fst (after_body s env other parse (rq\<lparr>rq_body := concat bs\<rparr>) ek d')) \<and>
      ex_result x = Some (snd (after_body s env other parse (rq\<lparr>rq_body := concat bs\<rparr>) ek d'))
    else \<exists>e. ex_sent x = answered (Inl e) \<and> ex_result x = Some d' \<and> broken_off (cfg_max_body_bytes s) stop (concat bs) ended e"
proof -
  let ?k = "\<lambda>r. case r of Inl e \<Rightarrow> respond (Inl e, d')
    | Inr body \<Rightarrow> respond (after_body s env other parse (rq\<lparr>rq_body := body\<rparr>) ek d')"
  have "submit_app s env other parse reader rq d = reader ?k" by (simp add: submit_app_def before)
  with reader_outcome [OF reader, of "[]" bs ?k "reader ?k" st ended] st ended
  obtain r st' rest where out: "read_to (cfg_max_body_bytes s) stop (concat bs) ended st' r"
    and sent: "ex_sent x = ex_sent (serve_limited (?k r) (cfg_max_body_bytes s) st' rest)"
    and result: "ex_result x = ex_result (serve_limited (?k r) (cfg_max_body_bytes s) st' rest)"
    unfolding x by (auto simp: never_stops_def)
  have replaced: "\<not> cap_replaced st'" using out by (simp add: read_to_def)
  show ?thesis
  proof (cases r)
    case (Inl e)
    have "ex_sent x = answered (Inl e)" "ex_result x = Some d'"
      using serve_respond [OF replaced, of "(Inl e, d')"] out sent result Inl by (auto simp: read_to_def)
    moreover have "broken_off (cfg_max_body_bytes s) stop (concat bs) ended e \<and> \<not> (ended \<and> int (length (concat bs)) \<le> cfg_max_body_bytes s)"
      using out Inl by (auto simp: read_to_def broken_off_def)
    ultimately show ?thesis by auto
  next
    case (Inr p)
    let ?a = "\<lambda>body. after_body s env other parse (rq\<lparr>rq_body := body\<rparr>) ek d'"
    have p: "ex_sent x = answered (fst (?a p))" "ex_result x = Some (snd (?a p))"
      using serve_respond [OF replaced, of "?a p"] out sent result Inr by (auto simp: read_to_def)
    show ?thesis
    proof (cases "p = concat bs \<and> ended \<and> int (length (concat bs)) \<le> cfg_max_body_bytes s")
      case True
      then show ?thesis using p by simp
    next
      case False
      then obtain q where q: "stop p" "concat bs = p @ q" using out Inr by (auto simp: read_to_def)
      obtain reason where gave: "\<And>q. ?a (p @ q) = (Inl (Api (malformed_form_body reason)), d')"
        using after_body_gave_up [OF up q(1)] by blast
      have "?a p = (Inl (Api (malformed_form_body reason)), d')" "?a (concat bs) = (Inl (Api (malformed_form_body reason)), d')"
        using gave [of "[]"] gave [of q] by (simp_all add: q(2))
      moreover have "broken_off (cfg_max_body_bytes s) stop (concat bs) ended (Api (malformed_form_body reason))"
        using q unfolding broken_off_def by blast
      ultimately show ?thesis using p by auto
    qed
  qed
qed

subsection \<open>Properties\<close>

text \<open>
  C16. The public route behind the cap, for a body that arrives in any pieces and may be broken off. A request
  that declares more than the cap is answered with a 413 and the handler does not run. Otherwise, a body that
  arrives whole and within the cap is answered, and stored, exactly as \<^verbatim>\<open>submit\<close> does with all of it at hand. A
  body that runs over the cap, that the client breaks off or that the parser gives up on is answered with an
  error, the first one met, and leaves in the database only what was charged before it was read.
\<close>
theorem public_route_capped:
  assumes "create_app make_url s = Some a" and "scope_type sc = lit ''http''"
    and "streams cap stop (length bs) reader" and "gives_up stop parse rq" and "ended \<longrightarrow> bs \<noteq> []"
    and "x = serve_submission a env other parse reader rq sc (body_messages bs ended) d"
    and "declared = declared_content_length (scope_headers sc)" and "before_body s env other rq d = (r, d')"
    and "cap = cfg_max_body_bytes s" and "whole = submit s env other parse (rq\<lparr>rq_body := concat bs\<rparr>) d"
  shows "if \<exists>n. declared = Some n \<and> cap < n then ex_sent x = too_large_answer cap \<and> ex_result x = None
    else if ended \<and> int (length (concat bs)) \<le> cap
    then ex_sent x = answered (fst whole) \<and> ex_result x = Some (snd whole)
    else (\<exists>e. ex_sent x = answered (Inl e) \<and> (case r of Inl e' \<Rightarrow> e = e' | Inr _ \<Rightarrow> broken_off cap stop (concat bs) ended e)) \<and>
      ex_result x = Some d' \<and> (other = alone \<longrightarrow> counters_only d d')"
proof -
  have a: "app_settings a = s" "app_max_bytes a = cap" using assms(1,9) by (auto simp: create_app_def)
  let ?st = "\<lparr>cap_received = 0, cap_overflowed = False, cap_replaced = False\<rparr>"
  let ?app = "submit_app s env other parse reader rq d"
  have charged: "other = alone \<longrightarrow> counters_only d d'" using assms(8) stepsD [OF before_body_counters_only] by blast
  show ?thesis
  proof (cases "\<exists>n. declared = Some n \<and> cap < n")
    case True
    then show ?thesis using assms(2,6,7) a by (auto simp: serve_submission_def body_size_limit_def)
  next
    case False
    have x: "x = serve_limited ?app (cfg_max_body_bytes s) ?st (body_messages bs ended)"
      using False assms(2,6,7,9) a by (auto simp: serve_submission_def body_size_limit_def split: option.splits)
    have whole: "whole = (case r of Inl e \<Rightarrow> (Inl e, d') | Inr ek \<Rightarrow> after_body s env other parse (rq\<lparr>rq_body := concat bs\<rparr>) ek d')"
      unfolding assms(10) submit_in_parts and_then_def before_body_blind assms(8) by (simp split: sum.split)
    have "if ended \<and> int (length (concat bs)) \<le> cap
      then ex_sent x = answered (fst whole) \<and> ex_result x = Some (snd whole)
      else (\<exists>e. ex_sent x = answered (Inl e) \<and> (case r of Inl e' \<Rightarrow> e = e' | Inr _ \<Rightarrow> broken_off cap stop (concat bs) ended e)) \<and>
        ex_result x = Some d' \<and> (other = alone \<longrightarrow> counters_only d d')"
    proof (cases r)
      case (Inl e)
      have "?app = respond (Inl e, d')" using assms(8) Inl by (simp add: submit_app_def)
      then have "ex_sent x = answered (Inl e) \<and> ex_result x = Some d'" using serve_respond [of ?st "(Inl e, d')"] x by simp
      with whole Inl charged show ?thesis by simp
    next
      case (Inr ek)
      with assms(8) have before: "before_body s env other rq d = (Inr ek, d')" by simp
      from submit_app_served [OF assms(3) [unfolded assms(9)] assms(4,5) before _ _ _ x] whole Inr charged show ?thesis
        by (auto simp: assms(9) split: if_splits)
    qed
    then show ?thesis unfolding if_not_P [OF False] .
  qed
qed

text \<open>A reader that keeps the promise, for bodies of fewer than \<open>n\<close> pieces.\<close>

primrec read_body ::
  "nat \<Rightarrow> int \<Rightarrow> (bytes \<Rightarrow> bool) \<Rightarrow> bytes \<Rightarrow> (raised + bytes \<Rightarrow> ('b, 'r) app) \<Rightarrow> ('b, 'r) app" where
  "read_body 0 limit stop acc k = k (Inl Unexpected)"
| "read_body (Suc n) limit stop acc k =
     Receive (\<lambda>r. case r of
         BodyTooLarge \<Rightarrow> k (Inl (Api (request_body_too_large limit)))
       | Message Disconnected \<Rightarrow> k (Inl Unexpected)
       | Message (RequestBody b more_body) \<Rightarrow>
           if more_body \<and> \<not> stop (acc @ b) then read_body n limit stop (acc @ b) k else k (Inr (acc @ b)))"

lemma consume_read_body_Cons:
  "consume (read_body (Suc n) limit stop acc k) (Message Disconnected # ms) = consume (k (Inl Unexpected)) ms"
  "consume (read_body (Suc n) limit stop acc k) (BodyTooLarge # ms) = consume (k (Inl (Api (request_body_too_large limit)))) ms"
  "consume (read_body (Suc n) limit stop acc k) (Message (RequestBody b more_body) # ms) =
     consume (if more_body \<and> \<not> stop (acc @ b) then read_body n limit stop (acc @ b) k else k (Inr (acc @ b))) ms"
  by simp_all

lemma consume_read_body:
  "length bs \<le> n \<Longrightarrow> never_stops stop (as @ bs) \<Longrightarrow>
   consume (read_body (Suc n) limit stop (concat as) k) (continuing bs) = Some (read_body (Suc (n - length bs)) limit stop (concat (as @ bs)) k)"
proof (induction bs arbitrary: n as)
  case (Cons b bs)
  then obtain n' where n: "n = Suc n'" by (cases n) auto
  have stop: "never_stops stop ((as @ [b]) @ bs)" using Cons.prems(2) by simp
  then have "\<not> stop (concat as @ b)" by (auto simp: never_stops_def dest: spec [of _ "length as"])
  with Cons.IH [of n' "as @ [b]", OF _ stop] Cons.prems(1) n show ?case
    by (simp add: consume_read_body_Cons del: read_body.simps)
qed simp

lemma read_body_streams: "streams limit stop n (read_body (Suc n) limit stop [] :: ('b, 'r) body_reader)"
  unfolding streams_def
proof (intro allI impI, elim conjE)
  fix k :: "raised + bytes \<Rightarrow> ('b, 'r) app" and bs
  assume "length bs \<le> n" "never_stops stop bs"
  then have "consume (read_body (Suc n) limit stop [] k) (continuing bs) = Some (read_body (Suc (n - length bs)) limit stop (concat bs) k)"
    using consume_read_body [of bs n stop "[]" limit k] by (simp del: read_body.simps)
  then show "consume (read_body (Suc n) limit stop [] k) (continuing bs @ [Message Disconnected]) = Some (k (Inl Unexpected)) \<and>
     consume (read_body (Suc n) limit stop [] k) (continuing bs @ [BodyTooLarge]) = Some (k (Inl (Api (request_body_too_large limit)))) \<and>
     (\<forall>b more_body. \<not> more_body \<or> stop (concat bs @ b) \<longrightarrow>
       consume (read_body (Suc n) limit stop [] k) (continuing bs @ [Message (RequestBody b more_body)]) = Some (k (Inr (concat bs @ b))))"
    by (auto simp: consume_append consume_read_body_Cons simp del: read_body.simps)
qed

lemma streams_fewer: "streams limit stop n reader \<Longrightarrow> m \<le> n \<Longrightarrow> streams limit stop m reader"
  unfolding streams_def by (meson order_trans)

text \<open>A cap of eight bytes: four bytes in two pieces, ten in two pieces, and three before the client hangs up.\<close>

definition small_settings :: settings where
  "small_settings = quiet_settings\<lparr>cfg_max_body_bytes := 8\<rparr>"

definition small_app :: application where
  "small_app = \<lparr>app_settings = small_settings,
     app_engine = \<lparr>en_url = cfg_database_url small_settings, en_any_thread = False, en_single_connection = False, en_pragma = False\<rparr>,
     app_max_bytes = 8\<rparr>"

definition served_sample :: "bytes list \<Rightarrow> bool \<Rightarrow> (submission_accepted, db) exchange" where
  "served_sample bs ended = serve_submission small_app sample_env alone sample_parser (read_body 3 8 (\<lambda>_. False) [])
     sample_request \<lparr>scope_type = lit ''http'', scope_headers = []\<rparr> (body_messages bs ended) sample_db"

lemma public_route_capped_witness:
  "(\<exists>acc. ex_sent (served_sample [[1, 2, 3], [4]] True) = [ResponseStart 202, ResponseBody acc] \<and> acc_submission_id acc = lit ''sub_9'') \<and>
   (\<exists>d'. ex_result (served_sample [[1, 2, 3, 4, 5], [6, 7, 8, 9, 10]] True) = Some d' \<and> counters_only sample_db d') \<and>
   ex_sent (served_sample [[1, 2, 3, 4, 5], [6, 7, 8, 9, 10]] True) = too_large_answer 8 \<and>
   ex_sent (served_sample [[1, 2, 3]] False) = answered (Inl Unexpected)"
proof -
  let ?make = "\<lambda>_. Some \<lparr>url_backend = lit ''postgresql'', url_database = None\<rparr>"
  have app: "create_app ?make small_settings = Some small_app"
    by (simp add: create_app_def create_engine_from_url_def small_app_def small_settings_def sqlite_def lit_def)
  have up: "gives_up (\<lambda>_. False) sample_parser sample_request" by (simp add: gives_up_def)
  obtain r d' where before: "before_body small_settings sample_env alone sample_request sample_db = (r, d')"
    by (cases "before_body small_settings sample_env alone sample_request sample_db")
  have "\<not> isl (fst (before_body small_settings sample_env alone sample_request sample_db))" by code_simp
  then obtain ek where r: "r = Inr ek" using before by (cases r) auto
  have cap: "cfg_max_body_bytes small_settings = 8" by (simp add: small_settings_def)
  have reader: "streams 8 (\<lambda>_. False) n (read_body 3 8 (\<lambda>_. False) [] :: (submission_accepted, db) body_reader)" if "n \<le> 2" for n
    using streams_fewer [OF read_body_streams that] by (simp only: numeral_3_eq_3 numeral_2_eq_2)
  note run = public_route_capped [OF app _ reader up _ served_sample_def refl before cap [symmetric] refl, simplified length_map]
  have "map_sum id acc_submission_id (fst (submit small_settings sample_env alone sample_parser (sample_request\<lparr>rq_body := [1, 2, 3, 4]\<rparr>) sample_db))
    = Inr (lit ''sub_9'')" by code_simp
  then obtain acc where "fst (submit small_settings sample_env alone sample_parser (sample_request\<lparr>rq_body := [1, 2, 3, 4]\<rparr>) sample_db) = Inr acc"
    "acc_submission_id acc = lit ''sub_9''"
    by (cases "fst (submit small_settings sample_env alone sample_parser (sample_request\<lparr>rq_body := [1, 2, 3, 4]\<rparr>) sample_db)") auto
  with run [where ended = True and bs = "[[1, 2, 3], [4]]"] have "\<exists>acc. ex_sent (served_sample [[1, 2, 3], [4]] True) = [ResponseStart 202, ResponseBody acc] \<and>
    acc_submission_id acc = lit ''sub_9''" by (simp add: answered_def)
  moreover from run [where ended = True and bs = "[[1, 2, 3, 4, 5], [6, 7, 8, 9, 10]]"] have "ex_result (served_sample [[1, 2, 3, 4, 5], [6, 7, 8, 9, 10]] True) = Some d'"
    "counters_only sample_db d'" "ex_sent (served_sample [[1, 2, 3, 4, 5], [6, 7, 8, 9, 10]] True) = answered (Inl (Api (request_body_too_large 8)))"
    by (simp_all add: r broken_off_def)
  moreover from run [where ended = False and bs = "[[1, 2, 3]]"] have "ex_sent (served_sample [[1, 2, 3]] False) = answered (Inl Unexpected)"
    by (simp add: r broken_off_def)
  ultimately show ?thesis
    by (simp add: answered_def too_large_answer_def as_response_def error_response_def request_body_too_large_def)
qed

end
