(* ===== verification/Ddl.thy ===== *)
theory Ddl
  imports Main
begin

text \<open>
  The schema statements the migrations are written in, on a database with tables and rows: what each
  does to the schema, what it does to the rows, and when the database refuses it. Values are opaque:
  a cell is \<open>None\<close> for NULL or holds some value, and statements only copy and compare them. The conditions
  of CHECK constraints are carried along as text and not evaluated; no statement here writes to a column
  one of them mentions.
\<close>

subsection \<open>Schemas\<close>

datatype sql_type = VARCHAR int | BOOLEAN | TIMESTAMPTZ | JSON | INTEGER

record column =
  col_name :: string
  col_type :: sql_type
  col_nullable :: bool

datatype table_constraint =
    PrimaryKey string "string list"
  | ForeignKey string "string list" string "string list" "string option"
  | Unique string "string list"
  | Check string string

record index =
  ix_name :: string
  ix_columns :: "string list"

record table =
  tb_name :: string
  tb_columns :: "column list"
  tb_constraints :: "table_constraint list"
  tb_indexes :: "index list"

type_synonym schema = "table list"

fun constraint_name :: "table_constraint \<Rightarrow> string" where
  "constraint_name (PrimaryKey n cols) = n"
| "constraint_name (ForeignKey n cols p pcols rule) = n"
| "constraint_name (Unique n cols) = n"
| "constraint_name (Check n condition) = n"

fun constraint_columns :: "table_constraint \<Rightarrow> string list" where
  "constraint_columns (PrimaryKey n cols) = cols"
| "constraint_columns (ForeignKey n cols p pcols rule) = cols"
| "constraint_columns (Unique n cols) = cols"
| "constraint_columns (Check n condition) = []"

fun refers_to_table :: "string \<Rightarrow> table_constraint \<Rightarrow> bool" where
  "refers_to_table t (ForeignKey n cols p pcols rule) \<longleftrightarrow> p = t"
| "refers_to_table t _ \<longleftrightarrow> False"

fun refers_to_column :: "string \<Rightarrow> string \<Rightarrow> table_constraint \<Rightarrow> bool" where
  "refers_to_column t c (ForeignKey n cols p pcols rule) \<longleftrightarrow> p = t \<and> c \<in> set pcols"
| "refers_to_column t c _ \<longleftrightarrow> False"

definition find_table :: "schema \<Rightarrow> string \<Rightarrow> table option" where
  "find_table s t = find (\<lambda>tb. tb_name tb = t) s"

definition column_names :: "table \<Rightarrow> string list" where
  "column_names tb = map col_name (tb_columns tb)"

definition has_columns :: "schema \<Rightarrow> string \<Rightarrow> string list \<Rightarrow> bool" where
  "has_columns s t cols \<longleftrightarrow> (case find_table s t of None \<Rightarrow> False | Some tb \<Rightarrow> set cols \<subseteq> set (column_names tb))"

definition map_table :: "string \<Rightarrow> (table \<Rightarrow> table) \<Rightarrow> schema \<Rightarrow> schema" where
  "map_table t f s = map (\<lambda>tb. if tb_name tb = t then f tb else tb) s"

text \<open>Names of indexes are shared by the whole schema, those of constraints belong to their table.\<close>

definition index_names :: "schema \<Rightarrow> string list" where
  "index_names s = concat (map (\<lambda>tb. map ix_name (tb_indexes tb)) s)"

definition has_constraint :: "schema \<Rightarrow> string \<Rightarrow> string \<Rightarrow> bool" where
  "has_constraint s t n \<longleftrightarrow>
     (case find_table s t of None \<Rightarrow> False | Some tb \<Rightarrow> n \<in> set (map constraint_name (tb_constraints tb)))"

definition constraint_fits :: "schema \<Rightarrow> string list \<Rightarrow> table_constraint \<Rightarrow> bool" where
  "constraint_fits s cols con \<longleftrightarrow>
     set (constraint_columns con) \<subseteq> set cols \<and>
     (case con of ForeignKey n fk p pcols rule \<Rightarrow> has_columns s p pcols \<and> length fk = length pcols | _ \<Rightarrow> True)"

subsection \<open>Statements\<close>

datatype statement =
    CreateTable string "column list" "table_constraint list"
  | DropTable string
  | AddColumn string column
  | DropColumn string string
  | SetNullable string string bool
  | CreateForeignKey string string "string list" string "string list" "string option"
  | DropConstraint string string
  | CreateIndex string string "string list"
  | DropIndex string string
  | CopyColumn string string string
  | CopyFromParent string string string string string string
  | DeleteWhereNull string string

text \<open>
  \<open>CopyColumn t a b\<close> is \<^verbatim>\<open>UPDATE t SET a = b\<close>; \<open>CopyFromParent t a p b k fk\<close> is
  \<^verbatim>\<open>UPDATE t SET a = (SELECT p.b FROM p WHERE p.k = t.fk)\<close>; \<open>DeleteWhereNull t c\<close> is
  \<^verbatim>\<open>DELETE FROM t WHERE c IS NULL\<close>.
\<close>

fun alter_schema :: "statement \<Rightarrow> schema \<Rightarrow> schema option" where
  "alter_schema (CreateTable t cols cons) s =
     (if find_table s t = None \<and> distinct (map col_name cols) \<and> distinct (map constraint_name cons) \<and>
         list_all (constraint_fits s (map col_name cols)) cons
      then Some (s @ [\<lparr>tb_name = t, tb_columns = cols, tb_constraints = cons, tb_indexes = []\<rparr>]) else None)"
| "alter_schema (DropTable t) s =
     (if find_table s t \<noteq> None \<and>
         \<not> list_ex (\<lambda>tb. tb_name tb \<noteq> t \<and> list_ex (refers_to_table t) (tb_constraints tb)) s
      then Some (filter (\<lambda>tb. tb_name tb \<noteq> t) s) else None)"
| "alter_schema (AddColumn t c) s =
     (if find_table s t \<noteq> None \<and> \<not> has_columns s t [col_name c]
      then Some (map_table t (\<lambda>tb. tb\<lparr>tb_columns := tb_columns tb @ [c]\<rparr>) s) else None)"
| "alter_schema (DropColumn t c) s =
     (if has_columns s t [c] \<and> \<not> list_ex (\<lambda>tb. list_ex (refers_to_column t c) (tb_constraints tb)) s
      then Some (map_table t (\<lambda>tb. tb\<lparr>tb_columns := filter (\<lambda>k. col_name k \<noteq> c) (tb_columns tb),
        tb_constraints := filter (\<lambda>k. c \<notin> set (constraint_columns k)) (tb_constraints tb),
        tb_indexes := filter (\<lambda>i. c \<notin> set (ix_columns i)) (tb_indexes tb)\<rparr>) s) else None)"
| "alter_schema (SetNullable t c b) s =
     (if has_columns s t [c]
      then Some (map_table t (\<lambda>tb. tb\<lparr>tb_columns :=
        map (\<lambda>k. if col_name k = c then k\<lparr>col_nullable := b\<rparr> else k) (tb_columns tb)\<rparr>) s) else None)"
| "alter_schema (CreateForeignKey t n cols p pcols rule) s =
     (if has_columns s t cols \<and> \<not> has_constraint s t n \<and> constraint_fits s cols (ForeignKey n cols p pcols rule)
      then Some (map_table t (\<lambda>tb. tb\<lparr>tb_constraints := tb_constraints tb @ [ForeignKey n cols p pcols rule]\<rparr>) s) else None)"
| "alter_schema (DropConstraint t n) s =
     (if has_constraint s t n
      then Some (map_table t (\<lambda>tb. tb\<lparr>tb_constraints := filter (\<lambda>k. constraint_name k \<noteq> n) (tb_constraints tb)\<rparr>) s)
      else None)"
| "alter_schema (CreateIndex t n cols) s =
     (if has_columns s t cols \<and> n \<notin> set (index_names s)
      then Some (map_table t (\<lambda>tb. tb\<lparr>tb_indexes := tb_indexes tb @ [\<lparr>ix_name = n, ix_columns = cols\<rparr>]\<rparr>) s) else None)"
| "alter_schema (DropIndex t n) s =
     (case find_table s t of
        None \<Rightarrow> None
      | Some tb \<Rightarrow>
          if n \<in> set (map ix_name (tb_indexes tb))
          then Some (map_table t (\<lambda>tb. tb\<lparr>tb_indexes := filter (\<lambda>i. ix_name i \<noteq> n) (tb_indexes tb)\<rparr>) s) else None)"
| "alter_schema (CopyColumn t a b) s = (if has_columns s t [a, b] then Some s else None)"
| "alter_schema (CopyFromParent t a p b k fk) s =
     (if has_columns s t [a, fk] \<and> has_columns s p [b, k] then Some s else None)"
| "alter_schema (DeleteWhereNull t c) s = (if has_columns s t [c] then Some s else None)"

subsection \<open>Rows\<close>

type_synonym 'v table_row = "string \<Rightarrow> 'v option"
type_synonym 'v rows = "string \<Rightarrow> 'v table_row list"

definition refers :: "'v rows \<Rightarrow> string list \<Rightarrow> string \<Rightarrow> string list \<Rightarrow> 'v table_row \<Rightarrow> bool" where
  "refers R cols p pcols r \<longleftrightarrow>
     list_ex (\<lambda>c. r c = None) cols \<or> list_ex (\<lambda>q. map r cols = map q pcols) (R p)"

fun constraint_holds :: "'v rows \<Rightarrow> string \<Rightarrow> table_constraint \<Rightarrow> bool" where
  "constraint_holds R t (ForeignKey n cols p pcols rule) \<longleftrightarrow> list_all (refers R cols p pcols) (R t)"
| "constraint_holds R t (PrimaryKey n cols) \<longleftrightarrow> distinct (map (\<lambda>r. map r cols) (R t))"
| "constraint_holds R t (Unique n cols) \<longleftrightarrow>
     distinct (map (\<lambda>r. map r cols) (filter (\<lambda>r. list_all (\<lambda>c. r c \<noteq> None) cols) (R t)))"
| "constraint_holds R t (Check n condition) \<longleftrightarrow> True"

definition nulls_fit :: "table \<Rightarrow> 'v table_row \<Rightarrow> bool" where
  "nulls_fit tb r \<longleftrightarrow> list_all (\<lambda>k. col_nullable k \<or> r (col_name k) \<noteq> None) (tb_columns tb)"

text \<open>What the database enforces.\<close>

definition obeys :: "schema \<Rightarrow> 'v rows \<Rightarrow> bool" where
  "obeys s R \<longleftrightarrow>
     list_all (\<lambda>tb. list_all (nulls_fit tb) (R (tb_name tb)) \<and> list_all (constraint_holds R (tb_name tb)) (tb_constraints tb)) s"

text \<open>Whether a column may hold NULL, in every table of the name.\<close>

definition accepts_null :: "schema \<Rightarrow> string \<Rightarrow> string \<Rightarrow> bool" where
  "accepts_null s t c \<longleftrightarrow>
     list_all (\<lambda>tb. tb_name tb = t \<longrightarrow> list_all (\<lambda>k. col_name k = c \<longrightarrow> col_nullable k) (tb_columns tb)) s"

definition write_column :: "string \<Rightarrow> string \<Rightarrow> ('v table_row \<Rightarrow> 'v option) \<Rightarrow> 'v rows \<Rightarrow> 'v rows" where
  "write_column t c f R = R(t := map (\<lambda>r. r(c := f r)) (R t))"

definition parent_value :: "'v rows \<Rightarrow> string \<Rightarrow> string \<Rightarrow> string \<Rightarrow> 'v option \<Rightarrow> 'v option" where
  "parent_value R p b k v =
     (case v of
        None \<Rightarrow> None
      | Some x \<Rightarrow> (case find (\<lambda>q. q k = Some x) (R p) of None \<Rightarrow> None | Some q \<Rightarrow> q b))"

text \<open>
  What a statement makes of the rows. Deleting rows leaves what refers to them, so it is refused while
  anything does; the rules of foreign keys are not run here, since the scripts delete only from tables
  that no foreign key with a rule refers to.
\<close>

fun change_rows :: "statement \<Rightarrow> 'v rows \<Rightarrow> 'v rows" where
  "change_rows (CreateTable t cols cons) R = R(t := [])"
| "change_rows (DropTable t) R = R(t := [])"
| "change_rows (AddColumn t c) R = write_column t (col_name c) (\<lambda>r. None) R"
| "change_rows (DropColumn t c) R = write_column t c (\<lambda>r. None) R"
| "change_rows (CopyColumn t a b) R = write_column t a (\<lambda>r. r b) R"
| "change_rows (CopyFromParent t a p b k fk) R = write_column t a (\<lambda>r. parent_value R p b k (r fk)) R"
| "change_rows (DeleteWhereNull t c) R = R(t := filter (\<lambda>r. r c \<noteq> None) (R t))"
| "change_rows _ R = R"

record 'v database =
  db_schema :: schema
  db_rows :: "'v rows"

text \<open>A statement that would leave a row or a constraint violated is refused.\<close>

definition run_statement :: "statement \<Rightarrow> 'v database \<Rightarrow> 'v database option" where
  "run_statement st d =
     (case alter_schema st (db_schema d) of
        None \<Rightarrow> None
      | Some s \<Rightarrow>
          (let R = change_rows st (db_rows d)
           in if obeys s R then Some \<lparr>db_schema = s, db_rows = R\<rparr> else None))"

fun run_script :: "statement list \<Rightarrow> 'v database \<Rightarrow> 'v database option" where
  "run_script [] d = Some d"
| "run_script (st # sts) d = (case run_statement st d of None \<Rightarrow> None | Some d' \<Rightarrow> run_script sts d')"

text \<open>Rows that obey their schema and hold nothing outside of its columns.\<close>

definition rows_fit :: "'v database \<Rightarrow> bool" where
  "rows_fit d \<longleftrightarrow>
     obeys (db_schema d) (db_rows d) \<and>
     (\<forall>t. find_table (db_schema d) t = None \<longrightarrow> db_rows d t = []) \<and>
     (\<forall>t. \<forall>r\<in>set (db_rows d t). \<forall>c. \<not> has_columns (db_schema d) t [c] \<longrightarrow> r c = None)"

text \<open>The same schema up to the order in which things are listed.\<close>

definition same_items :: "'a list \<Rightarrow> 'a list \<Rightarrow> bool" where
  "same_items xs ys \<longleftrightarrow> distinct xs \<and> distinct ys \<and> set xs = set ys"

definition same_table :: "table \<Rightarrow> table \<Rightarrow> bool" where
  "same_table a b \<longleftrightarrow>
     tb_name a = tb_name b \<and> same_items (tb_columns a) (tb_columns b) \<and>
     same_items (tb_constraints a) (tb_constraints b) \<and> same_items (tb_indexes a) (tb_indexes b)"

definition same_schema :: "schema \<Rightarrow> schema \<Rightarrow> bool" where
  "same_schema s s' \<longleftrightarrow>
     length s = length s' \<and> list_all (\<lambda>a. list_ex (same_table a) s') s \<and> list_all (\<lambda>b. list_ex (same_table b) s) s'"

subsection \<open>Running a script part by part\<close>

fun run_schema :: "statement list \<Rightarrow> schema \<Rightarrow> schema option" where
  "run_schema [] s = Some s"
| "run_schema (st # sts) s = (case alter_schema st s of None \<Rightarrow> None | Some s' \<Rightarrow> run_schema sts s')"

lemma run_script_append:
  "run_script (xs @ ys) d = (case run_script xs d of None \<Rightarrow> None | Some d' \<Rightarrow> run_script ys d')"
  by (induction xs arbitrary: d) (auto split: option.split)

text \<open>
  Statements that leave the rows as they are when what they ask of them holds already: a table created or
  dropped has no rows, a column that is made mandatory has no NULL, a new foreign key is satisfied, and
  there is nothing to delete.
\<close>

fun obligation :: "statement \<Rightarrow> 'v rows \<Rightarrow> bool" where
  "obligation (CreateTable t cols cons) R \<longleftrightarrow> R t = []"
| "obligation (DropTable t) R \<longleftrightarrow> R t = []"
| "obligation (SetNullable t c b) R \<longleftrightarrow> b \<or> list_all (\<lambda>r. r c \<noteq> None) (R t)"
| "obligation (CreateForeignKey t n cols p pcols rule) R \<longleftrightarrow> constraint_holds R t (ForeignKey n cols p pcols rule)"
| "obligation (DropConstraint t n) R \<longleftrightarrow> True"
| "obligation (CreateIndex t n cols) R \<longleftrightarrow> True"
| "obligation (DropIndex t n) R \<longleftrightarrow> True"
| "obligation (DeleteWhereNull t c) R \<longleftrightarrow> list_all (\<lambda>r. r c \<noteq> None) (R t)"
| "obligation _ R \<longleftrightarrow> False"

lemma obligation_rows: "obligation st R \<Longrightarrow> change_rows st R = R"
  by (cases st) (auto simp: list_all_iff filter_id_conv)

lemma constraint_holds_empty: "R t = [] \<Longrightarrow> constraint_holds R t k"
  by (cases k) simp_all

lemma obeys_map_table:
  assumes "obeys s R"
    and "\<And>tb. tb \<in> set s \<Longrightarrow> tb_name tb = t \<Longrightarrow> tb_name (f tb) = t \<and> list_all (nulls_fit (f tb)) (R t) \<and>
      list_all (constraint_holds R t) (tb_constraints (f tb))"
  shows "obeys (map_table t f s) R"
  using assms by (auto simp: obeys_def map_table_def list_all_iff)

lemma obeysD:
  "obeys s R \<Longrightarrow> tb \<in> set s \<Longrightarrow> list_all (nulls_fit tb) (R (tb_name tb)) \<and>
   list_all (constraint_holds R (tb_name tb)) (tb_constraints tb)"
  by (auto simp: obeys_def list_all_iff)

lemma obligation_obeys:
  assumes "obligation st R" "alter_schema st s = Some s'" "obeys s R"
  shows "obeys s' R"
proof (cases st)
  case (CreateTable t cols cons)
  with assms show ?thesis
    by (auto simp: obeys_def constraint_holds_empty list_all_iff split: if_splits)
next
  case (DropTable t)
  with assms show ?thesis by (auto simp: obeys_def list_all_iff split: if_splits)
next
  case (SetNullable t c b)
  then have s': "s' = map_table t (\<lambda>tb. tb\<lparr>tb_columns :=
      map (\<lambda>k. if col_name k = c then k\<lparr>col_nullable := b\<rparr> else k) (tb_columns tb)\<rparr>) s"
    and b: "b \<or> list_all (\<lambda>r. r c \<noteq> None) (R t)" using assms(1,2) by (auto split: if_splits)
  show ?thesis
    unfolding s'
  proof (rule obeys_map_table [OF assms(3)], intro conjI)
    fix tb assume tb: "tb \<in> set s" "tb_name tb = t"
    note fit = obeysD [OF assms(3) tb(1), unfolded tb(2)]
    let ?tb = "tb\<lparr>tb_columns := map (\<lambda>k. if col_name k = c then k\<lparr>col_nullable := b\<rparr> else k) (tb_columns tb)\<rparr>"
    show "tb_name ?tb = t" "list_all (constraint_holds R t) (tb_constraints ?tb)" using tb fit by simp_all
    show "list_all (nulls_fit ?tb) (R t)"
      unfolding list_all_iff nulls_fit_def
    proof (intro ballI)
      fix r k assume r: "r \<in> set (R t)" and "k \<in> set (tb_columns ?tb)"
      then obtain k0 where k0: "k0 \<in> set (tb_columns tb)" "k = (if col_name k0 = c then k0\<lparr>col_nullable := b\<rparr> else k0)" by auto
      with r fit have "col_nullable k0 \<or> r (col_name k0) \<noteq> None" by (auto simp: list_all_iff nulls_fit_def)
      with b r k0(2) show "col_nullable k \<or> r (col_name k) \<noteq> None" by (auto simp: list_all_iff)
    qed
  qed
next
  case (CreateForeignKey t n cols p pcols rule)
  with assms obeysD [OF assms(3)] show ?thesis
    by (auto simp: nulls_fit_def list_all_iff split: if_splits intro!: obeys_map_table)
next
  case (DropConstraint t n)
  with assms obeysD [OF assms(3)] show ?thesis
    by (auto simp: nulls_fit_def list_all_iff split: if_splits intro!: obeys_map_table)
next
  case (CreateIndex t n cols)
  with assms obeysD [OF assms(3)] show ?thesis
    by (auto simp: nulls_fit_def list_all_iff split: if_splits intro!: obeys_map_table)
next
  case (DropIndex t n)
  with assms obeysD [OF assms(3)] show ?thesis
    by (auto simp: nulls_fit_def list_all_iff split: if_splits option.splits intro!: obeys_map_table)
qed (use assms in \<open>auto split: if_splits\<close>)

lemma run_static:
  "list_all (\<lambda>st. obligation st R) sts \<Longrightarrow> run_schema sts s = Some s' \<Longrightarrow> obeys s R \<Longrightarrow>
   run_script sts \<lparr>db_schema = s, db_rows = R\<rparr> = Some \<lparr>db_schema = s', db_rows = R\<rparr>"
proof (induction sts arbitrary: s)
  case (Cons st sts)
  then obtain s1 where s1: "alter_schema st s = Some s1" "run_schema sts s1 = Some s'" by (auto split: option.splits)
  have "obeys s1 R" using obligation_obeys [OF _ s1(1) Cons.prems(3)] Cons.prems(1) by simp
  with s1 Cons show ?case by (simp add: run_statement_def obligation_rows Let_def)
qed simp

lemma static_obeys:
  "list_all (\<lambda>st. obligation st R) sts \<Longrightarrow> run_schema sts s = Some s' \<Longrightarrow> obeys s R \<Longrightarrow> obeys s' R"
  by (induction sts arbitrary: s) (auto split: option.splits intro: obligation_obeys)

subsection \<open>Writing one column\<close>

text \<open>No constraint speaks of the column.\<close>

definition untouched :: "schema \<Rightarrow> string \<Rightarrow> string \<Rightarrow> bool" where
  "untouched s t c \<longleftrightarrow>
     list_all (\<lambda>tb. list_all (\<lambda>k. (tb_name tb = t \<longrightarrow> c \<notin> set (constraint_columns k)) \<and> \<not> refers_to_column t c k)
       (tb_constraints tb)) s"

lemma map_upd_other: "c \<notin> set cols \<Longrightarrow> map (r(c := x)) cols = map r cols"
  by (induction cols) auto

lemma rows_written: "write_column t c f R t' = (if t' = t then map (\<lambda>r. r(c := f r)) (R t) else R t')"
  by (simp add: write_column_def)

lemma refers_cong: "map r' cols = map r cols \<Longrightarrow> refers R cols p pcols r' = refers R cols p pcols r"
proof -
  assume a: "map r' cols = map r cols"
  then have "list_ex (\<lambda>k. r' k = None) cols = list_ex (\<lambda>k. r k = None) cols" by (induction cols) auto
  then show ?thesis by (simp add: refers_def a del: map_eq_conv)
qed

lemma refers_written:
  assumes "p = t \<longrightarrow> c \<notin> set pcols" "map r' cols = map r cols"
  shows "refers (write_column t c f R) cols p pcols r' = refers R cols p pcols r"
proof -
  have "list_ex (\<lambda>q. map r cols = map q pcols) (write_column t c f R p) = list_ex (\<lambda>q. map r cols = map q pcols) (R p)"
    using assms(1) by (auto simp: rows_written list_ex_iff map_upd_other simp del: map_eq_conv)
  then have "refers (write_column t c f R) cols p pcols r = refers R cols p pcols r"
    by (simp add: refers_def del: map_eq_conv)
  then show ?thesis using refers_cong [OF assms(2)] by simp
qed

lemma constraint_holds_written:
  fixes R :: "'v rows"
  assumes "t' = t \<longrightarrow> c \<notin> set (constraint_columns k)" "\<not> refers_to_column t c k"
  shows "constraint_holds (write_column t c f R) t' k = constraint_holds R t' k"
proof (cases "t' = t")
  case same: True
  have row: "map (r(c := x)) (constraint_columns k) = map r (constraint_columns k)" for r and x :: "'v option"
    using assms(1) same by (simp add: map_upd_other)
  show ?thesis
  proof (cases k)
    case (ForeignKey n cols p pcols rule)
    have p: "p = t \<longrightarrow> c \<notin> set pcols" using assms(2) ForeignKey by auto
    have "refers (write_column t c f R) cols p pcols (r(c := x)) = refers R cols p pcols r" for r x
      by (rule refers_written [OF p]) (use row ForeignKey in simp)
    then show ?thesis using ForeignKey same by (simp add: rows_written list_all_iff)
  next
    case (Unique n cols)
    have some: "list_all (\<lambda>k. (k = c \<longrightarrow> (\<exists>y. x = Some y)) \<and> (k \<noteq> c \<longrightarrow> (\<exists>y. r k = Some y))) cols =
        list_all (\<lambda>k. \<exists>y. r k = Some y) cols" for r :: "'v table_row" and x :: "'v option"
      using assms(1) same Unique by (auto simp: list_all_iff)
    show ?thesis using Unique same row by (simp add: rows_written filter_map comp_def some del: map_eq_conv)
  qed (use same row in \<open>simp_all add: rows_written comp_def del: map_eq_conv\<close>)
next
  case False
  show ?thesis
  proof (cases k)
    case (ForeignKey n cols p pcols rule)
    have "p = t \<longrightarrow> c \<notin> set pcols" using assms(2) ForeignKey by auto
    then have "refers (write_column t c f R) cols p pcols = refers R cols p pcols" by (intro ext refers_written) simp_all
    with ForeignKey False show ?thesis by (simp add: rows_written)
  qed (use False in \<open>simp_all add: rows_written\<close>)
qed

text \<open>The three statements that write to a column, and dropping one.\<close>

lemma obeys_written:
  assumes "obeys s R" "untouched s t c" "accepts_null s t c \<or> list_all (\<lambda>r. f r \<noteq> None) (R t)"
  shows "obeys s (write_column t c f R)"
  unfolding obeys_def list_all_iff
proof (intro ballI conjI)
  fix tb assume tb: "tb \<in> set s"
  note fit = obeysD [OF assms(1) tb]
  {
    fix r assume r: "r \<in> set (write_column t c f R (tb_name tb))"
    show "nulls_fit tb r"
    proof (cases "tb_name tb = t")
      case True
      with r obtain q where q: "q \<in> set (R t)" "r = q(c := f q)" by (auto simp: rows_written)
      with fit True have "nulls_fit tb q" by (auto simp: list_all_iff)
      with q assms(3) tb True show ?thesis by (auto simp: nulls_fit_def list_all_iff accepts_null_def)
    qed (use r fit in \<open>auto simp: rows_written list_all_iff\<close>)
  }
  fix k assume k: "k \<in> set (tb_constraints tb)"
  have "tb_name tb = t \<longrightarrow> c \<notin> set (constraint_columns k)" "\<not> refers_to_column t c k"
    using assms(2) tb k by (auto simp: untouched_def list_all_iff)
  from constraint_holds_written [OF this, of f R] fit k show "constraint_holds (write_column t c f R) (tb_name tb) k"
    by (simp add: list_all_iff)
qed

lemma run_write:
  assumes "obeys s R" "alter_schema st s = Some s" "change_rows st R = write_column t c f R"
    and "untouched s t c" "accepts_null s t c \<or> list_all (\<lambda>r. f r \<noteq> None) (R t)"
  shows "run_statement st \<lparr>db_schema = s, db_rows = R\<rparr> = Some \<lparr>db_schema = s, db_rows = write_column t c f R\<rparr>"
  using assms obeys_written [OF assms(1,4,5)] by (simp add: run_statement_def Let_def)

lemma run_AddColumn:
  assumes "obeys s R" "alter_schema (AddColumn t k) s = Some s'" "untouched s t (col_name k)"
    and "accepts_null s t (col_name k)" "col_nullable k"
  shows "run_statement (AddColumn t k) \<lparr>db_schema = s, db_rows = R\<rparr> =
    Some \<lparr>db_schema = s', db_rows = write_column t (col_name k) (\<lambda>r. None) R\<rparr>"
proof -
  let ?R = "write_column t (col_name k) (\<lambda>r. None) R"
  have s': "s' = map_table t (\<lambda>tb. tb\<lparr>tb_columns := tb_columns tb @ [k]\<rparr>) s" using assms(2) by (auto split: if_splits)
  have R: "obeys s ?R" by (rule obeys_written [OF assms(1,3)]) (use assms(4) in simp)
  have "obeys s' ?R"
    unfolding s' using obeysD [OF R] assms(5) by (intro obeys_map_table [OF R]) (auto simp: nulls_fit_def list_all_iff)
  with assms(2) show ?thesis by (simp add: run_statement_def Let_def del: alter_schema.simps)
qed

lemma run_DropColumn:
  assumes "obeys s R" "alter_schema (DropColumn t c) s = Some s'" "untouched s' t c" "accepts_null s' t c"
  shows "run_statement (DropColumn t c) \<lparr>db_schema = s, db_rows = R\<rparr> =
    Some \<lparr>db_schema = s', db_rows = write_column t c (\<lambda>r. None) R\<rparr>"
proof -
  have s': "s' = map_table t (\<lambda>tb. tb\<lparr>tb_columns := filter (\<lambda>k. col_name k \<noteq> c) (tb_columns tb),
        tb_constraints := filter (\<lambda>k. c \<notin> set (constraint_columns k)) (tb_constraints tb),
        tb_indexes := filter (\<lambda>i. c \<notin> set (ix_columns i)) (tb_indexes tb)\<rparr>) s" using assms(2) by (auto split: if_splits)
  have "obeys s' R"
    unfolding s' using obeysD [OF assms(1)] by (intro obeys_map_table [OF assms(1)]) (auto simp: nulls_fit_def list_all_iff)
  from obeys_written [OF this assms(3)] assms(4) have "obeys s' (write_column t c (\<lambda>r. None) R)" by simp
  with assms(2) show ?thesis by (simp add: run_statement_def Let_def del: alter_schema.simps)
qed

text \<open>Writing a column a row did not have and clearing it again changes nothing.\<close>

lemma write_twice: "write_column t c g (write_column t c f R) = write_column t c (\<lambda>r. g (r(c := f r))) R"
  by (simp add: write_column_def comp_def fun_eq_iff)

lemma write_back: "(\<And>r. r \<in> set (R t) \<Longrightarrow> f r = r c) \<Longrightarrow> write_column t c f R = R"
  by (auto simp: write_column_def fun_eq_iff intro!: map_idI)

text \<open>Every cell that held a value still holds it.\<close>

definition keeps_cells :: "'v rows \<Rightarrow> 'v rows \<Rightarrow> bool" where
  "keeps_cells R R' \<longleftrightarrow> (\<forall>t. list_all2 (\<lambda>r r'. \<forall>c v. r c = Some v \<longrightarrow> r' c = Some v) (R t) (R' t))"

lemma keeps_refl: "keeps_cells R R"
  by (auto simp: keeps_cells_def list_all2_same)

lemma keeps_written: "\<forall>r\<in>set (R t). r c = None \<Longrightarrow> keeps_cells R (write_column t c f R)"
  by (auto simp: keeps_cells_def rows_written list_all2_map2 list_all2_same list.rel_refl)

end
