(* ===== verification/Delivery.thy ===== *)
theory Delivery
  imports Config
begin

text \<open>
  \<^verbatim>\<open>delivery.py\<close>: one outbound request and what it comes to. The HTTP client is a library and the
  destination is somebody else's; together they are the function \<open>send\<close> from a request to what the
  client reports. With \<^verbatim>\<open>format(x, "g")\<close>, which the deadline is written with.
\<close>

subsection \<open>Writing a number\<close>

text \<open>\<open>dec_exponent n e x\<close> is the decimal exponent of \<open>x * 10 ^ e\<close>; \<open>n\<close> steps are enough for a double.\<close>

primrec dec_exponent :: "nat \<Rightarrow> int \<Rightarrow> rat \<Rightarrow> int" where
  "dec_exponent 0 e x = e"
| "dec_exponent (Suc n) e x =
     (if 10 \<le> x then dec_exponent n (e + 1) (x / 10) else if x < 1 then dec_exponent n (e - 1) (x * 10) else e)"

definition pow10 :: "int \<Rightarrow> rat" where
  "pow10 e = (if 0 \<le> e then 10 ^ nat e else 1 / 10 ^ nat (- e))"

definition strip_zeros :: "pystr \<Rightarrow> pystr" where
  "strip_zeros s = rev (dropWhile (\<lambda>c. c = 48) (rev s))"

definition with_point :: "pystr \<Rightarrow> pystr \<Rightarrow> pystr" where
  "with_point whole fraction = (let f = strip_zeros fraction in if f = [] then whole else whole @ [46] @ f)"

text \<open>Six decimal digits of a number below a million, the first one not zero.\<close>

definition six_digits :: "int \<Rightarrow> pystr" where
  "six_digits m = map (\<lambda>p. 48 + nat (m div 10 ^ p mod 10)) [5, 4, 3, 2, 1, 0]"

text \<open>Six significant digits, trailing zeros removed, for a value that is not negative.\<close>

definition format_g :: "rat \<Rightarrow> pystr" where
  "format_g x =
     (if x = 0 then lit ''0''
      else
        (let e0 = dec_exponent 700 0 x;
             m0 = round_half_even (x / pow10 e0 * 100000);
             (e, m) = (if m0 = 1000000 then (e0 + 1, 100000) else (e0, m0));
             digits = six_digits m
         in if - 4 \<le> e \<and> e < 6
            then (if 0 \<le> e then with_point (take (nat e + 1) digits) (drop (nat e + 1) digits)
                  else with_point (lit ''0'') (replicate (nat (- e) - 1) 48 @ digits))
            else with_point (take 1 digits) (drop 1 digits) @ [101, if 0 \<le> e then 43 else 45] @ zfill 2 (decimal (nat \<bar>e\<bar>))))"

subsection \<open>Requests and answers\<close>

record outbound_request =
  or_url :: pystr
  or_headers :: "(pystr \<times> pystr) list"
  or_body :: bytes

text \<open>
  What the client reports: the status of a response, or which of its errors was raised, with the text
  of the error; that the attempt's own deadline passed; or an exception nobody expects of it.
\<close>

datatype client_answer =
    Responded int
  | TimeoutException pystr
  | RequestError pystr
  | InvalidURL pystr
  | DeadlinePassed
  | ClientRaised py_exn

definition user_agent :: pystr where "user_agent = lit ''Hymical-Forms/0.2.0''"
definition signature_header :: pystr where "signature_header = lit ''Hymical-Signature''"
definition delivery_error_max_length :: nat where "delivery_error_max_length = 500"

definition attempt_deadline_seconds :: "settings \<Rightarrow> rat" where
  "attempt_deadline_seconds s = cfg_webhook_connect_timeout_seconds s + cfg_webhook_read_timeout_seconds s"

text \<open>The client every request is sent through: its timeouts, and that it neither follows redirects nor retries.\<close>

record webhook_client =
  wc_connect_timeout :: rat
  wc_read_timeout :: rat
  wc_write_timeout :: rat
  wc_pool_timeout :: rat
  wc_follow_redirects :: bool
  wc_retries :: nat

definition create_webhook_client :: "settings \<Rightarrow> webhook_client" where
  "create_webhook_client s =
     \<lparr>wc_connect_timeout = cfg_webhook_connect_timeout_seconds s, wc_read_timeout = cfg_webhook_read_timeout_seconds s,
      wc_write_timeout = cfg_webhook_read_timeout_seconds s, wc_pool_timeout = cfg_webhook_connect_timeout_seconds s,
      wc_follow_redirects = False, wc_retries = 0\<rparr>"

text \<open>No timeout of the client is longer than the whole attempt may take.\<close>

lemma client_within_deadline:
  "settings_ok s \<Longrightarrow> t \<in> {wc_connect_timeout (create_webhook_client s), wc_read_timeout (create_webhook_client s),
     wc_write_timeout (create_webhook_client s), wc_pool_timeout (create_webhook_client s)} \<Longrightarrow> t < attempt_deadline_seconds s"
  by (auto simp: create_webhook_client_def attempt_deadline_seconds_def settings_ok_def)

definition describe :: "pystr \<Rightarrow> pystr \<Rightarrow> pystr" where
  "describe summary exc =
     (let detail = py_strip exc; message = (if detail = [] then summary else summary @ lit '': '' @ detail)
      in take delivery_error_max_length message)"

definition outbound :: "pystr \<Rightarrow> pystr \<Rightarrow> bytes \<Rightarrow> py_exn + outbound_request" where
  "outbound url secret body =
     (case sign body secret of
        Inl e \<Rightarrow> Inl e
      | Inr signature \<Rightarrow>
          Inr \<lparr>or_url = url,
               or_headers = [(lit ''Content-Type'', lit ''application/json''), (signature_header, signature),
                             (lit ''User-Agent'', user_agent)],
               or_body = body\<rparr>)"

fun classify :: "rat \<Rightarrow> client_answer \<Rightarrow> py_exn + delivery_result" where
  "classify deadline (Responded status) =
     (if 200 \<le> status \<and> status < 300
      then Inr \<lparr>outcome = SUCCEEDED, response_status = Some status, error_text = None\<rparr>
      else Inr \<lparr>outcome = HTTP_ERROR, response_status = Some status,
                error_text = Some (lit ''destination responded with HTTP '' @ str_of_int status)\<rparr>)"
| "classify deadline (TimeoutException exc) =
     Inr \<lparr>outcome = TIMEOUT, response_status = None, error_text = Some (describe (lit ''timed out'') exc)\<rparr>"
| "classify deadline (RequestError exc) =
     Inr \<lparr>outcome = NETWORK_ERROR, response_status = None, error_text = Some (describe (lit ''could not connect'') exc)\<rparr>"
| "classify deadline (InvalidURL exc) =
     Inr \<lparr>outcome = NETWORK_ERROR, response_status = None, error_text = Some (describe (lit ''invalid destination URL'') exc)\<rparr>"
| "classify deadline DeadlinePassed =
     Inr \<lparr>outcome = TIMEOUT, response_status = None,
          error_text = Some (lit ''timed out: no response within the '' @ format_g deadline @ lit ''s attempt deadline'')\<rparr>"
| "classify deadline (ClientRaised e) = Inl e"

definition deliver :: "(outbound_request \<Rightarrow> client_answer) \<Rightarrow> pystr \<Rightarrow> pystr \<Rightarrow> bytes \<Rightarrow> rat \<Rightarrow> py_exn + delivery_result" where
  "deliver send url secret body deadline =
     (case outbound url secret body of
        Inl e \<Rightarrow> Inl e
      | Inr request \<Rightarrow> classify deadline (send request))"

subsection \<open>Facts\<close>

lemma deliver_success:
  "deliver send url secret body deadline = Inr r \<Longrightarrow>
   outcome r = SUCCEEDED \<longleftrightarrow> (\<exists>status. response_status r = Some status \<and> 200 \<le> status \<and> status < 300)"
  by (auto simp: deliver_def split: sum.splits if_splits elim!: classify.elims)

lemma describe_bounded: "length (describe summary exc) \<le> 500"
  by (simp add: describe_def delivery_error_max_length_def Let_def)

text \<open>The default deadline, and values on either side of the fixed notation.\<close>

lemma format_g_examples:
  "format_g 15 = lit ''15''" "format_g (1 / 4) = lit ''0.25''" "format_g 1234567 = lit ''1.23457e+06''"
  by code_simp+

end
