(* ===== verification/KeyStore.thy ===== *)
theory KeyStore
  imports Models
begin

text \<open>
  \<^verbatim>\<open>apikeys.py\<close> and the management keys of \<^verbatim>\<open>storage.py\<close>: the shape of a credential, the digest and the
  display prefix that may be stored of it, and creating, finding, listing, revoking and using keys.
  The random part of a credential and of a key id is an argument. The interface the authentication
  boundary relies on is the locale \<open>credential_store\<close>, interpreted here.
\<close>

subsection \<open>Credentials\<close>

definition management_key_prefix :: pystr where
  "management_key_prefix = lit ''hym_live_''"

definition management_key_secret_length :: nat where
  "management_key_secret_length = 43"

definition management_key_length :: nat where
  "management_key_length = length management_key_prefix + management_key_secret_length"

definition secret_char :: "nat \<Rightarrow> bool" where
  "secret_char c \<longleftrightarrow> is_upper c \<or> is_lower c \<or> is_digit c \<or> c = 95 \<or> c = 45"

text \<open>\<^verbatim>\<open>[A-Za-z0-9_-]{43}\<close>\<close>

definition secret_pattern :: regex where
  "secret_pattern = Repeat management_key_secret_length (Class secret_char)"

definition display_prefix_length :: nat where
  "display_prefix_length = length management_key_prefix + 8"

definition is_valid_management_key :: "pystr \<Rightarrow> bool" where
  "is_valid_management_key key =
     (if \<not> starts_with management_key_prefix key then False
      else fullmatch secret_pattern (drop (length management_key_prefix) key))"

definition display_prefix :: "pystr \<Rightarrow> pystr" where
  "display_prefix key = take display_prefix_length key"

definition digest_key :: "pystr \<Rightarrow> py_exn + pystr" where
  "digest_key key = (case utf8_encode key of Inl e \<Rightarrow> Inl e | Inr b \<Rightarrow> Inr (sha256_hex b))"

definition digests_match :: "pystr \<Rightarrow> pystr \<Rightarrow> bool" where
  "digests_match supplied stored \<longleftrightarrow> supplied = stored"

record generated_key =
  gk_id :: pystr
  gk_key :: pystr
  gk_display_prefix :: pystr
  gk_digest :: pystr

definition new_management_key_id :: "pystr \<Rightarrow> pystr" where
  "new_management_key_id hex = lit ''mk_'' @ hex"

definition new_management_key :: "pystr \<Rightarrow> pystr \<Rightarrow> py_exn + generated_key" where
  "new_management_key secret hex =
     (let key = management_key_prefix @ secret
      in case digest_key key of
           Inl e \<Rightarrow> Inl e
         | Inr d \<Rightarrow> Inr \<lparr>gk_id = new_management_key_id hex, gk_key = key,
                          gk_display_prefix = display_prefix key, gk_digest = d\<rparr>)"

subsection \<open>Stored keys\<close>

text \<open>
  The pending row is flushed: the constraints are checked, and the commit is left to the caller.
\<close>

definition create_management_key ::
  "pystr \<Rightarrow> pystr \<Rightarrow> pystr \<Rightarrow> pystr \<Rightarrow> time \<Rightarrow> db \<Rightarrow> (py_exn + management_key) \<times> db" where
  "create_management_key key_id name prefix key_digest now d =
     (let key = \<lparr>mk_id = key_id, mk_name = name, mk_display_prefix = prefix, mk_key_digest = key_digest,
                 mk_created_at = now, mk_revoked_at = None, mk_last_used_at = None\<rparr>
      in case commit_db (d\<lparr>api_keys := api_keys d @ [key]\<rparr>) of
           None \<Rightarrow> (Inl IntegrityError, d)
         | Some d' \<Rightarrow> (Inr key, d'))"

definition find_management_key_by_digest :: "db \<Rightarrow> pystr \<Rightarrow> py_exn + management_key option" where
  "find_management_key_by_digest d key_digest = one_or_none (filter (\<lambda>k. mk_key_digest k = key_digest) (api_keys d))"

definition get_management_key :: "db \<Rightarrow> pystr \<Rightarrow> management_key option" where
  "get_management_key d key_id = find_row mk_id (api_keys d) key_id"

definition list_management_keys :: "db \<Rightarrow> management_key list" where
  "list_management_keys d = order_desc mk_created_at (api_keys d)"

text \<open>
  The key is read first and written afterwards; \<open>other\<close> is whatever other transactions commit in
  between. A write that matches no row fails.
\<close>

definition revoke_management_key ::
  "(db \<Rightarrow> db) \<Rightarrow> pystr \<Rightarrow> time \<Rightarrow> db \<Rightarrow> (py_exn + management_key option) \<times> db" where
  "revoke_management_key other key_id now d =
     (case get_management_key d key_id of
        None \<Rightarrow> (Inr None, d)
      | Some key \<Rightarrow>
          if mk_revoked_at key = None
          then (let d' = other d
                in if rows_matching (\<lambda>k. mk_id k = key_id) (api_keys d') = 1
                   then (Inr (Some (key\<lparr>mk_revoked_at := Some now\<rparr>)),
                         d'\<lparr>api_keys := update_rows (\<lambda>k. mk_id k = key_id) (\<lambda>k. k\<lparr>mk_revoked_at := Some now\<rparr>) (api_keys d')\<rparr>)
                   else (Inl DatabaseError, d'))
          else (Inr (Some key), d))"

definition record_management_key_use :: "pystr \<Rightarrow> time \<Rightarrow> db \<Rightarrow> db" where
  "record_management_key_use key_id now d =
     d\<lparr>api_keys := update_rows (\<lambda>k. mk_id k = key_id) (\<lambda>k. k\<lparr>mk_last_used_at := Some now\<rparr>) (api_keys d)\<rparr>"

subsection \<open>Facts about credentials\<close>

lemma management_key_shape:
  "is_valid_management_key key \<longleftrightarrow>
   (\<exists>secret. key = management_key_prefix @ secret \<and> length secret = 43 \<and> list_all secret_char secret)"
  by (auto simp: is_valid_management_key_def starts_with_iff secret_pattern_def fullmatch_lang lang_Repeat_Class
      management_key_secret_length_def)

lemma secret_char_ascii: "secret_char c \<Longrightarrow> c < 128"
  by (auto simp: secret_char_def is_upper_def is_lower_def is_digit_def)

lemma digest_key_total:
  assumes "is_valid_management_key key"
  shows "\<exists>h. digest_key key = Inr h \<and> is_digest h"
proof -
  obtain secret where key: "key = management_key_prefix @ secret" "list_all secret_char secret"
    using assms by (auto simp: management_key_shape)
  have "\<forall>c\<in>set management_key_prefix. \<not> is_surrogate c"
    by (simp add: management_key_prefix_def lit_def is_surrogate_def)
  then have "\<forall>c\<in>set key. \<not> is_surrogate c"
    using key secret_char_ascii by (fastforce simp: list_all_iff is_surrogate_def)
  then obtain b where "utf8_encode key = Inr b" using utf8_encode_Inr_iff by blast
  then show ?thesis by (simp add: digest_key_def)
qed

subsection \<open>Facts about stored keys\<close>

lemma find_by_digest_eq:
  "db_ok d \<Longrightarrow> find_management_key_by_digest d h = Inr (find_row mk_key_digest (api_keys d) h)"
  by (simp add: find_management_key_by_digest_def one_or_none_key db_ok_defs)

lemma create_management_key_Inr:
  assumes "create_management_key i n pre h now d = (Inr k, d')"
  shows "db_ok d' \<and> d' = d\<lparr>api_keys := api_keys d @ [k]\<rparr> \<and> mk_id k = i \<and> mk_name k = n \<and>
    mk_display_prefix k = pre \<and> mk_key_digest k = h \<and> mk_created_at k = now \<and> mk_revoked_at k = None"
  using assms by (auto simp: create_management_key_def Let_def commit_db_Some split: option.splits)

lemma create_management_key_Inl: "create_management_key i n pre h now d = (Inl e, d') \<Longrightarrow> e = IntegrityError \<and> d' = d"
  by (auto simp: create_management_key_def Let_def split: option.splits)

lemma update_keys_ok:
  assumes "db_ok d" "\<And>k. mk_id (f k) = mk_id k" "\<And>k. mk_key_digest (f k) = mk_key_digest k"
  shows "db_ok (d\<lparr>api_keys := update_rows P f (api_keys d)\<rparr>)"
  using assms by (auto simp: db_ok_defs map_update_rows)

lemma create_keys_ok: "db_ok d \<Longrightarrow> db_ok (snd (create_management_key i n pre h now d))"
  by (auto simp: create_management_key_def Let_def commit_db_Some split: option.splits)

lemma revoke_keys_ok:
  "db_ok d \<Longrightarrow> db_ok (other d) \<Longrightarrow> db_ok (snd (revoke_management_key other i now d))"
  by (auto simp: revoke_management_key_def Let_def update_keys_ok split: option.splits)

lemma record_use_ok: "db_ok d \<Longrightarrow> db_ok (record_management_key_use i now d)"
  by (simp add: record_management_key_use_def update_keys_ok)

subsection \<open>Withdrawing a credential is final\<close>

text \<open>
  What the authentication boundary relies on: an operation of the store may do anything to the keys
  but bring a withdrawn digest back.
\<close>

locale credential_store =
  fixes step :: "'o \<Rightarrow> 's \<Rightarrow> 's"
    and withdrawn :: "'c \<Rightarrow> 's \<Rightarrow> bool"
    and good :: "'s \<Rightarrow> bool"
  assumes step_good: "good s \<Longrightarrow> good (step a s)"
    and step_withdrawn: "good s \<Longrightarrow> withdrawn c s \<Longrightarrow> withdrawn c (step a s)"
begin

lemma run_good: "good s \<Longrightarrow> good (fold step as s)"
  by (induction as arbitrary: s) (simp_all add: step_good)

lemma withdrawn_for_good: "good s \<Longrightarrow> withdrawn c s \<Longrightarrow> withdrawn c (fold step as s)"
  by (induction as arbitrary: s) (simp_all add: step_good step_withdrawn)

end

datatype key_operation =
    CreateKey pystr pystr pystr pystr time
  | RevokeKey pystr time
  | UseKey pystr time

fun run_key_operation :: "key_operation \<Rightarrow> db \<Rightarrow> db" where
  "run_key_operation (CreateKey i n pre h now) d = snd (create_management_key i n pre h now d)"
| "run_key_operation (RevokeKey i now) d = snd (revoke_management_key id i now d)"
| "run_key_operation (UseKey i now) d = record_management_key_use i now d"

definition digest_withdrawn :: "pystr \<Rightarrow> db \<Rightarrow> bool" where
  "digest_withdrawn h d \<longleftrightarrow> (\<exists>k\<in>set (api_keys d). mk_key_digest k = h \<and> mk_revoked_at k \<noteq> None)"

lemma withdrawn_update:
  assumes "digest_withdrawn h d" "\<And>k. mk_key_digest (f k) = mk_key_digest k"
    "\<And>k. mk_revoked_at k \<noteq> None \<Longrightarrow> mk_revoked_at (f k) \<noteq> None"
  shows "digest_withdrawn h (d\<lparr>api_keys := update_rows P f (api_keys d)\<rparr>)"
proof -
  obtain k where "k \<in> set (api_keys d)" "mk_key_digest k = h" "mk_revoked_at k \<noteq> None"
    using assms(1) by (auto simp: digest_withdrawn_def)
  let ?k = "if P k then f k else k"
  have "?k \<in> set (update_rows P f (api_keys d))" using \<open>k \<in> set (api_keys d)\<close> by (auto simp: set_update_rows)
  moreover have "mk_key_digest ?k = h" "mk_revoked_at ?k \<noteq> None"
    using assms(2,3) \<open>mk_key_digest k = h\<close> \<open>mk_revoked_at k \<noteq> None\<close> by simp_all
  ultimately show ?thesis unfolding digest_withdrawn_def by (simp add: bexI [of _ ?k])
qed

lemma run_key_operation_keeps:
  assumes "digest_withdrawn h d"
  shows "digest_withdrawn h (run_key_operation a d)"
proof (cases a)
  case (CreateKey i n pre h' now)
  with assms show ?thesis
    by (auto simp: create_management_key_def Let_def commit_db_Some digest_withdrawn_def split: option.splits)
next
  case (RevokeKey i now)
  with assms show ?thesis
    by (auto simp: revoke_management_key_def Let_def split: option.splits intro: withdrawn_update)
next
  case (UseKey i now)
  with assms show ?thesis by (auto simp: record_management_key_use_def intro: withdrawn_update)
qed

interpretation key_store: credential_store run_key_operation digest_withdrawn db_ok
proof
  show "db_ok d \<Longrightarrow> db_ok (run_key_operation a d)" for d a
    by (cases a) (simp_all add: create_keys_ok revoke_keys_ok record_use_ok)
  show "db_ok d \<Longrightarrow> digest_withdrawn h d \<Longrightarrow> digest_withdrawn h (run_key_operation a d)" for d a h
    by (rule run_key_operation_keeps)
qed

lemma withdrawn_row:
  assumes "db_ok d" "digest_withdrawn h d"
  shows "\<exists>k. find_management_key_by_digest d h = Inr (Some k) \<and> mk_revoked_at k \<noteq> None"
proof -
  obtain k where k: "k \<in> set (api_keys d)" "mk_key_digest k = h" "mk_revoked_at k \<noteq> None"
    using assms(2) by (auto simp: digest_withdrawn_def)
  moreover have "distinct (map mk_key_digest (api_keys d))" using assms(1) by (simp add: db_ok_defs)
  ultimately have "find_row mk_key_digest (api_keys d) h = Some k" by (simp add: find_row_Some_iff)
  with k assms(1) show ?thesis by (simp add: find_by_digest_eq)
qed

end
