(* ===== verification/Security.thy ===== *)
theory Security
  imports KeyStore Errors Examples
begin

text \<open>
  \<^verbatim>\<open>api/security.py\<close>: the authentication boundary of the management routes. Reading the bearer
  credential off the request is left to the web framework; here it is the credential, or \<open>None\<close>
  when there was no usable one.
\<close>

definition www_authenticate :: "(pystr \<times> pystr) list" where
  "www_authenticate = [(lit ''WWW-Authenticate'', lit ''Bearer'')]"

definition authentication_required :: api_error where
  "authentication_required =
     (api_error_of 401 (lit ''authentication_required'') None)\<lparr>err_headers := Some www_authenticate\<rparr>"

definition invalid_api_key :: api_error where
  "invalid_api_key = (api_error_of 401 (lit ''invalid_api_key'') None)\<lparr>err_headers := Some www_authenticate\<rparr>"

record principal =
  pr_key_id :: pystr
  pr_name :: pystr
  pr_display_prefix :: pystr

text \<open>Noting the use may fail in the database, and then it is rolled back and forgotten.\<close>

definition record_use :: "bool \<Rightarrow> time \<Rightarrow> pystr \<Rightarrow> db \<Rightarrow> db" where
  "record_use writable now key_id d = (if writable then record_management_key_use key_id now d else d)"

definition require_management_key :: "bool \<Rightarrow> time \<Rightarrow> pystr option \<Rightarrow> (db, principal) handler" where
  "require_management_key writable now credentials d =
     (case credentials of
        None \<Rightarrow> (Inl (Api authentication_required), d)
      | Some supplied \<Rightarrow>
          if \<not> is_valid_management_key supplied then (Inl (Api invalid_api_key), d)
          else
            (case digest_key supplied of
               Inl e \<Rightarrow> (Inl (raised_exn e), d)
             | Inr digest \<Rightarrow>
                 (case find_management_key_by_digest d digest of
                    Inl e \<Rightarrow> (Inl (raised_exn e), d)
                  | Inr None \<Rightarrow> (Inl (Api invalid_api_key), d)
                  | Inr (Some key) \<Rightarrow>
                      if \<not> digests_match digest (mk_key_digest key) then (Inl (Api invalid_api_key), d)
                      else if mk_revoked_at key \<noteq> None then (Inl (Api invalid_api_key), d)
                      else (Inr \<lparr>pr_key_id = mk_id key, pr_name = mk_name key, pr_display_prefix = mk_display_prefix key\<rparr>,
                            record_use writable now (mk_id key) d))))"

text \<open>A management route: its handler runs as the principal the boundary resolved.\<close>

definition authenticated :: "bool \<Rightarrow> time \<Rightarrow> pystr option \<Rightarrow> (principal \<Rightarrow> (db, 'a) handler) \<Rightarrow> (db, 'a) handler" where
  "authenticated writable now credentials route = and_then (require_management_key writable now credentials) route"

subsection \<open>Facts\<close>

lemma record_use_same [simp]:
  "endpoints (record_use b now k d) = endpoints d"
  "submissions (record_use b now k d) = submissions d"
  "deliveries (record_use b now k d) = deliveries d"
  "attempt_log (record_use b now k d) = attempt_log d"
  "counters (record_use b now k d) = counters d"
  by (simp_all add: record_use_def record_management_key_use_def)

lemma record_use_db_ok: "db_ok d \<Longrightarrow> db_ok (record_use b now k d)"
  by (simp add: record_use_def record_use_ok)

lemma find_by_digest_row:
  "find_row mk_key_digest (api_keys d) h = Some k \<Longrightarrow> k \<in> set (api_keys d) \<and> mk_key_digest k = h"
  by (rule find_row_SomeD)

lemma require_valid:
  assumes "db_ok d" "is_valid_management_key key" "digest_key key = Inr h"
  shows "require_management_key w now (Some key) d =
    (case find_row mk_key_digest (api_keys d) h of
       None \<Rightarrow> (Inl (Api invalid_api_key), d)
     | Some k \<Rightarrow> if mk_revoked_at k \<noteq> None then (Inl (Api invalid_api_key), d)
         else (Inr \<lparr>pr_key_id = mk_id k, pr_name = mk_name k, pr_display_prefix = mk_display_prefix k\<rparr>, record_use w now (mk_id k) d))"
  using assms find_by_digest_row [of d h]
  by (auto simp: require_management_key_def find_by_digest_eq digests_match_def split: option.splits)

lemma require_cases:
  assumes "db_ok d"
  shows "(\<exists>e. require_management_key w now credentials d = (Inl (Api e), d) \<and> err_status e = 401) \<or>
    (\<exists>key h k. credentials = Some key \<and> is_valid_management_key key \<and> digest_key key = Inr h \<and>
       k \<in> set (api_keys d) \<and> mk_key_digest k = h \<and> mk_revoked_at k = None \<and>
       require_management_key w now credentials d =
         (Inr \<lparr>pr_key_id = mk_id k, pr_name = mk_name k, pr_display_prefix = mk_display_prefix k\<rparr>,
          record_use w now (mk_id k) d))"
proof (cases credentials)
  case None
  then show ?thesis by (simp add: require_management_key_def authentication_required_def)
next
  case (Some key)
  show ?thesis
  proof (cases "is_valid_management_key key")
    case False
    with Some show ?thesis by (simp add: require_management_key_def invalid_api_key_def)
  next
    case True
    then obtain h where h: "digest_key key = Inr h" using digest_key_total by blast
    show ?thesis
      using require_valid [OF assms True h, of w now] Some True h find_by_digest_row [of d h]
      by (cases "find_row mk_key_digest (api_keys d) h") (auto simp: invalid_api_key_def)
  qed
qed

lemma require_keeps_ok: "db_ok d \<Longrightarrow> db_ok (snd (require_management_key w now credentials d))"
  using require_cases [of d w now credentials] by (auto simp: record_use_db_ok)

subsection \<open>Properties\<close>

text \<open>
  C34. A management route runs only for a credential whose digest is stored and not revoked, as the key
  that digest belongs to; every other request is answered with a 401 that carries the challenge, and
  leaves the database as it was.
\<close>
theorem only_live_keys_authenticate:
  assumes "db_ok d"
  shows "(\<forall>p d'. require_management_key w now credentials d = (Inr p, d') \<longrightarrow>
      (\<exists>key h k. credentials = Some key \<and> digest_key key = Inr h \<and> k \<in> set (api_keys d) \<and>
         mk_key_digest k = h \<and> mk_revoked_at k = None \<and> pr_key_id p = mk_id k)) \<and>
    (\<forall>e d'. require_management_key w now credentials d = (Inl e, d') \<longrightarrow>
      authenticated w now credentials route d = (Inl e, d) \<and>
      ans_status (answer e) = 401 \<and> ans_headers (answer e) = www_authenticate)"
proof (intro conjI allI impI)
  fix p d' assume "require_management_key w now credentials d = (Inr p, d')"
  then show "\<exists>key h k. credentials = Some key \<and> digest_key key = Inr h \<and> k \<in> set (api_keys d) \<and>
      mk_key_digest k = h \<and> mk_revoked_at k = None \<and> pr_key_id p = mk_id k"
    using require_cases [OF assms, of w now credentials] by auto
next
  fix e d'
  assume a: "require_management_key w now credentials d = (Inl e, d')"
  have refused: "(e = Api authentication_required \<or> e = Api invalid_api_key) \<and> d' = d"
  proof (cases credentials)
    case None
    with a show ?thesis by (simp add: require_management_key_def)
  next
    case (Some key)
    show ?thesis
    proof (cases "is_valid_management_key key")
      case False
      with a Some show ?thesis by (simp add: require_management_key_def)
    next
      case True
      then obtain h where h: "digest_key key = Inr h" using digest_key_total by blast
      show ?thesis
        using require_valid [OF assms True h, of w now] Some a
        by (cases "find_row mk_key_digest (api_keys d) h") (auto split: if_splits)
    qed
  qed
  with a show "authenticated w now credentials route d = (Inl e, d)" by (auto simp: authenticated_def and_then_def)
  show "ans_status (answer e) = 401" "ans_headers (answer e) = www_authenticate"
    using refused by (auto simp: as_response_def error_response_def authentication_required_def invalid_api_key_def)
qed

lemma only_live_keys_authenticate_witness:
  "authenticated True 0 (Some (lit ''hym_live_x'')) giving sample_db = (Inl (Api invalid_api_key), sample_db) \<and>
   ans_status (answer (Api invalid_api_key)) = 401"
proof -
  have "require_management_key True 0 (Some (lit ''hym_live_x'')) sample_db = (Inl (Api invalid_api_key), sample_db)"
    by code_simp
  with only_live_keys_authenticate [OF sample_db_ok, of True 0 "Some (lit ''hym_live_x'')" giving] show ?thesis by blast
qed

text \<open>A key as the operator creates it, for the examples; the random part of a real one is generated.\<close>

definition sample_secret :: pystr where "sample_secret = replicate 43 65"

definition sample_key :: pystr where "sample_key = management_key_prefix @ sample_secret"

lemma sample_secret_ok: "length sample_secret = 43" "list_all secret_char sample_secret"
  by (simp_all add: sample_secret_def secret_char_def is_upper_def list_all_iff)

lemma sample_key_valid: "is_valid_management_key sample_key"
  using sample_secret_ok by (auto simp: sample_key_def management_key_shape)

definition keyed_db :: "pystr \<Rightarrow> db" where
  "keyed_db h = sample_db\<lparr>api_keys := [\<lparr>mk_id = lit ''mk_1'', mk_name = lit ''ops'', mk_display_prefix = take 17 sample_key,
     mk_key_digest = h, mk_created_at = 0, mk_revoked_at = None, mk_last_used_at = None\<rparr>]\<rparr>"

lemma keyed_db_ok: "db_ok (keyed_db h)"
  using sample_db_ok by (auto simp: keyed_db_def db_ok_defs simp del: sample_db_ok)

text \<open>
  A credential that was created authenticates, as the key it was created under: whatever random
  part it got, once its digest is stored the boundary lets it through, and whether the use could be
  recorded makes no difference. Only the record of its last use changes.
\<close>
lemma created_key_authenticates:
  assumes "new_management_key secret hex = Inr g" and "length secret = 43" and "list_all secret_char secret"
    and "create_management_key (gk_id g) name (gk_display_prefix g) (gk_digest g) created d = (Inr k, d')"
  shows "\<exists>p. require_management_key w now (Some (gk_key g)) d' = (Inr p, record_use w now (mk_id k) d') \<and>
    pr_key_id p = gk_id g \<and> pr_name p = name \<and> pr_display_prefix p = take 17 (gk_key g)"
proof -
  obtain h where h: "digest_key (management_key_prefix @ secret) = Inr h"
    and g: "g = \<lparr>gk_id = new_management_key_id hex, gk_key = management_key_prefix @ secret,
      gk_display_prefix = display_prefix (management_key_prefix @ secret), gk_digest = h\<rparr>"
    using assms(1) by (auto simp: new_management_key_def Let_def split: sum.splits)
  have valid: "is_valid_management_key (gk_key g)" using assms(2,3) g by (simp add: management_key_shape)
  note k = create_management_key_Inr [OF assms(4)]
  then have "distinct (map mk_key_digest (api_keys d'))" "k \<in> set (api_keys d')" by (auto simp: db_ok_defs)
  then have found: "find_row mk_key_digest (api_keys d') h = Some k" using k g by (simp add: find_row_Some_iff)
  have "db_ok d'" "mk_revoked_at k = None" using k by blast+
  moreover have "digest_key (gk_key g) = Inr h" using g h by simp
  ultimately have req: "require_management_key w now (Some (gk_key g)) d' =
      (Inr \<lparr>pr_key_id = mk_id k, pr_name = mk_name k, pr_display_prefix = mk_display_prefix k\<rparr>, record_use w now (mk_id k) d')"
    using require_valid [OF _ valid, of d' h w now] found by simp
  show ?thesis
    by (intro exI conjI, rule req)
      (simp_all add: k g display_prefix_def display_prefix_length_def management_key_prefix_def)
qed

text \<open>
  C30. Revoking a credential is final. From the next request on it is refused, whatever keys are
  created, revoked or used after the revocation, and in whatever order; not even storing its digest
  again brings it back.
\<close>
theorem revoked_key_stays_out:
  assumes "db_ok d" and "get_management_key d i = Some k" and "digest_key key = Inr (mk_key_digest k)"
    and "is_valid_management_key key"
  shows "fst (require_management_key w now (Some key) (fold run_key_operation ops (snd (revoke_management_key id i revoked d)))) =
    Inl (Api invalid_api_key)"
proof -
  let ?d = "snd (revoke_management_key id i revoked d)"
  have ok: "db_ok ?d" using assms(1) by (simp add: revoke_keys_ok)
  have k: "k \<in> set (api_keys d)" "mk_id k = i" using find_row_SomeD [of mk_id "api_keys d" i k] assms(2) by (simp_all add: get_management_key_def)
  have one: "rows_matching (\<lambda>k. mk_id k = i) (api_keys d) = 1"
    using rows_matching_key [of mk_id "api_keys d" i "\<lambda>_. True"] assms(1,2) by (simp add: get_management_key_def db_ok_defs)
  have "digest_withdrawn (mk_key_digest k) ?d"
  proof (cases "mk_revoked_at k = None")
    case True
    then have "k\<lparr>mk_revoked_at := Some revoked\<rparr> \<in> set (api_keys ?d)"
      using k assms(2) one by (auto simp: revoke_management_key_def Let_def set_update_rows)
    then show ?thesis by (auto simp: digest_withdrawn_def intro!: bexI [of _ "k\<lparr>mk_revoked_at := Some revoked\<rparr>"])
  next
    case False
    with k assms(2) show ?thesis by (auto simp: revoke_management_key_def digest_withdrawn_def)
  qed
  from key_store.run_good [OF ok] key_store.withdrawn_for_good [OF ok this]
  have "db_ok (fold run_key_operation ops ?d)" "digest_withdrawn (mk_key_digest k) (fold run_key_operation ops ?d)"
    by blast+
  then obtain k' where "find_row mk_key_digest (api_keys (fold run_key_operation ops ?d)) (mk_key_digest k) = Some k'"
    "mk_revoked_at k' \<noteq> None" "db_ok (fold run_key_operation ops ?d)"
    using withdrawn_row by (metis find_by_digest_eq sum.inject(2))
  then show ?thesis using require_valid [OF _ assms(4,3)] by simp
qed

lemma revoked_key_stays_out_witness:
  "\<exists>h. digest_key sample_key = Inr h \<and>
     fst (require_management_key True 9 (Some sample_key)
       (fold run_key_operation [CreateKey (lit ''mk_2'') [] [] h 8, UseKey (lit ''mk_1'') 8]
         (snd (revoke_management_key id (lit ''mk_1'') 7 (keyed_db h))))) = Inl (Api invalid_api_key)"
proof -
  obtain h where h: "digest_key sample_key = Inr h" using digest_key_total [OF sample_key_valid] by blast
  have "get_management_key (keyed_db h) (lit ''mk_1'') = Some (hd (api_keys (keyed_db h)))"
    by (simp add: get_management_key_def keyed_db_def)
  moreover have "mk_key_digest (hd (api_keys (keyed_db h))) = h" by (simp add: keyed_db_def)
  ultimately show ?thesis using revoked_key_stays_out [OF keyed_db_ok _ _ sample_key_valid] h by metis
qed

text \<open>
  The moment of a revocation can move. Revoking again in sequence keeps the first moment, but a
  revocation that another one overtakes between its read and its write puts its own, so the stored
  moment is the later writer's.
\<close>
lemma revocation_moment:
  assumes "db_ok d" and "get_management_key d i = Some k" and "mk_revoked_at k = None"
  shows "map_option mk_revoked_at (get_management_key (snd (revoke_management_key id i second (snd (revoke_management_key id i first d)))) i) =
      Some (Some first) \<and>
    map_option mk_revoked_at (get_management_key (snd (revoke_management_key (\<lambda>d. snd (revoke_management_key id i first d)) i second d)) i) =
      Some (Some second)"
proof -
  have one: "rows_matching (\<lambda>k. mk_id k = i) (api_keys d) = 1"
    using rows_matching_key [of mk_id "api_keys d" i "\<lambda>_. True"] assms(1,2) by (simp add: get_management_key_def db_ok_defs)
  have id_i: "mk_id k = i" using assms(2) find_row_SomeD by (fastforce simp: get_management_key_def)
  let ?f = "\<lambda>t k. k\<lparr>mk_revoked_at := Some t\<rparr>"
  let ?d = "d\<lparr>api_keys := update_rows (\<lambda>k. mk_id k = i) (?f first) (api_keys d)\<rparr>"
  have rev: "revoke_management_key id i first d = (Inr (Some (?f first k)), ?d)"
    using assms(2,3) one by (simp add: revoke_management_key_def Let_def)
  have got: "get_management_key ?d i = Some (?f first k)"
    using assms(2) id_i by (simp add: get_management_key_def find_row_update)
  have still: "rows_matching (\<lambda>k. mk_id k = i) (api_keys ?d) = 1"
    using rows_matching_key [of mk_id "api_keys ?d" i "\<lambda>_. True"] assms(1) got
    by (simp add: get_management_key_def db_ok_defs map_update_rows)
  have seq: "revoke_management_key id i second ?d = (Inr (Some (?f first k)), ?d)"
    using got by (simp add: revoke_management_key_def)
  let ?e = "?d\<lparr>api_keys := update_rows (\<lambda>k. mk_id k = i) (?f second) (api_keys ?d)\<rparr>"
  have race: "snd (revoke_management_key (\<lambda>d. snd (revoke_management_key id i first d)) i second d) = ?e"
    using assms(2,3) rev still by (simp add: revoke_management_key_def Let_def)
  have "get_management_key ?e i = Some (?f second (?f first k))"
    using assms(2) id_i by (simp add: get_management_key_def find_row_update)
  then have "map_option mk_revoked_at (get_management_key ?e i) = Some (Some second)" by simp
  moreover have "map_option mk_revoked_at (get_management_key ?d i) = Some (Some first)" using got by simp
  ultimately show ?thesis unfolding race rev snd_conv seq by blast
qed

end
