(* ===== verification/Paging.thy ===== *)
theory Paging
  imports SubmissionStore
begin

text \<open>
  The pagination of \<^verbatim>\<open>storage.py\<close> and \<^verbatim>\<open>api/pagination.py\<close>: pages in newest-first order, continued
  after the last row of the previous page by comparing timestamp and identifier together, and the
  three lists built on it. Then that walking the pages reads every row exactly once.
\<close>

subsection \<open>Pages\<close>

datatype unknown_cursor = UnknownCursor pystr

definition page_rank :: "('row \<Rightarrow> pystr) \<Rightarrow> ('row \<Rightarrow> time) \<Rightarrow> 'row \<Rightarrow> time \<times> pystr" where
  "page_rank key stamp r = (stamp r, key r)"

definition page_after ::
  "('row \<Rightarrow> pystr) \<Rightarrow> ('row \<Rightarrow> time) \<Rightarrow> 'row list \<Rightarrow> pystr \<Rightarrow> unknown_cursor + ('row \<Rightarrow> bool)" where
  "page_after key stamp rows cursor =
     (case find_row key rows cursor of
        None \<Rightarrow> Inl (UnknownCursor cursor)
      | Some anchor \<Rightarrow> Inr (\<lambda>r. page_rank key stamp r < (stamp anchor, key anchor)))"

definition page ::
  "('row \<Rightarrow> pystr) \<Rightarrow> ('row \<Rightarrow> time) \<Rightarrow> ('row \<Rightarrow> bool) \<Rightarrow> 'row list \<Rightarrow> nat \<Rightarrow> pystr option
     \<Rightarrow> unknown_cursor + 'row list" where
  "page key stamp wanted rows limit after =
     (case after of
        None \<Rightarrow> Inr (take limit (order_desc (page_rank key stamp) (filter wanted rows)))
      | Some cursor \<Rightarrow>
          (case page_after key stamp rows cursor of
             Inl e \<Rightarrow> Inl e
           | Inr beyond \<Rightarrow>
               Inr (take limit (order_desc (page_rank key stamp) (filter (\<lambda>r. wanted r \<and> beyond r) rows)))))"

definition list_endpoints :: "nat \<Rightarrow> pystr option \<Rightarrow> db \<Rightarrow> unknown_cursor + endpoint list" where
  "list_endpoints limit after d = page ep_id ep_created_at (\<lambda>_. True) (endpoints d) limit after"

definition delivery_wanted :: "pystr option \<Rightarrow> delivery_state option \<Rightarrow> delivery \<Rightarrow> bool" where
  "delivery_wanted endpoint_id state w \<longleftrightarrow>
     (case endpoint_id of None \<Rightarrow> True | Some e \<Rightarrow> whd_endpoint_id w = e) \<and>
     (case state of None \<Rightarrow> True | Some st \<Rightarrow> whd_state w = st)"

definition list_deliveries ::
  "nat \<Rightarrow> pystr option \<Rightarrow> pystr option \<Rightarrow> delivery_state option \<Rightarrow> db \<Rightarrow> unknown_cursor + delivery list" where
  "list_deliveries limit after endpoint_id state d =
     page whd_id whd_created_at (delivery_wanted endpoint_id state) (deliveries d) limit after"

definition list_submissions ::
  "submission_filter \<Rightarrow> nat \<Rightarrow> pystr option \<Rightarrow> db \<Rightarrow> unknown_cursor + submission_record list" where
  "list_submissions f limit after d =
     (case page sub_id sub_received_at (narrowed f) (submissions d) limit after of
        Inl e \<Rightarrow> Inl e
      | Inr rows \<Rightarrow> Inr (map (\<lambda>s. (s, owed_delivery d s)) rows))"

subsection \<open>Cursors\<close>

definition default_page_size :: nat where "default_page_size = 50"
definition max_page_size :: nat where "max_page_size = 100"

text \<open>The limit of a request is at least one, so a full page has a last element.\<close>

definition limit_ok :: "int \<Rightarrow> bool" where
  "limit_ok l \<longleftrightarrow> 1 \<le> l \<and> l \<le> int max_page_size"

definition next_cursor :: "pystr list \<Rightarrow> nat \<Rightarrow> pystr option" where
  "next_cursor page_ids limit = (if length page_ids = limit then Some (last page_ids) else None)"

text \<open>
  A client that follows the cursors with the given number of requests to spend; \<open>None\<close> when that is not
  enough, or when a request fails.
\<close>

primrec walk_pages ::
  "(pystr option \<Rightarrow> 'e + 'row list) \<Rightarrow> ('row \<Rightarrow> pystr) \<Rightarrow> nat \<Rightarrow> nat \<Rightarrow> pystr option \<Rightarrow> 'row list option" where
  "walk_pages fetch key limit 0 after = None"
| "walk_pages fetch key limit (Suc n) after =
     (case fetch after of
        Inl e \<Rightarrow> None
      | Inr rows \<Rightarrow>
          (case next_cursor (map key rows) limit of
             None \<Rightarrow> Some rows
           | Some c \<Rightarrow> map_option (\<lambda>rest. rows @ rest) (walk_pages fetch key limit n (Some c))))"

text \<open>
  What a client relies on: the pages are cut from one list, and the page after a cursor starts
  behind the row the cursor names.
\<close>

locale paged_list =
  fixes fetch :: "'s \<Rightarrow> nat \<Rightarrow> pystr option \<Rightarrow> 'e + 'row list"
    and key :: "'row \<Rightarrow> pystr"
    and whole :: "'s \<Rightarrow> 'row list"
    and good :: "'s \<Rightarrow> bool"
  assumes first_page: "good s \<Longrightarrow> 0 < limit \<Longrightarrow> fetch s limit None = Inr (take limit (whole s))"
    and later_page: "good s \<Longrightarrow> 0 < limit \<Longrightarrow> i < length (whole s) \<Longrightarrow>
      fetch s limit (Some (key (whole s ! i))) = Inr (take limit (drop (Suc i) (whole s)))"
begin

lemma walk_from:
  "good s \<Longrightarrow> 0 < limit \<Longrightarrow> length (whole s) - i \<le> n \<Longrightarrow> i \<le> length (whole s) \<Longrightarrow>
   fetch s limit after = Inr (take limit (drop i (whole s))) \<Longrightarrow>
   walk_pages (fetch s limit) key limit (Suc n) after = Some (drop i (whole s))"
proof (induction n arbitrary: i after)
  case 0
  then show ?case by (simp add: next_cursor_def)
next
  case (Suc n)
  let ?w = "whole s"
  let ?p = "take limit (drop i ?w)"
  show ?case
  proof (cases "length ?p = limit")
    case True
    with Suc.prems(2) have ne: "?p \<noteq> []" and len: "i + limit \<le> length ?w" by auto
    let ?j = "i + limit - 1"
    have last: "last ?p = ?w ! ?j" and j: "?j < length ?w" and Sj: "Suc ?j = i + limit"
      using True ne Suc.prems(2) len by (auto simp: last_conv_nth)
    have "walk_pages (fetch s limit) key limit (Suc n) (Some (key (?w ! ?j))) = Some (drop (i + limit) ?w)"
      using Suc.prems len later_page [OF Suc.prems(1,2) j] Sj by (intro Suc.IH) auto
    moreover have "last (map key ?p) = key (?w ! ?j)" using ne last by (simp add: last_map)
    ultimately have "walk_pages (fetch s limit) key limit (Suc (Suc n)) after = Some (?p @ drop (i + limit) ?w)"
      using Suc.prems(5) True by (simp add: next_cursor_def)
    also have "?p @ drop (i + limit) ?w = drop i ?w" by (metis append_take_drop_id drop_drop add.commute)
    finally show ?thesis .
  next
    case False
    then have "?p = drop i ?w" by (simp add: min_def split: if_splits)
    with Suc.prems(5) False show ?thesis by (simp add: next_cursor_def)
  qed
qed

lemma walk_reads_all:
  "good s \<Longrightarrow> 0 < limit \<Longrightarrow> length (whole s) \<le> n \<Longrightarrow>
   walk_pages (fetch s limit) key limit (Suc n) None = Some (whole s)"
  using walk_from [of s limit 0 n None] first_page by simp

end

subsection \<open>The pages of a table\<close>

lemma page_rank_inj: "distinct (map key rows) \<Longrightarrow> inj_on (page_rank key stamp) (set rows)"
  by (auto simp: distinct_map inj_on_def page_rank_def)

lemma order_desc_strict:
  assumes "distinct (map key rows)"
  shows "sorted_wrt (\<lambda>r s. page_rank key stamp s < page_rank key stamp r) (order_desc (page_rank key stamp) rows)"
proof -
  let ?L = "order_desc (page_rank key stamp) rows"
  have le: "sorted_wrt (\<lambda>r s. page_rank key stamp s \<le> page_rank key stamp r) ?L" by (rule sorted_order_desc)
  have dist: "distinct ?L" using distinct_order_desc [OF assms, of "page_rank key stamp"] by (auto simp: distinct_map)
  have inj: "inj_on (page_rank key stamp) (set ?L)" using page_rank_inj [OF assms] by simp
  have neq: "page_rank key stamp (?L ! i) \<noteq> page_rank key stamp (?L ! j)" if ij: "i < j" "j < length ?L" for i j
  proof
    assume "page_rank key stamp (?L ! i) = page_rank key stamp (?L ! j)"
    then have "?L ! i = ?L ! j" using ij by (intro inj_onD [OF inj]) (simp_all del: set_order_desc)
    with dist ij show False by (simp add: nth_eq_iff_index_eq)
  qed
  show ?thesis
    unfolding sorted_wrt_iff_nth_less
  proof (intro allI impI)
    fix i j assume ij: "i < j" "j < length ?L"
    then have "page_rank key stamp (?L ! j) \<le> page_rank key stamp (?L ! i)"
      using le by (simp add: sorted_wrt_iff_nth_less)
    with neq [OF ij] show "page_rank key stamp (?L ! j) < page_rank key stamp (?L ! i)"
      by (metis order.not_eq_order_implies_strict)
  qed
qed

lemma filter_below:
  assumes "sorted_wrt (\<lambda>r s. f s < f r) xs" "i < length xs"
  shows "filter (\<lambda>r. f r < (f (xs ! i) :: 'o :: linorder)) xs = drop (Suc i) xs"
  using assms
proof (induction xs arbitrary: i)
  case (Cons x xs)
  show ?case
  proof (cases i)
    case 0
    with Cons.prems show ?thesis by (auto simp: filter_id_conv)
  next
    case (Suc j)
    with Cons.prems have "f (xs ! j) < f x" by simp
    then have "\<not> f x < f (xs ! j)" by (rule less_not_sym)
    with Suc Cons show ?thesis by auto
  qed
qed simp

lemma order_desc_filter: "order_desc f (filter P xs) = filter P (order_desc f xs)"
  by (simp add: order_desc_def filter_sort [symmetric] rev_filter)

lemma page_later:
  assumes "distinct (map key rows)" and i: "i < length (order_desc (page_rank key stamp) (filter wanted rows))"
  shows "page key stamp wanted rows limit (Some (key (order_desc (page_rank key stamp) (filter wanted rows) ! i))) =
    Inr (take limit (drop (Suc i) (order_desc (page_rank key stamp) (filter wanted rows))))"
proof -
  let ?L = "order_desc (page_rank key stamp) (filter wanted rows)"
  have strict: "sorted_wrt (\<lambda>r s. page_rank key stamp s < page_rank key stamp r) ?L"
    by (rule order_desc_strict [OF distinct_key_filter [OF assms(1)]])
  have "?L ! i \<in> set rows" using nth_mem [OF i] by auto
  then have anchor: "find_row key rows (key (?L ! i)) = Some (?L ! i)" by (simp add: find_row_Some_iff [OF assms(1)])
  have "order_desc (page_rank key stamp) (filter (\<lambda>r. wanted r \<and> page_rank key stamp r < page_rank key stamp (?L ! i)) rows) =
      filter (\<lambda>r. page_rank key stamp r < page_rank key stamp (?L ! i)) ?L"
    by (simp add: order_desc_filter conj_commute)
  also have "\<dots> = drop (Suc i) ?L" by (rule filter_below [OF strict i])
  finally show ?thesis by (simp add: page_def page_after_def anchor page_rank_def [of key stamp "?L ! i"])
qed

interpretation endpoint_pages: paged_list "\<lambda>d limit after. list_endpoints limit after d" ep_id
  "\<lambda>d. order_desc (page_rank ep_id ep_created_at) (endpoints d)" db_ok
proof
  fix d :: db and limit i :: nat
  assume "db_ok d"
  then have "distinct (map ep_id (endpoints d))" by (simp add: db_ok_defs)
  from page_later [OF this, of i ep_created_at "\<lambda>_. True" limit]
  show "i < length (order_desc (page_rank ep_id ep_created_at) (endpoints d)) \<Longrightarrow>
    list_endpoints limit (Some (ep_id (order_desc (page_rank ep_id ep_created_at) (endpoints d) ! i))) d =
    Inr (take limit (drop (Suc i) (order_desc (page_rank ep_id ep_created_at) (endpoints d))))"
    by (simp add: list_endpoints_def)
qed (simp add: list_endpoints_def page_def)

interpretation delivery_pages: paged_list "\<lambda>d limit after. list_deliveries limit after e st d" whd_id
  "\<lambda>d. order_desc (page_rank whd_id whd_created_at) (filter (delivery_wanted e st) (deliveries d))" db_ok for e st
proof
  fix d :: db and limit i :: nat
  assume "db_ok d"
  then have "distinct (map whd_id (deliveries d))" by (simp add: db_ok_defs)
  from page_later [OF this]
  show "i < length (order_desc (page_rank whd_id whd_created_at) (filter (delivery_wanted e st) (deliveries d))) \<Longrightarrow>
    list_deliveries limit (Some (whd_id (order_desc (page_rank whd_id whd_created_at) (filter (delivery_wanted e st) (deliveries d)) ! i))) e st d =
    Inr (take limit (drop (Suc i) (order_desc (page_rank whd_id whd_created_at) (filter (delivery_wanted e st) (deliveries d)))))"
    by (simp add: list_deliveries_def)
qed (simp add: list_deliveries_def page_def)

interpretation submission_pages: paged_list "\<lambda>d limit after. list_submissions f limit after d" "\<lambda>r. sub_id (fst r)"
  "\<lambda>d. map (\<lambda>s. (s, owed_delivery d s)) (order_desc (page_rank sub_id sub_received_at) (filter (narrowed f) (submissions d)))"
  db_ok for f
proof
  fix d :: db and limit i :: nat
  assume "db_ok d"
  then have "distinct (map sub_id (submissions d))" by (simp add: db_ok_defs)
  from page_later [OF this, of i sub_received_at "narrowed f" limit]
  show "i < length (map (\<lambda>s. (s, owed_delivery d s)) (order_desc (page_rank sub_id sub_received_at) (filter (narrowed f) (submissions d)))) \<Longrightarrow>
    list_submissions f limit (Some (sub_id (fst (map (\<lambda>s. (s, owed_delivery d s))
       (order_desc (page_rank sub_id sub_received_at) (filter (narrowed f) (submissions d))) ! i)))) d =
    Inr (take limit (drop (Suc i) (map (\<lambda>s. (s, owed_delivery d s))
       (order_desc (page_rank sub_id sub_received_at) (filter (narrowed f) (submissions d))))))"
    by (simp add: list_submissions_def take_map drop_map)
qed (simp add: list_submissions_def page_def take_map)

subsection \<open>Properties\<close>

text \<open>
  C12. Following the cursors of the submission list, from the first page and with pages of any size, ends
  after at most one request per matching submission and one more, and no request on the way fails. What
  it has read, while nothing else writes, is every submission the filter matches, exactly once, newest
  first, each beside the delivery it owes.
\<close>
theorem submission_walk_complete:
  assumes "db_ok d" and "0 < limit" and "length (filter (narrowed f) (submissions d)) \<le> n"
  shows "\<exists>rows. walk_pages (\<lambda>after. list_submissions f limit after d) (\<lambda>r. sub_id (fst r)) limit (Suc n) None =
      Some (map (\<lambda>s. (s, owed_delivery d s)) rows) \<and>
    set rows = set (filter (narrowed f) (submissions d)) \<and> distinct (map sub_id rows) \<and>
    sorted_wrt (\<lambda>r s. (sub_received_at s, sub_id s) < (sub_received_at r, sub_id r)) rows"
proof (intro exI conjI)
  let ?rank = "page_rank sub_id sub_received_at"
  let ?rows = "order_desc ?rank (filter (narrowed f) (submissions d))"
  have ids: "distinct (map sub_id (filter (narrowed f) (submissions d)))"
    using assms(1) by (intro distinct_key_filter) (simp add: db_ok_defs)
  show "walk_pages (\<lambda>after. list_submissions f limit after d) (\<lambda>r. sub_id (fst r)) limit (Suc n) None =
      Some (map (\<lambda>s. (s, owed_delivery d s)) ?rows)"
    using submission_pages.walk_reads_all [OF assms(1,2), of f n] assms(3) by simp
  show "set ?rows = set (filter (narrowed f) (submissions d))" by simp
  show "distinct (map sub_id ?rows)" using distinct_order_desc [OF ids, of ?rank] by simp
  show "sorted_wrt (\<lambda>r s. (sub_received_at s, sub_id s) < (sub_received_at r, sub_id r)) ?rows"
    using order_desc_strict [OF ids, of sub_received_at] by (simp add: page_rank_def)
qed

lemma submission_walk_complete_witness:
  "map_option (map (\<lambda>r. sub_id (fst r))) (walk_pages (\<lambda>after. list_submissions
       \<lparr>flt_endpoint_id = None, flt_received_after = None, flt_received_before = None\<rparr> 2 after sample_db)
       (\<lambda>r. sub_id (fst r)) 2 (Suc 3) None) = Some [lit ''s2'', lit ''s1'', lit ''s0''] \<and>
   (\<exists>rows. set rows = set (submissions sample_db) \<and> distinct (map sub_id rows) \<and> walk_pages (\<lambda>after. list_submissions
       \<lparr>flt_endpoint_id = None, flt_received_after = None, flt_received_before = None\<rparr> 2 after sample_db)
       (\<lambda>r. sub_id (fst r)) 2 (Suc 3) None = Some (map (\<lambda>s. (s, owed_delivery sample_db s)) rows))"
proof (rule conjI)
  let ?f = "\<lparr>flt_endpoint_id = None, flt_received_after = None, flt_received_before = None\<rparr>"
  show "map_option (map (\<lambda>r. sub_id (fst r))) (walk_pages (\<lambda>after. list_submissions ?f 2 after sample_db)
       (\<lambda>r. sub_id (fst r)) 2 (Suc 3) None) = Some [lit ''s2'', lit ''s1'', lit ''s0'']" by code_simp
  have n: "length (filter (narrowed ?f) (submissions sample_db)) \<le> 3" by code_simp
  have "filter (narrowed ?f) (submissions sample_db) = submissions sample_db" by (simp add: narrowed_def)
  with submission_walk_complete [OF sample_db_ok _ n, of 2]
  show "\<exists>rows. set rows = set (submissions sample_db) \<and> distinct (map sub_id rows) \<and> walk_pages (\<lambda>after. list_submissions ?f 2 after sample_db)
       (\<lambda>r. sub_id (fst r)) 2 (Suc 3) None = Some (map (\<lambda>s. (s, owed_delivery sample_db s)) rows)"
    by auto
qed

text \<open>
  The delivery queue is listed completely as well: following the cursors under any filter reads
  every matching delivery exactly once, newest first.
\<close>
lemma delivery_walk_complete:
  assumes "db_ok d" and "0 < limit" and "length (deliveries d) \<le> n"
  shows "walk_pages (\<lambda>after. list_deliveries limit after e st d) whd_id limit (Suc n) None =
    Some (order_desc (page_rank whd_id whd_created_at) (filter (delivery_wanted e st) (deliveries d)))"
  using delivery_pages.walk_reads_all [OF assms(1,2), of e st n] assms(3) length_filter_le [of "delivery_wanted e st" "deliveries d"]
  by simp

end
