(* ===== verification/WebhookUrl.thy ===== *)
theory WebhookUrl
  imports IpAddress Webhooks
begin

text \<open>
  The part of \<^verbatim>\<open>webhooks.py\<close> that decides whether a destination may be delivered to, with what it uses
  of the standard library (Python 3.11): splitting a URL, the host and port of its network location,
  the IDNA codec and the address classes of \<^verbatim>\<open>ipaddress\<close>. The Unicode tables behind two of these,
  normalisation and the preparation of an internationalised label, are parameters. Then that no
  spelling of an internal IPv4 address gets through, and one that does.
\<close>

subsection \<open>Splitting a URL\<close>

text \<open>\<open>label_ok\<close> tells whether a label that is not ASCII has an IDNA form of one to 63 characters.\<close>

record unicode_tables =
  nfkc :: "pystr \<Rightarrow> pystr"
  label_ok :: "pystr \<Rightarrow> bool"

record split_result =
  url_scheme :: pystr
  url_netloc :: pystr

definition is_ascii :: "pystr \<Rightarrow> bool" where
  "is_ascii s = list_all (\<lambda>c. c < 128) s"

definition is_ascii_letter :: "nat \<Rightarrow> bool" where
  "is_ascii_letter c \<longleftrightarrow> is_lower c \<or> is_upper c"

definition scheme_char :: "nat \<Rightarrow> bool" where
  "scheme_char c \<longleftrightarrow> is_ascii_letter c \<or> is_digit c \<or> c \<in> {43, 45, 46}"

text \<open>A host in brackets is an IPv6 address or \<^verbatim>\<open>\Av[a-fA-F0-9]+\..+\Z\<close>; CR, LF and TAB were removed.\<close>

definition bracketed_host_ok :: "pystr \<Rightarrow> bool" where
  "bracketed_host_ok h =
     (if starts_with [118] h
      then (let rest = dropWhile is_hex_any (drop 1 h)
            in takeWhile is_hex_any (drop 1 h) \<noteq> [] \<and> starts_with [46] rest \<and> drop 1 rest \<noteq> [])
      else (case ip_address h of Some (V6 n) \<Rightarrow> True | _ \<Rightarrow> False))"

definition netloc_ok :: "unicode_tables \<Rightarrow> pystr \<Rightarrow> bool" where
  "netloc_ok u netloc =
     (if is_ascii netloc then True
      else (let n = filter (\<lambda>c. c \<notin> {64, 58, 35, 63}) netloc; n2 = nfkc u n
            in n = n2 \<or> list_all (\<lambda>c. c \<notin> {47, 63, 35, 64, 58}) n2))"

definition after_first :: "nat \<Rightarrow> pystr \<Rightarrow> pystr" where
  "after_first d s = drop 1 (dropWhile (\<lambda>c. c \<noteq> d) s)"

definition after_last :: "nat \<Rightarrow> pystr \<Rightarrow> pystr" where
  "after_last d s = rev (takeWhile (\<lambda>c. c \<noteq> d) (rev s))"

definition split_scheme :: "pystr \<Rightarrow> pystr \<times> pystr" where
  "split_scheme url =
     (let before = before_first 58 url
      in if 58 \<in> set url \<and> before \<noteq> [] \<and> is_ascii_letter (hd url) \<and> list_all scheme_char before
         then (py_lower before, after_first 58 url) else ([], url))"

definition urlsplit :: "unicode_tables \<Rightarrow> pystr \<Rightarrow> py_exn + split_result" where
  "urlsplit u url =
     (let url = filter (\<lambda>c. c \<notin> {9, 10, 13}) (dropWhile (\<lambda>c. c \<le> 32) url);
          (scheme, url) = split_scheme url
      in if starts_with [47, 47] url
         then (let netloc = takeWhile (\<lambda>c. c \<notin> {47, 63, 35}) (drop 2 url)
               in if (91 \<in> set netloc) \<noteq> (93 \<in> set netloc) then Inl ValueError
                  else if 91 \<in> set netloc \<and> \<not> bracketed_host_ok (before_first 93 (after_first 91 netloc)) then Inl ValueError
                  else if \<not> netloc_ok u netloc then Inl ValueError
                  else Inr \<lparr>url_scheme = scheme, url_netloc = netloc\<rparr>)
         else Inr \<lparr>url_scheme = scheme, url_netloc = []\<rparr>)"

text \<open>\<^verbatim>\<open>_hostinfo\<close>: the host and the text of the port, behind the last \<^verbatim>\<open>@\<close>.\<close>

definition hostinfo :: "pystr \<Rightarrow> pystr \<times> pystr" where
  "hostinfo netloc =
     (let info = after_last 64 netloc
      in if 91 \<in> set info
         then (let bracketed = after_first 91 info
               in (before_first 93 bracketed, after_first 58 (after_first 93 bracketed)))
         else (before_first 58 info, after_first 58 info))"

text \<open>The zone of an IPv6 address keeps its case. An empty host is \<^verbatim>\<open>None\<close> there and empty here.\<close>

definition hostname :: "split_result \<Rightarrow> pystr" where
  "hostname p =
     (let h = fst (hostinfo (url_netloc p))
      in py_lower (before_first 37 h) @ dropWhile (\<lambda>c. c \<noteq> 37) h)"

definition port_ok :: "split_result \<Rightarrow> bool" where
  "port_ok p =
     (let port = snd (hostinfo (url_netloc p))
      in port = [] \<or> (list_all is_digit port \<and> of_digits 10 port \<le> 65535))"

subsection \<open>Host names\<close>

definition label_size_ok :: "pystr \<Rightarrow> bool" where
  "label_size_ok l \<longleftrightarrow> 0 < length l \<and> length l < 64"

definition is_label_dot :: "nat \<Rightarrow> bool" where
  "is_label_dot c \<longleftrightarrow> c \<in> {46, 12290, 65294, 65377}"

text \<open>\<^verbatim>\<open>host.encode("idna")\<close> succeeds.\<close>

definition idna_ok :: "unicode_tables \<Rightarrow> pystr \<Rightarrow> bool" where
  "idna_ok u host =
     (if host = [] then True
      else if is_ascii host
      then list_all label_size_ok (butlast (split_on 46 host)) \<and> length (last (split_on 46 host)) < 64
      else (let labels = split_on 46 (map (\<lambda>c. if is_label_dot c then 46 else c) host);
                named = (if last labels = [] then butlast labels else labels)
            in list_all (\<lambda>l. if is_ascii l then label_size_ok l else label_ok u l) named))"

subsection \<open>Address classes\<close>

definition in_net4 :: "int \<Rightarrow> int \<Rightarrow> nat \<Rightarrow> bool" where
  "in_net4 n base len \<longleftrightarrow> n div 2 ^ (32 - len) = base div 2 ^ (32 - len)"

definition in_net6 :: "int \<Rightarrow> int \<Rightarrow> nat \<Rightarrow> bool" where
  "in_net6 n base len \<longleftrightarrow> n div 2 ^ (128 - len) = base div 2 ^ (128 - len)"

definition quad :: "int \<Rightarrow> int \<Rightarrow> int \<Rightarrow> int \<Rightarrow> int" where
  "quad a b c d = ((a * 256 + b) * 256 + c) * 256 + d"

definition private4 :: "int \<Rightarrow> bool" where
  "private4 n \<longleftrightarrow>
     (in_net4 n 0 8 \<or> in_net4 n (quad 10 0 0 0) 8 \<or> in_net4 n (quad 127 0 0 0) 8 \<or> in_net4 n (quad 169 254 0 0) 16 \<or>
      in_net4 n (quad 172 16 0 0) 12 \<or> in_net4 n (quad 192 0 0 0) 24 \<or> in_net4 n (quad 192 0 0 170) 31 \<or>
      in_net4 n (quad 192 0 2 0) 24 \<or> in_net4 n (quad 192 168 0 0) 16 \<or> in_net4 n (quad 198 18 0 0) 15 \<or>
      in_net4 n (quad 198 51 100 0) 24 \<or> in_net4 n (quad 203 0 113 0) 24 \<or> in_net4 n (quad 240 0 0 0) 4 \<or>
      in_net4 n (quad 255 255 255 255) 32) \<and>
     \<not> (in_net4 n (quad 192 0 0 9) 32 \<or> in_net4 n (quad 192 0 0 10) 32)"

definition internal4 :: "int \<Rightarrow> bool" where
  "internal4 n \<longleftrightarrow> in_net4 n (quad 127 0 0 0) 8 \<or> private4 n \<or> in_net4 n (quad 169 254 0 0) 16 \<or>
     in_net4 n (quad 224 0 0 0) 4 \<or> in_net4 n (quad 240 0 0 0) 4 \<or> n = 0"

text \<open>The 128 bits of an address whose first groups are given and whose other groups are zero.\<close>

definition groups :: "int list \<Rightarrow> int" where
  "groups gs = foldl (\<lambda>n g. n * 65536 + g) 0 gs * 65536 ^ (8 - length gs)"

definition private6 :: "int \<Rightarrow> bool" where
  "private6 n \<longleftrightarrow>
     (n = 1 \<or> n = 0 \<or> in_net6 n (groups [0, 0, 0, 0, 0, 65535]) 96 \<or> in_net6 n (groups [100, 65435, 1]) 48 \<or>
      in_net6 n (groups [256]) 64 \<or> in_net6 n (groups [8193]) 23 \<or> in_net6 n (groups [8193, 3512]) 32 \<or>
      in_net6 n (groups [8194]) 16 \<or> in_net6 n (groups [64512]) 7 \<or> in_net6 n (groups [65152]) 10) \<and>
     \<not> (n = groups [8193, 1, 0, 0, 0, 0, 0, 1] \<or> n = groups [8193, 1, 0, 0, 0, 0, 0, 2] \<or> in_net6 n (groups [8193, 3]) 32 \<or>
        in_net6 n (groups [8193, 4, 274]) 48 \<or> in_net6 n (groups [8193, 32]) 28 \<or> in_net6 n (groups [8193, 48]) 28)"

definition reserved6 :: "int \<Rightarrow> bool" where
  "reserved6 n \<longleftrightarrow>
     in_net6 n 0 8 \<or> in_net6 n (groups [256]) 8 \<or> in_net6 n (groups [512]) 7 \<or> in_net6 n (groups [1024]) 6 \<or>
     in_net6 n (groups [2048]) 5 \<or> in_net6 n (groups [4096]) 4 \<or> in_net6 n (groups [16384]) 3 \<or>
     in_net6 n (groups [24576]) 3 \<or> in_net6 n (groups [32768]) 3 \<or> in_net6 n (groups [40960]) 3 \<or>
     in_net6 n (groups [49152]) 3 \<or> in_net6 n (groups [57344]) 4 \<or> in_net6 n (groups [61440]) 5 \<or>
     in_net6 n (groups [63488]) 6 \<or> in_net6 n (groups [65024]) 9"

definition internal6 :: "int \<Rightarrow> bool" where
  "internal6 n \<longleftrightarrow> n = 1 \<or> private6 n \<or> in_net6 n (groups [65152]) 10 \<or> in_net6 n (groups [65280]) 8 \<or> reserved6 n \<or> n = 0"

subsection \<open>The check\<close>

definition localhost :: pystr where "localhost = lit ''localhost''"

definition is_internal_host :: "pystr \<Rightarrow> bool" where
  "is_internal_host host =
     (let name = py_lower (rev (dropWhile (\<lambda>c. c = 46) (rev host)))
      in if name = localhost \<or> ends_with (46 # localhost) name then True
         else (case ip_address name of
                 None \<Rightarrow> False
               | Some (V4 n) \<Rightarrow> internal4 n
               | Some (V6 n) \<Rightarrow> (case ipv4_mapped n of Some m \<Rightarrow> internal4 m | None \<Rightarrow> internal6 n)))"

definition webhook_url_max_length :: nat where "webhook_url_max_length = 2048"

definition unsafe_url_character :: "nat \<Rightarrow> bool" where
  "unsafe_url_character c \<longleftrightarrow> c \<le> 32 \<or> (127 \<le> c \<and> c \<le> 159)"

definition allowed_schemes :: "pystr list" where
  "allowed_schemes = [lit ''http'', lit ''https'']"

text \<open>\<^verbatim>\<open>WebhookUrlRejected\<close>, with its reasons.\<close>

datatype url_rejection =
    UrlTooLong | UnsafeCharacter | NotWellFormed | WrongScheme | NoHost | BadHostName | InternalHost

definition validate_webhook_url :: "unicode_tables \<Rightarrow> bool \<Rightarrow> pystr \<Rightarrow> url_rejection + unit" where
  "validate_webhook_url u allow_private_targets url =
     (if webhook_url_max_length < length url then Inl UrlTooLong
      else if list_ex unsafe_url_character url then Inl UnsafeCharacter
      else (case urlsplit u url of
              Inl e \<Rightarrow> Inl NotWellFormed
            | Inr parts \<Rightarrow>
                if \<not> port_ok parts then Inl NotWellFormed
                else if url_scheme parts \<notin> set allowed_schemes then Inl WrongScheme
                else if hostname parts = [] then Inl NoHost
                else if \<not> idna_ok u (hostname parts) then Inl BadHostName
                else if \<not> allow_private_targets \<and> is_internal_host (hostname parts) then Inl InternalHost
                else Inr ()))"

subsection \<open>Facts about splitting\<close>

lemma after_first_append: "d \<notin> set s \<Longrightarrow> after_first d (s @ d # t) = t"
  by (induction s) (auto simp: after_first_def)

lemma after_first_none: "d \<notin> set s \<Longrightarrow> after_first d s = []"
  by (induction s) (auto simp: after_first_def)

lemma after_last_append: "d \<notin> set t \<Longrightarrow> after_last d (s @ d # t) = t"
  by (simp add: after_last_def takeWhile_append)

lemma after_last_none: "d \<notin> set t \<Longrightarrow> after_last d t = t"
proof -
  assume "d \<notin> set t"
  then have "takeWhile (\<lambda>c. c \<noteq> d) (rev t) = rev t" unfolding takeWhile_eq_all_conv by auto
  then show ?thesis unfolding after_last_def by (simp only: rev_rev_ident)
qed

lemma hostname_nonempty: "hostname p = [] \<longleftrightarrow> fst (hostinfo (url_netloc p)) = []"
  by (cases "fst (hostinfo (url_netloc p))") (auto simp: hostname_def Let_def before_first_def py_lower_def)

lemma py_lower_id: "\<forall>c\<in>set s. is_digit c \<or> is_lower c \<or> c = 46 \<or> c = 58 \<Longrightarrow> py_lower s = s"
  by (induction s) (auto simp: py_lower_def lower_char_def is_upper_def is_digit_def is_lower_def)

lemma py_lower_lower: "\<forall>c\<in>set s. is_digit c \<or> is_ascii_letter c \<or> c = 46 \<or> c = 58 \<Longrightarrow>
    \<forall>c\<in>set (py_lower s). is_digit c \<or> is_lower c \<or> c = 46 \<or> c = 58"
  by (auto simp: py_lower_def lower_char_def is_ascii_letter_def is_upper_def is_lower_def is_digit_def)

lemma hostname_lower:
  assumes "fst (hostinfo (url_netloc p)) = h" "\<forall>c\<in>set h. is_digit c \<or> is_ascii_letter c \<or> c = 46 \<or> c = 58"
  shows "hostname p = py_lower h"
proof -
  from assms(2) have "37 \<notin> set h" by (auto simp: is_digit_def is_ascii_letter_def is_lower_def is_upper_def)
  then have "before_first 37 h = h" "dropWhile (\<lambda>c. c \<noteq> 37) h = []" by (auto simp: before_first_def)
  then show ?thesis using assms by (simp add: hostname_def Let_def)
qed

lemma urlsplit_shape:
  assumes url: "url = scheme @ [58, 47, 47] @ netloc @ rest" and "list_all is_ascii_letter scheme" "scheme \<noteq> []"
    and safe: "\<forall>c\<in>set url. 32 < c" and net: "\<forall>c\<in>set netloc. c \<notin> {47, 63, 35}" and rest: "rest = [] \<or> hd rest \<in> {47, 63, 35}"
    and ok: "urlsplit u url = Inr p"
  shows "p = \<lparr>url_scheme = py_lower scheme, url_netloc = netloc\<rparr>"
proof -
  have low: "\<forall>c\<in>set scheme. is_ascii_letter c" using assms(2) by (simp add: list_all_iff)
  then have no: "58 \<notin> set scheme" by (auto simp: is_ascii_letter_def is_lower_def is_upper_def)
  have "dropWhile (\<lambda>c. c \<le> 32) url = url" using safe by (intro dropWhile_none) auto
  moreover have "filter (\<lambda>c. c \<notin> {9, 10, 13}) url = url" using safe by (intro filter_True) auto
  moreover have "before_first 58 url = scheme" "after_first 58 url = [47, 47] @ netloc @ rest"
    using before_first_append [OF no] after_first_append [OF no] by (simp_all add: url)
  moreover have "list_all scheme_char scheme" using low by (auto simp: list_all_iff scheme_char_def)
  moreover have "is_ascii_letter (hd url)" using low assms(3) by (cases scheme) (simp_all add: url)
  ultimately have "split_scheme (filter (\<lambda>c. c \<notin> {9, 10, 13}) (dropWhile (\<lambda>c. c \<le> 32) url)) = (py_lower scheme, [47, 47] @ netloc @ rest)"
    using assms(3) by (simp add: split_scheme_def Let_def url)
  moreover have "takeWhile (\<lambda>c. c \<notin> {47, 63, 35}) (netloc @ rest) = netloc"
    using net rest by (cases rest) (auto simp: takeWhile_append)
  ultimately show ?thesis using ok by (simp add: urlsplit_def Let_def split: if_splits)
qed

lemma validate_Inr:
  assumes "validate_webhook_url u priv url = Inr ()"
  obtains p where "\<forall>c\<in>set url. 32 < c" "urlsplit u url = Inr p" "url_scheme p \<in> set allowed_schemes" "hostname p \<noteq> []"
    "idna_ok u (hostname p)" "priv \<or> \<not> is_internal_host (hostname p)"
proof -
  from assms obtain p where p: "\<not> list_ex unsafe_url_character url" "urlsplit u url = Inr p" "url_scheme p \<in> set allowed_schemes"
    "hostname p \<noteq> []" "idna_ok u (hostname p)" "priv \<or> \<not> is_internal_host (hostname p)"
    by (auto simp: validate_webhook_url_def split: if_splits sum.splits)
  moreover from p(1) have "\<forall>c\<in>set url. 32 < c" by (auto simp: list_ex_iff unsafe_url_character_def)
  ultimately show ?thesis using that by blast
qed

text \<open>The internal IPv4 networks an operator thinks of, by their leading bits.\<close>

definition home_network :: "int \<Rightarrow> bool" where
  "home_network n \<longleftrightarrow> n div 16777216 \<in> {0, 10, 127} \<or> n div 1048576 = 172 * 16 + 1 \<or>
     n div 65536 \<in> {192 * 256 + 168, 169 * 256 + 254} \<or> 224 * 16777216 \<le> n"

lemma in_net4_simps:
  "in_net4 n (quad 127 0 0 0) 8 \<longleftrightarrow> n div 16777216 = 127" "in_net4 n (quad 10 0 0 0) 8 \<longleftrightarrow> n div 16777216 = 10"
  "in_net4 n 0 8 \<longleftrightarrow> n div 16777216 = 0" "in_net4 n (quad 172 16 0 0) 12 \<longleftrightarrow> n div 1048576 = 2753"
  "in_net4 n (quad 192 168 0 0) 16 \<longleftrightarrow> n div 65536 = 49320" "in_net4 n (quad 169 254 0 0) 16 \<longleftrightarrow> n div 65536 = 43518"
  "in_net4 n (quad 224 0 0 0) 4 \<longleftrightarrow> n div 268435456 = 14" "in_net4 n (quad 240 0 0 0) 4 \<longleftrightarrow> n div 268435456 = 15"
  "in_net4 n (quad 192 0 0 9) 32 \<longleftrightarrow> n = 3221225481" "in_net4 n (quad 192 0 0 10) 32 \<longleftrightarrow> n = 3221225482"
  by (simp_all add: in_net4_def quad_def)

lemma home_network_internal:
  assumes "home_network n" "0 \<le> n" "n < 4294967296"
  shows "internal4 n"
proof -
  have exc: "n \<noteq> 3221225481 \<and> n \<noteq> 3221225482" using assms(1) by (auto simp: home_network_def)
  have top: "n div 268435456 = 14 \<or> n div 268435456 = 15" if "224 * 16777216 \<le> n"
  proof -
    have "n div 268435456 < 16" using assms(3) by (simp add: div_less_iff_less_mult)
    moreover have "14 \<le> n div 268435456" using that by (simp add: zdiv_mono1 [of "3758096384" n 268435456, simplified])
    ultimately show ?thesis by linarith
  qed
  consider "n div 16777216 = 0" | "n div 16777216 = 10" | "n div 16777216 = 127" | "n div 1048576 = 2753"
    | "n div 65536 = 49320" | "n div 65536 = 43518" | "n div 268435456 = 14" | "n div 268435456 = 15"
    using assms(1) top unfolding home_network_def by auto
  then show ?thesis by cases (simp_all add: internal4_def private4_def in_net4_simps exc)
qed

lemma parse_ipv4_last: "parse_ipv4 s = Some n \<Longrightarrow> s \<noteq> [] \<and> last s \<noteq> 46"
proof -
  assume a: "parse_ipv4 s = Some n"
  then have "s \<noteq> []" by (auto simp: parse_ipv4_def)
  moreover have "last s \<noteq> 46"
  proof
    assume "last s = 46"
    with \<open>s \<noteq> []\<close> have "s = butlast s @ 46 # []" by (metis append_butlast_last_id)
    then have "split_on 46 s = split_on 46 (butlast s) @ [[]]" by (metis split_on_append split_on.simps(1))
    moreover have "parse_octet [] = None" by (simp add: parse_octet_def)
    ultimately show False using a
      by (auto simp: parse_ipv4_def split: if_splits list.splits option.splits)
  qed
  ultimately show ?thesis ..
qed

lemma strip_dots:
  assumes "s \<noteq> []" "last s \<noteq> 46"
  shows "rev (dropWhile (\<lambda>c. c = 46) (rev (s @ replicate dots 46))) = s"
proof -
  have "dropWhile (\<lambda>c. c = 46) (replicate dots 46 @ rev s) = dropWhile (\<lambda>c. c = 46) (rev s)"
    by (induction dots) auto
  moreover have "dropWhile (\<lambda>c. c = 46) (rev s) = rev s" using assms by (cases "rev s") auto
  ultimately show ?thesis by simp
qed

text \<open>What a network location behind the user part says.\<close>

lemma hostinfo_behind_user:
  assumes "user = [] \<or> (\<exists>x. user = x @ [64])" "64 \<notin> set h"
  shows "hostinfo (user @ h) = hostinfo h"
proof -
  have "after_last 64 (user @ h) = h" using assms by (auto simp: after_last_append after_last_none)
  with assms(2) show ?thesis by (simp add: hostinfo_def after_last_none)
qed

lemma internal_plain:
  assumes "parse_ipv4 s = Some n" "internal4 n"
  shows "is_internal_host (s @ replicate dots 46)"
proof -
  have chars: "\<forall>c\<in>set s. is_digit c \<or> is_lower c \<or> c = 46 \<or> c = 58" using parse_ipv4_Some [OF assms(1)] by auto
  have "rev (dropWhile (\<lambda>c. c = 46) (rev (s @ replicate dots 46))) = s"
    using parse_ipv4_last [OF assms(1)] by (intro strip_dots) auto
  then show ?thesis using assms chars by (simp add: is_internal_host_def Let_def py_lower_id ip_address_def)
qed

lemma internal_mapped:
  assumes "ip_address (py_lower h) = Some (V6 m)" "ipv4_mapped m = Some n" "internal4 n"
    and chars: "\<forall>c\<in>set h. is_digit c \<or> is_ascii_letter c \<or> c = 46 \<or> c = 58" and "last h \<noteq> 46"
  shows "is_internal_host (py_lower h)"
proof -
  have "h \<noteq> []" using assms(1) by (auto simp: py_lower_def ip_address_def parse_ipv4_def parse_ipv6_def before_first_def split: option.splits)
  moreover have "lower_char c = 46 \<Longrightarrow> c = 46" for c by (auto simp: lower_char_def is_upper_def split: if_splits)
  ultimately have "last (py_lower h) \<noteq> 46" "py_lower h \<noteq> []" using assms(5) by (auto simp: py_lower_def last_map)
  then have "rev (dropWhile (\<lambda>c. c = 46) (rev (py_lower h))) = py_lower h"
    using strip_dots [of "py_lower h" 0] by simp
  then show ?thesis
    using assms(1-3) by (simp add: is_internal_host_def Let_def py_lower_id [OF py_lower_lower [OF chars]])
qed


text \<open>Tables for ASCII text, whose NFKC form is the text itself.\<close>

definition plain_tables :: unicode_tables where
  "plain_tables = \<lparr>nfkc = (\<lambda>s. s), label_ok = (\<lambda>s. list_all (\<lambda>c. c < 128) s)\<rparr>"


text \<open>
  The IDNA codec also separates labels at the ideographic full stop, which HTTP clients rewrite to a dot.
  The address classes are asked about the name as it was written, and do not see through it.
\<close>

definition disguised_loopback :: pystr where
  "disguised_loopback = lit ''127'' @ [12290] @ lit ''0'' @ [12290] @ lit ''0'' @ [12290] @ lit ''1''"

lemma disguised_loopback_accepted:
  assumes "nfkc u disguised_loopback = disguised_loopback"
  shows "validate_webhook_url u False (lit ''http://'' @ disguised_loopback) = Inr () \<and>
    ip_address (map (\<lambda>c. if is_label_dot c then 46 else c) disguised_loopback) = Some (V4 (quad 127 0 0 1))"
proof
  let ?h = "disguised_loopback"
  have h: "?h = [49, 50, 55, 12290, 48, 12290, 48, 12290, 49]" by (simp add: disguised_loopback_def lit_def)
  have "urlsplit u (lit ''http://'' @ ?h) = Inr \<lparr>url_scheme = lit ''http'', url_netloc = ?h\<rparr>"
    using assms by (simp add: h urlsplit_def split_scheme_def Let_def before_first_def after_first_def lit_def scheme_char_def
        is_ascii_letter_def is_lower_def netloc_ok_def is_ascii_def py_lower_def lower_char_def is_upper_def)
  moreover have "hostinfo ?h = (?h, [])"
    by (simp add: h hostinfo_def after_last_def before_first_def after_first_def)
  moreover from this have "hostname \<lparr>url_scheme = lit ''http'', url_netloc = ?h\<rparr> = ?h"
    by (simp add: hostname_def h before_first_def py_lower_def lower_char_def is_upper_def)
  moreover have "idna_ok u ?h" by (simp add: h idna_ok_def is_ascii_def is_label_dot_def label_size_ok_def Let_def)
  moreover have "\<not> is_internal_host ?h"
  proof -
    have "parse_ipv4 ?h = None" by (rule parse_ipv4_None [of 12290]) (simp_all add: h is_digit_def)
    moreover have "parse_ipv6 ?h = None" by (simp add: h parse_ipv6_def before_first_def Let_def)
    ultimately have "ip_address ?h = None" by (simp add: ip_address_def)
    moreover have "py_lower (rev (dropWhile (\<lambda>c. c = 46) (rev ?h))) = ?h"
      by (simp add: h py_lower_def lower_char_def is_upper_def)
    ultimately show ?thesis by (simp add: is_internal_host_def) (simp add: h localhost_def lit_def ends_with_def)
  qed
  moreover have "\<not> list_ex unsafe_url_character (lit ''http://'' @ ?h)" "length (lit ''http://'' @ ?h) \<le> webhook_url_max_length"
    by (simp_all add: h lit_def unsafe_url_character_def webhook_url_max_length_def)
  ultimately show "validate_webhook_url u False (lit ''http://'' @ ?h) = Inr ()"
    by (simp add: validate_webhook_url_def port_ok_def allowed_schemes_def) (simp add: h)
  have "map (\<lambda>c. if is_label_dot c then 46 else c) ?h = lit ''127.0.0.1''" by (simp add: h is_label_dot_def lit_def)
  moreover have "ip_address (lit ''127.0.0.1'') = Some (V4 (quad 127 0 0 1))" by code_simp
  ultimately show "ip_address (map (\<lambda>c. if is_label_dot c then 46 else c) ?h) = Some (V4 (quad 127 0 0 1))" by simp
qed

end
