(* ===== verification/EndpointsApi.thy ===== *)
theory EndpointsApi
  imports Security EndpointStore Config Paging WebhookUrl
begin

text \<open>
  \<^verbatim>\<open>api/endpoints.py\<close> and the errors of \<^verbatim>\<open>api/pagination.py\<close>: creating, listing, inspecting and changing
  endpoints. A route is a function of the principal the authentication boundary resolved. Then what
  a change does and leaves alone.
\<close>

subsection \<open>Errors\<close>

definition invalid_cursor :: api_error where
  "invalid_cursor = api_error_of 422 (lit ''invalid_cursor'') (Some [(lit ''field'', DText (lit ''cursor''))])"

definition invalid_new_endpoint_id :: api_error where
  "invalid_new_endpoint_id = api_error_of 422 (lit ''invalid_endpoint_id'') (Some [(lit ''field'', DText (lit ''id''))])"

definition endpoint_id_conflict :: "pystr \<Rightarrow> api_error" where
  "endpoint_id_conflict endpoint_id =
     api_error_of 409 (lit ''endpoint_already_exists'') (Some [(lit ''endpoint_id'', DText endpoint_id)])"

definition no_such_endpoint :: "pystr \<Rightarrow> api_error" where
  "no_such_endpoint endpoint_id =
     api_error_of 404 (lit ''endpoint_not_found'') (Some [(lit ''endpoint_id'', DText endpoint_id)])"

definition invalid_webhook_url :: api_error where
  "invalid_webhook_url = api_error_of 422 (lit ''invalid_webhook_url'') (Some [(lit ''field'', DText (lit ''webhook_url''))])"

subsection \<open>Requests and responses\<close>

definition endpoint_name_max_length :: nat where "endpoint_name_max_length = 200"

definition name_ok :: "pystr \<Rightarrow> bool" where
  "name_ok n \<longleftrightarrow> 1 \<le> length n \<and> length n \<le> endpoint_name_max_length \<and> \<not> contains_nul n"

definition url_size_ok :: "pystr option \<Rightarrow> bool" where
  "url_size_ok url = (case url of None \<Rightarrow> True | Some u \<Rightarrow> length u \<le> webhook_url_max_length)"

record create_endpoint_request =
  cer_id :: pystr
  cer_name :: pystr
  cer_is_active :: bool
  cer_webhook_url :: "pystr option"

definition create_request_ok :: "create_endpoint_request \<Rightarrow> bool" where
  "create_request_ok p \<longleftrightarrow> name_ok (cer_name p) \<and> url_size_ok (cer_webhook_url p)"

text \<open>Whether \<^verbatim>\<open>webhook_url\<close> was sent at all matters, so its value is absent, sent as null, or sent as a URL.\<close>

record update_endpoint_request =
  uer_name :: "pystr option"
  uer_is_active :: "bool option"
  uer_webhook_url :: "pystr option option"

definition update_request_ok :: "update_endpoint_request \<Rightarrow> bool" where
  "update_request_ok p \<longleftrightarrow>
     (case uer_name p of None \<Rightarrow> True | Some n \<Rightarrow> name_ok n) \<and>
     (case uer_webhook_url p of None \<Rightarrow> True | Some url \<Rightarrow> url_size_ok url)"

record endpoint_view =
  ev_id :: pystr
  ev_name :: pystr
  ev_is_active :: bool
  ev_created_at :: time
  ev_webhook_url :: "pystr option"

record endpoint_response = endpoint_view +
  er_webhook_secret :: "pystr option"

record endpoint_page =
  ep_items :: "endpoint_view list"
  ep_next_cursor :: "pystr option"

definition view_endpoint :: "endpoint \<Rightarrow> endpoint_view" where
  "view_endpoint e =
     \<lparr>ev_id = ep_id e, ev_name = ep_name e, ev_is_active = ep_is_active e, ev_created_at = ep_created_at e,
      ev_webhook_url = ep_webhook_url e\<rparr>"

definition mutated :: "endpoint \<Rightarrow> pystr option \<Rightarrow> endpoint_response" where
  "mutated e secret =
     \<lparr>ev_id = ep_id e, ev_name = ep_name e, ev_is_active = ep_is_active e, ev_created_at = ep_created_at e,
      ev_webhook_url = ep_webhook_url e, er_webhook_secret = secret\<rparr>"

subsection \<open>The routes\<close>

definition checked_webhook :: "unicode_tables \<Rightarrow> settings \<Rightarrow> pystr \<Rightarrow> raised + unit" where
  "checked_webhook u s url =
     (case validate_webhook_url u (cfg_allow_private_webhook_targets s) url of
        Inl reason \<Rightarrow> Inl (Api invalid_webhook_url)
      | Inr x \<Rightarrow> Inr x)"

definition insert_endpoint :: "create_endpoint_request \<Rightarrow> pystr option \<Rightarrow> time \<Rightarrow> (db, endpoint) handler" where
  "insert_endpoint p secret now d =
     (case create_endpoint (cer_id p) (cer_name p) (cer_is_active p) (cer_webhook_url p) secret now d of
        (Inl (EndpointAlreadyExists i), d') \<Rightarrow> (Inl (Api (endpoint_id_conflict (cer_id p))), d')
      | (Inr e, d') \<Rightarrow> (Inr e, d'))"

definition create_endpoint_route ::
  "unicode_tables \<Rightarrow> settings \<Rightarrow> time \<Rightarrow> pystr \<Rightarrow> create_endpoint_request \<Rightarrow> principal \<Rightarrow> (db, endpoint_response) handler" where
  "create_endpoint_route u s now hex p who =
     guarded (is_valid_endpoint_id (cer_id p)) (Api invalid_new_endpoint_id)
       (and_then
         (case cer_webhook_url p of
            None \<Rightarrow> giving None
          | Some url \<Rightarrow> and_then (or_raise (checked_webhook u s url)) (\<lambda>_. giving (Some (new_signing_secret hex))))
         (\<lambda>secret. and_then (insert_endpoint p secret now) (\<lambda>e. giving (mutated e secret))))"

definition list_endpoints_route :: "nat \<Rightarrow> pystr option \<Rightarrow> principal \<Rightarrow> (db, endpoint_page) handler" where
  "list_endpoints_route limit cursor who d =
     (case list_endpoints limit cursor d of
        Inl (UnknownCursor c) \<Rightarrow> (Inl (Api invalid_cursor), d)
      | Inr rows \<Rightarrow>
          (Inr \<lparr>ep_items = map view_endpoint rows, ep_next_cursor = next_cursor (map ep_id rows) limit\<rparr>, d))"

definition get_endpoint_route :: "pystr \<Rightarrow> principal \<Rightarrow> (db, endpoint_view) handler" where
  "get_endpoint_route endpoint_id who d =
     (if \<not> is_valid_endpoint_id endpoint_id then (Inl (Api (no_such_endpoint endpoint_id)), d)
      else (case get_endpoint d endpoint_id of
              None \<Rightarrow> (Inl (Api (no_such_endpoint endpoint_id)), d)
            | Some e \<Rightarrow> (Inr (view_endpoint e), d)))"

text \<open>The destination and secret the endpoint ends up with, and the secret that was generated.\<close>

definition resolve_webhook ::
  "unicode_tables \<Rightarrow> settings \<Rightarrow> pystr \<Rightarrow> update_endpoint_request \<Rightarrow> endpoint
     \<Rightarrow> raised + (pystr option \<times> pystr option \<times> pystr option)" where
  "resolve_webhook u s hex p e =
     (case uer_webhook_url p of
        None \<Rightarrow> Inr (ep_webhook_url e, ep_webhook_secret e, None)
      | Some sent \<Rightarrow>
          if sent = ep_webhook_url e then Inr (ep_webhook_url e, ep_webhook_secret e, None)
          else (case sent of
                  None \<Rightarrow> Inr (None, None, None)
                | Some url \<Rightarrow>
                    (case checked_webhook u s url of
                       Inl err \<Rightarrow> Inl err
                     | Inr _ \<Rightarrow> (let secret = Some (new_signing_secret hex) in Inr (Some url, secret, secret)))))"

definition given :: "'a option \<Rightarrow> 'a \<Rightarrow> 'a" where
  "given sent current = (case sent of None \<Rightarrow> current | Some x \<Rightarrow> x)"

definition update_endpoint_route ::
  "unicode_tables \<Rightarrow> settings \<Rightarrow> pystr \<Rightarrow> pystr \<Rightarrow> update_endpoint_request \<Rightarrow> principal \<Rightarrow> (db, endpoint_response) handler" where
  "update_endpoint_route u s hex endpoint_id p who d =
     (if \<not> is_valid_endpoint_id endpoint_id then (Inl (Api (no_such_endpoint endpoint_id)), d)
      else (case get_endpoint_for_update d endpoint_id of
              Inl err \<Rightarrow> (Inl (raised_exn err), d)
            | Inr None \<Rightarrow> (Inl (Api (no_such_endpoint endpoint_id)), d)
            | Inr (Some e) \<Rightarrow>
                (case resolve_webhook u s hex p e of
                   Inl err \<Rightarrow> (Inl err, d)
                 | Inr (url, secret, generated) \<Rightarrow>
                     (case update_endpoint e (given (uer_name p) (ep_name e)) (given (uer_is_active p) (ep_is_active e)) url secret d of
                        (Inl err, d') \<Rightarrow> (Inl (raised_exn err), d')
                      | (Inr e', d') \<Rightarrow> (Inr (mutated e' generated), d')))))"

subsection \<open>Facts\<close>

text \<open>The row a change leaves, and the table it leaves it in.\<close>

definition changed :: "update_endpoint_request \<Rightarrow> pystr option \<Rightarrow> pystr option \<Rightarrow> endpoint \<Rightarrow> endpoint" where
  "changed p url secret e =
     e\<lparr>ep_name := given (uer_name p) (ep_name e), ep_is_active := given (uer_is_active p) (ep_is_active e),
       ep_webhook_url := url, ep_webhook_secret := secret\<rparr>"

lemma changed_sel [simp]:
  "ep_id (changed p url secret e) = ep_id e"
  "ep_created_at (changed p url secret e) = ep_created_at e"
  "ep_name (changed p url secret e) = given (uer_name p) (ep_name e)"
  "ep_is_active (changed p url secret e) = given (uer_is_active p) (ep_is_active e)"
  "ep_webhook_url (changed p url secret e) = url"
  "ep_webhook_secret (changed p url secret e) = secret"
  by (simp_all add: changed_def)

lemma resolve_webhook_paired:
  assumes "resolve_webhook u s hex p e = Inr (url, secret, generated)" "endpoint_check e"
  shows "(url = None) = (secret = None)"
  using assms by (auto simp: resolve_webhook_def endpoint_check_def Let_def split: option.splits if_splits sum.splits)

lemma find_endpoint_set:
  assumes "db_ok d" "get_endpoint d i = Some e" "\<And>r. ep_id (f r) = ep_id r"
  shows "get_endpoint (d\<lparr>endpoints := update_rows (\<lambda>r. ep_id r = i) f (endpoints d)\<rparr>) k =
    (if k = i then Some (f e) else get_endpoint d k)"
proof -
  have "get_endpoint (d\<lparr>endpoints := update_rows (\<lambda>r. ep_id r = i) f (endpoints d)\<rparr>) k =
      map_option (\<lambda>r. if ep_id r = i then f r else r) (get_endpoint d k)"
    by (simp add: get_endpoint_def find_row_update assms(3))
  moreover have "ep_id e = i" using get_endpoint_id [OF assms(2)] ..
  moreover have "ep_id r = k" if "get_endpoint d k = Some r" for r using get_endpoint_id [OF that] ..
  ultimately show ?thesis using assms(2) by (cases "k = i"; cases "get_endpoint d k") simp_all
qed

lemma update_route_eq:
  assumes "db_ok d" "get_endpoint d i = Some e" "is_valid_endpoint_id i"
  shows "update_endpoint_route u s hex i p who d =
    (case resolve_webhook u s hex p e of
       Inl err \<Rightarrow> (Inl err, d)
     | Inr (url, secret, generated) \<Rightarrow>
         (Inr (mutated (changed p url secret e) generated), snd (update_endpoint e (given (uer_name p) (ep_name e))
            (given (uer_is_active p) (ep_is_active e)) url secret d)))"
proof (cases "resolve_webhook u s hex p e")
  case (Inl err)
  with assms show ?thesis by (simp add: update_endpoint_route_def get_for_update_eq)
next
  case (Inr r)
  obtain url secret generated where r: "r = (url, secret, generated)" by (cases r)
  have "(url = None) = (secret = None)"
    using resolve_webhook_paired Inr r get_endpoint_check [OF assms(1,2)] by blast
  from update_endpoint_eq [OF assms(1) this] assms Inr r show ?thesis
    by (simp add: update_endpoint_route_def get_for_update_eq changed_def)
qed

lemma update_store_facts:
  assumes "db_ok d" "get_endpoint d i = Some e" "(url = None) = (secret = None)"
  shows "db_ok (snd (update_endpoint e n a url secret d))"
    and "get_endpoint (snd (update_endpoint e n a url secret d)) k =
      (if k = i then Some (e\<lparr>ep_name := n, ep_is_active := a, ep_webhook_url := url, ep_webhook_secret := secret\<rparr>)
       else get_endpoint d k)"
    and "submissions (snd (update_endpoint e n a url secret d)) = submissions d"
    and "deliveries (snd (update_endpoint e n a url secret d)) = deliveries d"
    and "attempt_log (snd (update_endpoint e n a url secret d)) = attempt_log d"
proof -
  let ?f = "\<lambda>e. e\<lparr>ep_name := n, ep_is_active := a, ep_webhook_url := url, ep_webhook_secret := secret\<rparr>"
  have i: "ep_id e = i" using get_endpoint_id [OF assms(2)] by simp
  note eq = update_endpoint_eq [OF assms(1,3), of e n a, unfolded i]
  show "db_ok (snd (update_endpoint e n a url secret d))"
    unfolding eq snd_conv using assms(1,3) by (intro update_endpoints_ok) (simp_all add: endpoint_check_def)
  show "get_endpoint (snd (update_endpoint e n a url secret d)) k = (if k = i then Some (?f e) else get_endpoint d k)"
    unfolding eq snd_conv by (rule find_endpoint_set [OF assms(1,2)]) simp
  show "submissions (snd (update_endpoint e n a url secret d)) = submissions d"
    "deliveries (snd (update_endpoint e n a url secret d)) = deliveries d"
    "attempt_log (snd (update_endpoint e n a url secret d)) = attempt_log d"
    unfolding eq by simp_all
qed

subsection \<open>Properties\<close>

text \<open>
  C24. A change writes what was sent and nothing else. A field that was left out keeps its value; the
  destination that was already configured keeps its signing secret; a new destination always gets a
  fresh secret, returned in this one answer, and null removes both. The other endpoints and all work
  already queued stay as they were, and a refused change changes nothing.
\<close>
theorem endpoint_patch:
  assumes "db_ok d" and "get_endpoint d i = Some e" and "is_valid_endpoint_id i"
    and "update_endpoint_route u s hex i p who d = (res, d')"
  shows "(case res of
      Inl err \<Rightarrow> d' = d \<and> (\<exists>url. uer_webhook_url p = Some (Some url) \<and> Some url \<noteq> ep_webhook_url e \<and>
        checked_webhook u s url = Inl err)
    | Inr r \<Rightarrow> db_ok d' \<and> submissions d' = submissions d \<and> deliveries d' = deliveries d \<and> attempt_log d' = attempt_log d \<and>
        (\<forall>k. k \<noteq> i \<longrightarrow> get_endpoint d' k = get_endpoint d k) \<and>
        (\<exists>e'. get_endpoint d' i = Some e' \<and> r = mutated e' (er_webhook_secret r) \<and> ep_created_at e' = ep_created_at e \<and>
          ep_name e' = given (uer_name p) (ep_name e) \<and> ep_is_active e' = given (uer_is_active p) (ep_is_active e) \<and>
          (if uer_webhook_url p = None \<or> uer_webhook_url p = Some (ep_webhook_url e)
           then ep_webhook_url e' = ep_webhook_url e \<and> ep_webhook_secret e' = ep_webhook_secret e \<and> er_webhook_secret r = None
           else Some (ep_webhook_url e') = uer_webhook_url p \<and> er_webhook_secret r = ep_webhook_secret e' \<and>
             ep_webhook_secret e' = map_option (\<lambda>_. new_signing_secret hex) (ep_webhook_url e'))))"
proof (cases "resolve_webhook u s hex p e")
  case (Inl err)
  with assms(4) update_route_eq [OF assms(1-3)] have "res = Inl err" "d' = d" by simp_all
  with Inl show ?thesis by (auto simp: resolve_webhook_def Let_def split: option.splits if_splits sum.splits)
next
  case (Inr t)
  obtain url secret generated where t: "t = (url, secret, generated)" by (cases t)
  have paired: "(url = None) = (secret = None)"
    using resolve_webhook_paired Inr t get_endpoint_check [OF assms(1,2)] by blast
  let ?d = "snd (update_endpoint e (given (uer_name p) (ep_name e)) (given (uer_is_active p) (ep_is_active e)) url secret d)"
  have res: "res = Inr (mutated (changed p url secret e) generated)" and d': "d' = ?d"
    using assms(4) update_route_eq [OF assms(1-3)] Inr t by simp_all
  note facts = update_store_facts [OF assms(1,2) paired, of "given (uer_name p) (ep_name e)" "given (uer_is_active p) (ep_is_active e)"]
  have row: "get_endpoint d' i = Some (changed p url secret e)" by (simp add: d' facts(2) changed_def)
  have webhook: "if uer_webhook_url p = None \<or> uer_webhook_url p = Some (ep_webhook_url e)
      then url = ep_webhook_url e \<and> secret = ep_webhook_secret e \<and> generated = None
      else Some url = uer_webhook_url p \<and> generated = secret \<and> secret = map_option (\<lambda>_. new_signing_secret hex) url"
    using Inr t by (auto simp: resolve_webhook_def Let_def split: option.splits if_splits sum.splits)
  have "er_webhook_secret (mutated x g) = g" for x g by (simp add: mutated_def)
  moreover have "\<forall>k. k \<noteq> i \<longrightarrow> get_endpoint d' k = get_endpoint d k" by (simp add: d' facts(2))
  moreover have "db_ok d'" "submissions d' = submissions d" "deliveries d' = deliveries d" "attempt_log d' = attempt_log d"
    unfolding d' by (rule facts)+
  ultimately show ?thesis using row webhook by (simp add: res)
qed

definition sample_principal :: principal where
  "sample_principal = \<lparr>pr_key_id = lit ''mk_1'', pr_name = lit ''ops'', pr_display_prefix = lit ''hym_live_AAAAAAAA''\<rparr>"

lemma endpoint_patch_witness:
  "\<exists>r d'. update_endpoint_route plain_tables (default_settings []) (lit ''1'') (lit ''contact'')
      \<lparr>uer_name = None, uer_is_active = Some False, uer_webhook_url = Some None\<rparr> sample_principal sample_db = (Inr r, d') \<and>
    er_webhook_secret r = None \<and> deliveries d' = deliveries sample_db \<and>
    (\<exists>e. get_endpoint d' (lit ''contact'') = Some e \<and> \<not> ep_is_active e \<and> ep_name e = lit ''Contact'' \<and> ep_webhook_secret e = None)"
proof -
  let ?p = "\<lparr>uer_name = None, uer_is_active = Some False, uer_webhook_url = Some None\<rparr>"
  have e: "get_endpoint sample_db (lit ''contact'') = Some contact" by (simp add: get_endpoint_def sample_db_def contact_def)
  have i: "is_valid_endpoint_id (lit ''contact'')" by code_simp
  obtain res d' where run: "update_endpoint_route plain_tables (default_settings []) (lit ''1'') (lit ''contact'') ?p sample_principal sample_db = (res, d')"
    by (cases "update_endpoint_route plain_tables (default_settings []) (lit ''1'') (lit ''contact'') ?p sample_principal sample_db")
  from endpoint_patch [OF sample_db_ok e i run] show ?thesis
    by (cases res) (auto simp: run contact_def given_def)
qed

end
