(* ===== verification/Migrations.thy ===== *)
theory Migrations
  imports Ddl Delivery EndpointsApi KeyStore Schema
begin

text \<open>
  \<^verbatim>\<open>migrations/versions\<close>: the six revisions with their scripts in both directions, in the order of their
  chain, and the schema \<^verbatim>\<open>models.py\<close> declares, with its naming convention. Then that the chain builds exactly
  the declared schema, and what each revision does to a populated database. The one script with a batch
  block runs it as the plain statement it is on the production database.
\<close>

subsection \<open>The revisions\<close>

record revision =
  rev_id :: string
  rev_down :: "string option"
  rev_upgrade :: "statement list"
  rev_downgrade :: "statement list"

definition col :: "string \<Rightarrow> sql_type \<Rightarrow> bool \<Rightarrow> column" where
  "col n ty opt = \<lparr>col_name = n, col_type = ty, col_nullable = opt\<rparr>"

definition baseline_schema :: revision where
  "baseline_schema =
     \<lparr>rev_id = ''0001'', rev_down = None,
      rev_upgrade =
       [CreateTable ''endpoints''
          [col ''id'' (VARCHAR 64) False, col ''name'' (VARCHAR 200) False, col ''is_active'' BOOLEAN False,
           col ''created_at'' TIMESTAMPTZ False, col ''webhook_url'' (VARCHAR 2048) True, col ''webhook_secret'' (VARCHAR 70) True]
          [PrimaryKey ''pk_endpoints'' [''id''],
           Check ''ck_endpoints_webhook_configuration'' ''(webhook_url IS NULL) = (webhook_secret IS NULL)''],
        CreateTable ''submissions''
          [col ''id'' (VARCHAR 36) False, col ''endpoint_id'' (VARCHAR 64) False, col ''received_at'' TIMESTAMPTZ False,
           col ''fields'' JSON False, col ''idempotency_key'' (VARCHAR 255) True, col ''payload_fingerprint'' (VARCHAR 64) True]
          [PrimaryKey ''pk_submissions'' [''id''],
           ForeignKey ''fk_submissions_endpoint_id_endpoints'' [''endpoint_id''] ''endpoints'' [''id''] None,
           Unique ''uq_submissions_endpoint_idempotency_key'' [''endpoint_id'', ''idempotency_key''],
           Check ''ck_submissions_idempotency_identity'' ''(idempotency_key IS NULL) = (payload_fingerprint IS NULL)''],
        CreateIndex ''submissions'' ''ix_submissions_endpoint_id'' [''endpoint_id''],
        CreateTable ''webhook_deliveries''
          [col ''id'' (VARCHAR 36) False, col ''submission_id'' (VARCHAR 36) False, col ''destination_url'' (VARCHAR 2048) False,
           col ''signing_secret'' (VARCHAR 70) False, col ''state'' (VARCHAR 16) False, col ''attempts'' INTEGER False,
           col ''next_attempt_at'' TIMESTAMPTZ False, col ''claim_expires_at'' TIMESTAMPTZ True,
           col ''created_at'' TIMESTAMPTZ False, col ''completed_at'' TIMESTAMPTZ True]
          [PrimaryKey ''pk_webhook_deliveries'' [''id''],
           ForeignKey ''fk_webhook_deliveries_submission_id_submissions'' [''submission_id''] ''submissions'' [''id''] None,
           Unique ''uq_webhook_deliveries_submission'' [''submission_id''],
           Check ''ck_webhook_deliveries_completion'' ''(state IN ('delivered', 'failed')) = (completed_at IS NOT NULL)''],
        CreateIndex ''webhook_deliveries'' ''ix_webhook_deliveries_next_attempt_at'' [''next_attempt_at''],
        CreateTable ''delivery_attempts''
          [col ''id'' (VARCHAR 36) False, col ''delivery_id'' (VARCHAR 36) False, col ''submission_id'' (VARCHAR 36) False,
           col ''attempt_number'' INTEGER False, col ''destination_url'' (VARCHAR 2048) False, col ''attempted_at'' TIMESTAMPTZ False,
           col ''outcome'' (VARCHAR 32) False, col ''response_status'' INTEGER True, col ''error'' (VARCHAR 500) True]
          [PrimaryKey ''pk_delivery_attempts'' [''id''],
           ForeignKey ''fk_delivery_attempts_delivery_id_webhook_deliveries'' [''delivery_id''] ''webhook_deliveries'' [''id''] None,
           ForeignKey ''fk_delivery_attempts_submission_id_submissions'' [''submission_id''] ''submissions'' [''id''] None],
        CreateIndex ''delivery_attempts'' ''ix_delivery_attempts_delivery_id'' [''delivery_id''],
        CreateIndex ''delivery_attempts'' ''ix_delivery_attempts_submission_id'' [''submission_id'']],
      rev_downgrade =
       [DropIndex ''delivery_attempts'' ''ix_delivery_attempts_submission_id'',
        DropIndex ''delivery_attempts'' ''ix_delivery_attempts_delivery_id'',
        DropTable ''delivery_attempts'',
        DropIndex ''webhook_deliveries'' ''ix_webhook_deliveries_next_attempt_at'',
        DropTable ''webhook_deliveries'',
        DropIndex ''submissions'' ''ix_submissions_endpoint_id'',
        DropTable ''submissions'',
        DropTable ''endpoints'']\<rparr>"

definition management_api_keys :: revision where
  "management_api_keys =
     \<lparr>rev_id = ''0002'', rev_down = Some ''0001'',
      rev_upgrade =
       [CreateTable ''management_api_keys''
          [col ''id'' (VARCHAR 35) False, col ''name'' (VARCHAR 200) False, col ''display_prefix'' (VARCHAR 17) False,
           col ''key_digest'' (VARCHAR 64) False, col ''created_at'' TIMESTAMPTZ False, col ''revoked_at'' TIMESTAMPTZ True,
           col ''last_used_at'' TIMESTAMPTZ True]
          [PrimaryKey ''pk_management_api_keys'' [''id''],
           Unique ''uq_management_api_keys_key_digest'' [''key_digest'']]],
      rev_downgrade = [DropTable ''management_api_keys'']\<rparr>"

definition delivery_retry_cycles :: revision where
  "delivery_retry_cycles =
     \<lparr>rev_id = ''0003'', rev_down = Some ''0002'',
      rev_upgrade =
       [AddColumn ''webhook_deliveries'' (col ''cycle_attempts'' INTEGER True),
        CopyColumn ''webhook_deliveries'' ''cycle_attempts'' ''attempts'',
        SetNullable ''webhook_deliveries'' ''cycle_attempts'' False],
      rev_downgrade = [DropColumn ''webhook_deliveries'' ''cycle_attempts'']\<rparr>"

definition rate_limit_counters :: revision where
  "rate_limit_counters =
     \<lparr>rev_id = ''0004'', rev_down = Some ''0003'',
      rev_upgrade =
       [CreateTable ''rate_limit_counters''
          [col ''limiter'' (VARCHAR 16) False, col ''subject'' (VARCHAR 64) False, col ''window_start'' TIMESTAMPTZ False,
           col ''attempts'' INTEGER False]
          [PrimaryKey ''pk_rate_limit_counters'' [''limiter'', ''subject'', ''window_start'']],
        CreateIndex ''rate_limit_counters'' ''ix_rate_limit_counters_window_start'' [''window_start'']],
      rev_downgrade =
       [DropIndex ''rate_limit_counters'' ''ix_rate_limit_counters_window_start'',
        DropTable ''rate_limit_counters'']\<rparr>"

definition submission_retention :: revision where
  "submission_retention =
     \<lparr>rev_id = ''0005'', rev_down = Some ''0004'',
      rev_upgrade =
       [AddColumn ''webhook_deliveries'' (col ''endpoint_id'' (VARCHAR 64) True),
        CopyFromParent ''webhook_deliveries'' ''endpoint_id'' ''submissions'' ''endpoint_id'' ''id'' ''submission_id'',
        SetNullable ''webhook_deliveries'' ''endpoint_id'' False,
        CreateForeignKey ''webhook_deliveries'' ''fk_webhook_deliveries_endpoint_id_endpoints'' [''endpoint_id'']
          ''endpoints'' [''id''] None,
        SetNullable ''webhook_deliveries'' ''submission_id'' True,
        DropConstraint ''webhook_deliveries'' ''fk_webhook_deliveries_submission_id_submissions'',
        CreateForeignKey ''webhook_deliveries'' ''fk_webhook_deliveries_submission_id_submissions'' [''submission_id'']
          ''submissions'' [''id''] (Some ''SET NULL''),
        SetNullable ''delivery_attempts'' ''submission_id'' True,
        DropConstraint ''delivery_attempts'' ''fk_delivery_attempts_submission_id_submissions'',
        CreateForeignKey ''delivery_attempts'' ''fk_delivery_attempts_submission_id_submissions'' [''submission_id'']
          ''submissions'' [''id''] (Some ''SET NULL''),
        CreateIndex ''webhook_deliveries'' ''ix_webhook_deliveries_endpoint_id_created_at_id''
          [''endpoint_id'', ''created_at'', ''id''],
        DropIndex ''submissions'' ''ix_submissions_endpoint_id'',
        CreateIndex ''submissions'' ''ix_submissions_received_at_id'' [''received_at'', ''id''],
        CreateIndex ''submissions'' ''ix_submissions_endpoint_id_received_at_id'' [''endpoint_id'', ''received_at'', ''id'']],
      rev_downgrade =
       [DropIndex ''submissions'' ''ix_submissions_endpoint_id_received_at_id'',
        DropIndex ''submissions'' ''ix_submissions_received_at_id'',
        CreateIndex ''submissions'' ''ix_submissions_endpoint_id'' [''endpoint_id''],
        DropIndex ''webhook_deliveries'' ''ix_webhook_deliveries_endpoint_id_created_at_id'',
        DeleteWhereNull ''delivery_attempts'' ''submission_id'',
        DeleteWhereNull ''webhook_deliveries'' ''submission_id'',
        DropConstraint ''delivery_attempts'' ''fk_delivery_attempts_submission_id_submissions'',
        CreateForeignKey ''delivery_attempts'' ''fk_delivery_attempts_submission_id_submissions'' [''submission_id'']
          ''submissions'' [''id''] None,
        SetNullable ''delivery_attempts'' ''submission_id'' False,
        DropConstraint ''webhook_deliveries'' ''fk_webhook_deliveries_submission_id_submissions'',
        CreateForeignKey ''webhook_deliveries'' ''fk_webhook_deliveries_submission_id_submissions'' [''submission_id'']
          ''submissions'' [''id''] None,
        SetNullable ''webhook_deliveries'' ''submission_id'' False,
        DropConstraint ''webhook_deliveries'' ''fk_webhook_deliveries_endpoint_id_endpoints'',
        DropColumn ''webhook_deliveries'' ''endpoint_id'']\<rparr>"

definition delivery_claim_tokens :: revision where
  "delivery_claim_tokens =
     \<lparr>rev_id = ''0006'', rev_down = Some ''0005'',
      rev_upgrade = [AddColumn ''webhook_deliveries'' (col ''claim_token'' (VARCHAR 36) True)],
      rev_downgrade = [DropColumn ''webhook_deliveries'' ''claim_token'']\<rparr>"

text \<open>The chain, oldest first.\<close>

definition revisions :: "revision list" where
  "revisions =
     [baseline_schema, management_api_keys, delivery_retry_cycles, rate_limit_counters, submission_retention,
      delivery_claim_tokens]"

lemmas revision_defs = baseline_schema_def management_api_keys_def delivery_retry_cycles_def rate_limit_counters_def
  submission_retention_def delivery_claim_tokens_def

subsection \<open>The declared schema\<close>

text \<open>The lengths the columns are declared with.\<close>

definition submission_id_max_length :: nat where "submission_id_max_length = length (lit ''sub_'') + 32"
definition payload_fingerprint_length :: nat where "payload_fingerprint_length = 64"
definition webhook_secret_max_length :: nat where "webhook_secret_max_length = length (lit ''whsec_'') + 64"
definition delivery_attempt_id_max_length :: nat where "delivery_attempt_id_max_length = length (lit ''att_'') + 32"
definition webhook_delivery_id_max_length :: nat where "webhook_delivery_id_max_length = length (lit ''whd_'') + 32"
definition delivery_state_max_length :: nat where "delivery_state_max_length = 16"
definition claim_token_max_length :: nat where "claim_token_max_length = length (lit ''clm_'') + 32"
definition delivery_outcome_max_length :: nat where "delivery_outcome_max_length = 32"
definition management_key_id_max_length :: nat where "management_key_id_max_length = length (lit ''mk_'') + 32"
definition management_key_name_max_length :: nat where "management_key_name_max_length = 200"
definition key_digest_length :: nat where "key_digest_length = 64"
definition subject_max_length :: nat where "subject_max_length = 64"
definition limiter_max_length :: nat where "limiter_max_length = 16"

lemmas declared_lengths = submission_id_max_length_def payload_fingerprint_length_def webhook_secret_max_length_def
  delivery_attempt_id_max_length_def webhook_delivery_id_max_length_def delivery_state_max_length_def
  claim_token_max_length_def delivery_outcome_max_length_def management_key_id_max_length_def
  management_key_name_max_length_def key_digest_length_def subject_max_length_def limiter_max_length_def
  endpoint_id_max_length_def idempotency_key_max_length_def webhook_url_max_length_def display_prefix_length_def
  management_key_prefix_def endpoint_name_max_length_def delivery_error_max_length_def

text \<open>The naming convention of the metadata; a constraint with a name of its own of kind \<^verbatim>\<open>uq\<close> or \<^verbatim>\<open>ix\<close> keeps it.\<close>

definition named_pk :: "string \<Rightarrow> string list \<Rightarrow> table_constraint" where
  "named_pk t cols = PrimaryKey (''pk_'' @ t) cols"

definition named_fk :: "string \<Rightarrow> string \<Rightarrow> string \<Rightarrow> string option \<Rightarrow> table_constraint" where
  "named_fk t c p rule = ForeignKey (''fk_'' @ t @ ''_'' @ c @ ''_'' @ p) [c] p [''id''] rule"

definition named_ck :: "string \<Rightarrow> string \<Rightarrow> string \<Rightarrow> table_constraint" where
  "named_ck t n condition = Check (''ck_'' @ t @ ''_'' @ n) condition"

definition named_ix :: "string \<Rightarrow> string \<Rightarrow> index" where
  "named_ix t c = \<lparr>ix_name = ''ix_'' @ t @ ''_'' @ c, ix_columns = [c]\<rparr>"

definition text_of :: "nat \<Rightarrow> sql_type" where
  "text_of n = VARCHAR (int n)"

definition endpoints_table :: table where
  "endpoints_table =
     \<lparr>tb_name = ''endpoints'',
      tb_columns = [col ''id'' (text_of endpoint_id_max_length) False, col ''name'' (text_of endpoint_name_max_length) False,
        col ''is_active'' BOOLEAN False, col ''created_at'' TIMESTAMPTZ False,
        col ''webhook_url'' (text_of webhook_url_max_length) True, col ''webhook_secret'' (text_of webhook_secret_max_length) True],
      tb_constraints = [named_pk ''endpoints'' [''id''],
        named_ck ''endpoints'' ''webhook_configuration'' ''(webhook_url IS NULL) = (webhook_secret IS NULL)''],
      tb_indexes = []\<rparr>"

definition submissions_table :: table where
  "submissions_table =
     \<lparr>tb_name = ''submissions'',
      tb_columns = [col ''id'' (text_of submission_id_max_length) False, col ''endpoint_id'' (text_of endpoint_id_max_length) False,
        col ''received_at'' TIMESTAMPTZ False, col ''fields'' JSON False,
        col ''idempotency_key'' (text_of idempotency_key_max_length) True,
        col ''payload_fingerprint'' (text_of payload_fingerprint_length) True],
      tb_constraints = [named_pk ''submissions'' [''id''], named_fk ''submissions'' ''endpoint_id'' ''endpoints'' None,
        Unique ''uq_submissions_endpoint_idempotency_key'' [''endpoint_id'', ''idempotency_key''],
        named_ck ''submissions'' ''idempotency_identity'' ''(idempotency_key IS NULL) = (payload_fingerprint IS NULL)''],
      tb_indexes = [\<lparr>ix_name = ''ix_submissions_received_at_id'', ix_columns = [''received_at'', ''id'']\<rparr>,
        \<lparr>ix_name = ''ix_submissions_endpoint_id_received_at_id'', ix_columns = [''endpoint_id'', ''received_at'', ''id'']\<rparr>]\<rparr>"

definition webhook_deliveries_table :: table where
  "webhook_deliveries_table =
     \<lparr>tb_name = ''webhook_deliveries'',
      tb_columns = [col ''id'' (text_of webhook_delivery_id_max_length) False,
        col ''submission_id'' (text_of submission_id_max_length) True, col ''endpoint_id'' (text_of endpoint_id_max_length) False,
        col ''destination_url'' (text_of webhook_url_max_length) False,
        col ''signing_secret'' (text_of webhook_secret_max_length) False, col ''state'' (text_of delivery_state_max_length) False,
        col ''attempts'' INTEGER False, col ''cycle_attempts'' INTEGER False, col ''next_attempt_at'' TIMESTAMPTZ False,
        col ''claim_expires_at'' TIMESTAMPTZ True, col ''claim_token'' (text_of claim_token_max_length) True,
        col ''created_at'' TIMESTAMPTZ False, col ''completed_at'' TIMESTAMPTZ True],
      tb_constraints = [named_pk ''webhook_deliveries'' [''id''],
        named_fk ''webhook_deliveries'' ''submission_id'' ''submissions'' (Some ''SET NULL''),
        named_fk ''webhook_deliveries'' ''endpoint_id'' ''endpoints'' None,
        Unique ''uq_webhook_deliveries_submission'' [''submission_id''],
        named_ck ''webhook_deliveries'' ''completion'' ''(state IN ('delivered', 'failed')) = (completed_at IS NOT NULL)''],
      tb_indexes = [named_ix ''webhook_deliveries'' ''next_attempt_at'',
        \<lparr>ix_name = ''ix_webhook_deliveries_endpoint_id_created_at_id'', ix_columns = [''endpoint_id'', ''created_at'', ''id'']\<rparr>]\<rparr>"

definition delivery_attempts_table :: table where
  "delivery_attempts_table =
     \<lparr>tb_name = ''delivery_attempts'',
      tb_columns = [col ''id'' (text_of delivery_attempt_id_max_length) False,
        col ''delivery_id'' (text_of webhook_delivery_id_max_length) False,
        col ''submission_id'' (text_of submission_id_max_length) True, col ''attempt_number'' INTEGER False,
        col ''destination_url'' (text_of webhook_url_max_length) False, col ''attempted_at'' TIMESTAMPTZ False,
        col ''outcome'' (text_of delivery_outcome_max_length) False, col ''response_status'' INTEGER True,
        col ''error'' (text_of delivery_error_max_length) True],
      tb_constraints = [named_pk ''delivery_attempts'' [''id''],
        named_fk ''delivery_attempts'' ''delivery_id'' ''webhook_deliveries'' None,
        named_fk ''delivery_attempts'' ''submission_id'' ''submissions'' (Some ''SET NULL'')],
      tb_indexes = [named_ix ''delivery_attempts'' ''delivery_id'', named_ix ''delivery_attempts'' ''submission_id'']\<rparr>"

definition management_api_keys_table :: table where
  "management_api_keys_table =
     \<lparr>tb_name = ''management_api_keys'',
      tb_columns = [col ''id'' (text_of management_key_id_max_length) False,
        col ''name'' (text_of management_key_name_max_length) False, col ''display_prefix'' (text_of display_prefix_length) False,
        col ''key_digest'' (text_of key_digest_length) False, col ''created_at'' TIMESTAMPTZ False,
        col ''revoked_at'' TIMESTAMPTZ True, col ''last_used_at'' TIMESTAMPTZ True],
      tb_constraints = [named_pk ''management_api_keys'' [''id''], Unique ''uq_management_api_keys_key_digest'' [''key_digest'']],
      tb_indexes = []\<rparr>"

definition rate_limit_counters_table :: table where
  "rate_limit_counters_table =
     \<lparr>tb_name = ''rate_limit_counters'',
      tb_columns = [col ''limiter'' (text_of limiter_max_length) False, col ''subject'' (text_of subject_max_length) False,
        col ''window_start'' TIMESTAMPTZ False, col ''attempts'' INTEGER False],
      tb_constraints = [named_pk ''rate_limit_counters'' [''limiter'', ''subject'', ''window_start'']],
      tb_indexes = [named_ix ''rate_limit_counters'' ''window_start'']\<rparr>"

definition declared_schema :: schema where
  "declared_schema =
     [endpoints_table, submissions_table, webhook_deliveries_table, delivery_attempts_table, management_api_keys_table,
      rate_limit_counters_table]"

lemmas table_defs = endpoints_table_def submissions_table_def webhook_deliveries_table_def delivery_attempts_table_def
  management_api_keys_table_def rate_limit_counters_table_def

subsection \<open>The chain builds the declared schema\<close>

text \<open>The schema after each revision, computed.\<close>

definition upgraded :: "nat \<Rightarrow> schema" where
  "upgraded n = (case run_schema (concat (map rev_upgrade (take n revisions))) [] of Some s \<Rightarrow> s | None \<Rightarrow> [])"

lemma declared_lengths_values:
  "text_of endpoint_id_max_length = VARCHAR 64" "text_of endpoint_name_max_length = VARCHAR 200"
  "text_of webhook_url_max_length = VARCHAR 2048" "text_of webhook_secret_max_length = VARCHAR 70"
  "text_of submission_id_max_length = VARCHAR 36" "text_of idempotency_key_max_length = VARCHAR 255"
  "text_of payload_fingerprint_length = VARCHAR 64" "text_of webhook_delivery_id_max_length = VARCHAR 36"
  "text_of delivery_state_max_length = VARCHAR 16" "text_of claim_token_max_length = VARCHAR 36"
  "text_of delivery_attempt_id_max_length = VARCHAR 36" "text_of delivery_outcome_max_length = VARCHAR 32"
  "text_of delivery_error_max_length = VARCHAR 500" "text_of management_key_id_max_length = VARCHAR 35"
  "text_of management_key_name_max_length = VARCHAR 200" "text_of display_prefix_length = VARCHAR 17"
  "text_of key_digest_length = VARCHAR 64" "text_of limiter_max_length = VARCHAR 16" "text_of subject_max_length = VARCHAR 64"
  by (simp_all add: text_of_def declared_lengths)

lemma declared_schema_values [code]:
  "declared_schema = [endpoints_table, submissions_table, webhook_deliveries_table, delivery_attempts_table,
     management_api_keys_table, rate_limit_counters_table]"
  by (rule declared_schema_def)

lemmas table_values [code] = table_defs [unfolded declared_lengths_values]

lemma chain_runs:
  "run_schema (concat (map rev_upgrade revisions)) [] = Some (upgraded 6)"
  by code_simp

lemma chain_builds: "same_schema (upgraded 6) declared_schema"
  by code_simp

subsection \<open>A populated database\<close>

text \<open>The tables and columns a schema has.\<close>

definition layout :: "schema \<Rightarrow> (string \<times> string list) list" where
  "layout s = map (\<lambda>tb. (tb_name tb, column_names tb)) s"

lemma find_table_layout: "find_table s t = None \<longleftrightarrow> map_of (layout s) t = None"
  by (induction s) (auto simp: find_table_def layout_def)

lemma has_columns_layout: "has_columns s t [c] \<longleftrightarrow> (case map_of (layout s) t of None \<Rightarrow> False | Some cs \<Rightarrow> c \<in> set cs)"
  by (induction s) (auto simp: has_columns_def find_table_def layout_def)

lemma rows_fitI:
  assumes "obeys s R" "\<And>t. map_of (layout s) t = None \<Longrightarrow> R t = []"
    and "\<And>t cs r c. map_of (layout s) t = Some cs \<Longrightarrow> r \<in> set (R t) \<Longrightarrow> c \<notin> set cs \<Longrightarrow> r c = None"
  shows "rows_fit \<lparr>db_schema = s, db_rows = R\<rparr>"
  unfolding rows_fit_def
proof (intro conjI allI impI ballI)
  show "r c = None" if "r \<in> set (db_rows \<lparr>db_schema = s, db_rows = R\<rparr> t)" "\<not> has_columns (db_schema \<lparr>db_schema = s, db_rows = R\<rparr>) t [c]" for t r c
    using that assms(2,3) by (cases "map_of (layout s) t") (auto simp: has_columns_layout)
qed (use assms(1,2) in \<open>simp_all add: find_table_layout\<close>)

lemma rows_fitD:
  assumes "rows_fit d"
  shows "obeys (db_schema d) (db_rows d)"
    and "map_of (layout (db_schema d)) t = None \<Longrightarrow> db_rows d t = []"
    and "map_of (layout (db_schema d)) t = Some cs \<Longrightarrow> r \<in> set (db_rows d t) \<Longrightarrow> c \<notin> set cs \<Longrightarrow> r c = None"
  using assms by (auto simp: rows_fit_def find_table_layout has_columns_layout)

text \<open>A revision applied to a populated database and taken back.\<close>

definition goes_both_ways :: "revision \<Rightarrow> schema \<Rightarrow> 'v database \<Rightarrow> bool" where
  "goes_both_ways rv s d \<longleftrightarrow>
     (\<exists>d' d''. run_script (rev_upgrade rv) d = Some d' \<and> db_schema d' = s \<and> rows_fit d' \<and>
        keeps_cells (db_rows d) (db_rows d') \<and>
        run_script (rev_downgrade rv) d' = Some d'' \<and> db_rows d'' = db_rows d \<and> same_schema (db_schema d'') (db_schema d))"

text \<open>A revision that only adds a table; what can be computed of it from the schemas alone.\<close>

definition adds_table :: "revision \<Rightarrow> schema \<Rightarrow> schema \<Rightarrow> string \<Rightarrow> string list \<Rightarrow> bool" where
  "adds_table rv s s' t cs \<longleftrightarrow>
     run_schema (rev_upgrade rv) s = Some s' \<and>
     (case run_schema (rev_downgrade rv) s' of None \<Rightarrow> False | Some s0 \<Rightarrow> same_schema s0 s) \<and>
     map_of (layout s) t = None \<and> layout s' = layout s @ [(t, cs)]"

lemma whole_database: "\<lparr>db_schema = db_schema d, db_rows = db_rows d\<rparr> = d"
  by simp

lemma new_table_both_ways:
  assumes fit: "rows_fit d" and add: "adds_table rv (db_schema d) s t cs"
    and static: "db_rows d t = [] \<Longrightarrow> list_all (\<lambda>st. obligation st (db_rows d)) (rev_upgrade rv @ rev_downgrade rv)"
  shows "goes_both_ways rv s d"
proof -
  let ?R = "db_rows d"
  obtain s0 where new: "map_of (layout (db_schema d)) t = None" and up: "run_schema (rev_upgrade rv) (db_schema d) = Some s"
    and down: "run_schema (rev_downgrade rv) s = Some s0" and s0: "same_schema s0 (db_schema d)"
    and lay: "layout s = layout (db_schema d) @ [(t, cs)]"
    using add by (auto simp: adds_table_def split: option.splits)
  have statics: "list_all (\<lambda>st. obligation st ?R) (rev_upgrade rv)" "list_all (\<lambda>st. obligation st ?R) (rev_downgrade rv)"
    using static rows_fitD(2) [OF fit new] by simp_all
  have ok: "obeys (db_schema d) ?R" "obeys s ?R"
    using rows_fitD(1) [OF fit] static_obeys [OF statics(1) up] by simp_all
  have fit': "rows_fit \<lparr>db_schema = s, db_rows = ?R\<rparr>"
  proof (rule rows_fitI [OF ok(2)])
    show "?R t' = []" if "map_of (layout s) t' = None" for t'
      using that rows_fitD(2) [OF fit, of t'] by (auto simp: lay map_add_def split: option.splits)
    show "r c = None" if "map_of (layout s) t' = Some cs'" "r \<in> set (?R t')" "c \<notin> set cs'" for t' cs' r c
      using that rows_fitD(2) [OF fit new] rows_fitD(3) [OF fit, of t' cs' r c]
      by (auto simp: lay map_add_def split: option.splits if_splits)
  qed
  show ?thesis
    unfolding goes_both_ways_def
  proof (intro exI conjI)
    show "run_script (rev_upgrade rv) d = Some \<lparr>db_schema = s, db_rows = ?R\<rparr>"
      using run_static [OF statics(1) up ok(1)] by (simp add: whole_database)
    show "run_script (rev_downgrade rv) \<lparr>db_schema = s, db_rows = ?R\<rparr> = Some \<lparr>db_schema = s0, db_rows = ?R\<rparr>"
      by (rule run_static [OF statics(2) down ok(2)])
  qed (use fit' s0 in \<open>simp_all add: keeps_refl\<close>)
qed

text \<open>
  A revision that adds a column, fills it, and then changes the schema in ways the filled rows allow; its
  way back changes the schema again and drops the column.
\<close>

definition adds_column ::
  "revision \<Rightarrow> schema \<Rightarrow> schema \<Rightarrow> string \<Rightarrow> column \<Rightarrow> statement list \<Rightarrow> statement list \<Rightarrow> statement list \<Rightarrow> bool"
where
  "adds_column rv s s' t k fill rest undo \<longleftrightarrow>
     (let c = col_name k
      in rev_upgrade rv = AddColumn t k # fill @ rest \<and> rev_downgrade rv = undo @ [DropColumn t c] \<and> col_nullable k \<and>
         (case map_of (layout s) t of None \<Rightarrow> False | Some cs \<Rightarrow> c \<notin> set cs) \<and> untouched s t c \<and> accepts_null s t c \<and>
         (case alter_schema (AddColumn t k) s of
            None \<Rightarrow> False
          | Some s1 \<Rightarrow>
              list_all (\<lambda>st. alter_schema st s1 = Some s1) fill \<and> untouched s1 t c \<and> accepts_null s1 t c \<and>
              run_schema rest s1 = Some s') \<and>
         layout s' = map (\<lambda>(t', cs). (t', if t' = t then cs @ [c] else cs)) (layout s) \<and>
         (case run_schema (undo @ [DropColumn t c]) s' of
            None \<Rightarrow> False
          | Some s0 \<Rightarrow> untouched s0 t c \<and> accepts_null s0 t c \<and> same_schema s0 s))"

lemma run_schema_append:
  "run_schema (xs @ ys) s = (case run_schema xs s of None \<Rightarrow> None | Some s' \<Rightarrow> run_schema ys s')"
  by (induction xs arbitrary: s) (auto split: option.split)

lemma map_of_grown:
  "map_of (map (\<lambda>(t', cs). (t', if t' = t then cs @ [c] else cs)) l) t' =
   map_option (\<lambda>cs. if t' = t then cs @ [c] else cs) (map_of l t')"
  by (induction l) auto

lemma run_obeys: "run_statement st d = Some d' \<Longrightarrow> obeys (db_schema d') (db_rows d')"
  by (auto simp: run_statement_def Let_def split: option.splits if_splits)

lemma run_script_obeys:
  "run_script sts d = Some d' \<Longrightarrow> obeys (db_schema d) (db_rows d) \<Longrightarrow> obeys (db_schema d') (db_rows d')"
  by (induction sts arbitrary: d) (auto split: option.splits dest: run_obeys)

lemma new_column_both_ways:
  assumes fit: "rows_fit d" and add: "adds_column rv (db_schema d) s t k fill rest undo"
    and fill: "fill = [] \<and> W = db_rows d \<or>
      (\<exists>st. fill = [st] \<and> change_rows st (db_rows d) = W \<and> W = write_column t (col_name k) f (db_rows d))"
    and static: "list_all (\<lambda>st. obligation st W) (rest @ undo)"
  shows "goes_both_ways rv s d"
proof -
  let ?R = "db_rows d" and ?c = "col_name k"
  obtain cs s1 s2 s0 where new: "map_of (layout (db_schema d)) t = Some cs" "?c \<notin> set cs"
    and scripts: "rev_upgrade rv = AddColumn t k # fill @ rest" "rev_downgrade rv = undo @ [DropColumn t ?c]"
    and k: "col_nullable k" and free: "untouched (db_schema d) t ?c" "accepts_null (db_schema d) t ?c"
    and s1: "alter_schema (AddColumn t k) (db_schema d) = Some s1"
    and fills: "list_all (\<lambda>st. alter_schema st s1 = Some s1) fill" "untouched s1 t ?c" "accepts_null s1 t ?c"
    and rest: "run_schema rest s1 = Some s"
    and lay: "layout s = map (\<lambda>(t', cs). (t', if t' = t then cs @ [?c] else cs)) (layout (db_schema d))"
    and undo: "run_schema undo s = Some s2" and drop: "alter_schema (DropColumn t ?c) s2 = Some s0"
      "untouched s0 t ?c" "accepts_null s0 t ?c" and s0: "same_schema s0 (db_schema d)"
    using add by (auto simp: adds_column_def run_schema_append Let_def simp del: alter_schema.simps split: option.splits)
  have none: "\<forall>r\<in>set (?R t). r ?c = None" using rows_fitD(3) [OF fit new(1)] new(2) by blast
  have same: "write_column t ?c (\<lambda>r. None) ?R = ?R" by (rule write_back) (simp add: bspec [OF none])
  have add1: "run_statement (AddColumn t k) d = Some \<lparr>db_schema = s1, db_rows = ?R\<rparr>"
    using run_AddColumn [OF rows_fitD(1) [OF fit] s1 free k] same by (simp add: whole_database)
  have obeyed1: "obeys s1 ?R" using run_obeys [OF add1] by simp
  obtain g where W: "W = write_column t ?c g ?R" using fill same by (metis (no_types))
  have filled: "run_script fill \<lparr>db_schema = s1, db_rows = ?R\<rparr> = Some \<lparr>db_schema = s1, db_rows = W\<rparr>"
    using fill
  proof (elim disjE exE conjE)
    fix st assume st: "fill = [st]" "change_rows st ?R = W" "W = write_column t ?c f ?R"
    with run_write [OF obeyed1 _ _ fills(2), of st f] fills(1,3) show ?thesis by simp
  qed simp
  have statics: "list_all (\<lambda>st. obligation st W) rest" "list_all (\<lambda>st. obligation st W) undo" using static by simp_all
  have obeyed: "obeys s1 W" "obeys s W" "obeys s2 W"
    using run_script_obeys [OF filled] obeyed1 static_obeys [OF statics(1) rest] static_obeys [OF statics(2) undo] by simp_all
  have emptied: "write_column t ?c (\<lambda>r. None) W = ?R" unfolding W write_twice by (rule same)
  have fit': "rows_fit \<lparr>db_schema = s, db_rows = W\<rparr>"
  proof (rule rows_fitI [OF obeyed(2)])
    show "W t' = []" if "map_of (layout s) t' = None" for t'
      using that rows_fitD(2) [OF fit, of t'] by (auto simp: lay map_of_grown W rows_written)
    show "r x = None" if "map_of (layout s) t' = Some cs'" "r \<in> set (W t')" "x \<notin> set cs'" for t' cs' r x
      using that rows_fitD(3) [OF fit, of t'] by (auto simp: lay map_of_grown W rows_written split: if_splits)
  qed
  show ?thesis
    unfolding goes_both_ways_def
  proof (intro exI conjI)
    show "run_script (rev_upgrade rv) d = Some \<lparr>db_schema = s, db_rows = W\<rparr>"
      by (simp add: scripts(1) add1 run_script_append filled run_static [OF statics(1) rest obeyed(1)])
    show "run_script (rev_downgrade rv) \<lparr>db_schema = s, db_rows = W\<rparr> = Some \<lparr>db_schema = s0, db_rows = ?R\<rparr>"
      using run_DropColumn [OF obeyed(3) drop]
      by (simp add: scripts(2) emptied run_script_append run_static [OF statics(2) undo obeyed(2)])
  qed (use fit' s0 none in \<open>simp_all add: W keeps_written\<close>)
qed

text \<open>What a mandatory column and a foreign key say of the rows.\<close>

definition mandatory :: "schema \<Rightarrow> string \<Rightarrow> string \<Rightarrow> bool" where
  "mandatory s t c \<longleftrightarrow> list_ex (\<lambda>tb. tb_name tb = t \<and> list_ex (\<lambda>k. col_name k = c \<and> \<not> col_nullable k) (tb_columns tb)) s"

definition refers_by :: "schema \<Rightarrow> string \<Rightarrow> string \<Rightarrow> string \<Rightarrow> bool" where
  "refers_by s t c p \<longleftrightarrow>
     list_ex (\<lambda>tb. tb_name tb = t \<and>
       list_ex (\<lambda>k. case k of ForeignKey n cols p' pcols rule \<Rightarrow> cols = [c] \<and> p' = p \<and> pcols = [''id''] | _ \<Rightarrow> False)
         (tb_constraints tb)) s"

lemma mandatory_present:
  assumes "obeys s R" "mandatory s t c" "r \<in> set (R t)"
  shows "\<exists>v. r c = Some v"
  using obeysD [OF assms(1)] assms(2,3) by (fastforce simp: mandatory_def list_ex_iff list_all_iff nulls_fit_def)

lemma key_refers:
  assumes "obeys s R" "refers_by s t c p" "r \<in> set (R t)" "r c = Some v"
  shows "\<exists>q\<in>set (R p). q ''id'' = Some v"
proof -
  from assms(2) obtain tb k where k: "tb \<in> set s" "tb_name tb = t" "k \<in> set (tb_constraints tb)"
    "case k of ForeignKey n cols p' pcols rule \<Rightarrow> cols = [c] \<and> p' = p \<and> pcols = [''id''] | _ \<Rightarrow> False"
    by (auto simp: refers_by_def list_ex_iff)
  from k(4) obtain n rule where "k = ForeignKey n [c] p [''id''] rule" by (cases k) simp_all
  with k(1-3) obeysD [OF assms(1) k(1)] assms(3) have "refers R [c] p [''id''] r" by (auto simp: list_all_iff)
  with assms(4) show ?thesis by (auto simp: refers_def list_ex_iff)
qed

lemma single_key:
  "constraint_holds R t (ForeignKey n [c] p [pc] rule) \<longleftrightarrow>
   (\<forall>r\<in>set (R t). r c = None \<or> (\<exists>q\<in>set (R p). r c = q pc))"
  by (auto simp: list_all_iff list_ex_iff refers_def)

lemma parent_found:
  assumes "\<exists>q\<in>set (R p). q k = Some v"
  obtains q where "q \<in> set (R p)" "q k = Some v" "parent_value R p b k (Some v) = q b"
proof -
  from assms obtain q where q: "find (\<lambda>q. q k = Some v) (R p) = Some q"
    by (cases "find (\<lambda>q. q k = Some v) (R p)") (auto simp: find_None_iff)
  then have "q \<in> set (R p)" "q k = Some v" by (auto simp: find_Some_iff)
  with q that show ?thesis by (simp add: parent_value_def)
qed


subsection \<open>The revisions after the baseline\<close>

lemma management_api_keys_both_ways:
  assumes "rows_fit d" "db_schema d = upgraded 1"
  shows "goes_both_ways management_api_keys (upgraded 2) d"
proof (rule new_table_both_ways [OF assms(1)], unfold assms(2))
  show "adds_table management_api_keys (upgraded 1) (upgraded 2) ''management_api_keys''
    [''id'', ''name'', ''display_prefix'', ''key_digest'', ''created_at'', ''revoked_at'', ''last_used_at'']" by code_simp
qed (simp add: management_api_keys_def)

lemma rate_limit_counters_both_ways:
  assumes "rows_fit d" "db_schema d = upgraded 3"
  shows "goes_both_ways rate_limit_counters (upgraded 4) d"
proof (rule new_table_both_ways [OF assms(1)], unfold assms(2))
  show "adds_table rate_limit_counters (upgraded 3) (upgraded 4) ''rate_limit_counters''
    [''limiter'', ''subject'', ''window_start'', ''attempts'']" by code_simp
qed (simp add: rate_limit_counters_def)

lemma delivery_retry_cycles_both_ways:
  assumes "rows_fit d" "db_schema d = upgraded 2"
  shows "goes_both_ways delivery_retry_cycles (upgraded 3) d"
proof (rule new_column_both_ways [OF assms(1), where f = "\<lambda>r. r ''attempts''"], unfold assms(2))
  let ?t = "''webhook_deliveries''" and ?c = "''cycle_attempts''"
  show "adds_column delivery_retry_cycles (upgraded 2) (upgraded 3) ?t (col ?c INTEGER True)
    [CopyColumn ?t ?c ''attempts''] [SetNullable ?t ?c False] []" by code_simp
  have "mandatory (upgraded 2) ?t ''attempts''" by code_simp
  from mandatory_present [OF _ this] rows_fitD(1) [OF assms(1)]
  have "\<exists>v. r ''attempts'' = Some v" if "r \<in> set (db_rows d ?t)" for r using that by (simp add: assms(2))
  then show "list_all (\<lambda>st. obligation st (write_column ?t ?c (\<lambda>r. r ''attempts'') (db_rows d))) ([SetNullable ?t ?c False] @ [])"
    by (auto simp: rows_written list_all_iff)
qed (simp add: col_def)

lemma delivery_claim_tokens_both_ways:
  assumes "rows_fit d" "db_schema d = upgraded 5"
  shows "goes_both_ways delivery_claim_tokens (upgraded 6) d"
proof (rule new_column_both_ways [OF assms(1)], unfold assms(2))
  show "adds_column delivery_claim_tokens (upgraded 5) (upgraded 6) ''webhook_deliveries''
    (col ''claim_token'' (VARCHAR 36) True) [] [] []" by code_simp
qed simp_all

text \<open>
  The retention revision fills the new column from the submission of each delivery: there is one, and the
  endpoint it names exists, because the foreign keys before it say so.
\<close>

lemma before_retention:
  "mandatory (upgraded 4) ''webhook_deliveries'' ''submission_id''"
  "mandatory (upgraded 4) ''delivery_attempts'' ''submission_id''"
  "mandatory (upgraded 4) ''submissions'' ''endpoint_id''"
  "refers_by (upgraded 4) ''webhook_deliveries'' ''submission_id'' ''submissions''"
  "refers_by (upgraded 4) ''delivery_attempts'' ''submission_id'' ''submissions''"
  "refers_by (upgraded 4) ''submissions'' ''endpoint_id'' ''endpoints''"
  by code_simp+

lemma submission_kept:
  assumes "obeys (upgraded 4) R" "t = ''webhook_deliveries'' \<or> t = ''delivery_attempts''" "r \<in> set (R t)"
  shows "\<exists>v. r ''submission_id'' = Some v \<and> (\<exists>q\<in>set (R ''submissions''). q ''id'' = Some v)"
proof -
  have t: "mandatory (upgraded 4) t ''submission_id''" "refers_by (upgraded 4) t ''submission_id'' ''submissions''"
    using assms(2) before_retention by auto
  from mandatory_present [OF assms(1) t(1) assms(3)] key_refers [OF assms(1) t(2) assms(3)] show ?thesis by blast
qed

lemma endpoint_found:
  assumes "obeys (upgraded 4) R" "r \<in> set (R ''webhook_deliveries'')"
  shows "\<exists>e. parent_value R ''submissions'' ''endpoint_id'' ''id'' (r ''submission_id'') = Some e \<and>
    (\<exists>q\<in>set (R ''endpoints''). q ''id'' = Some e)"
proof -
  obtain v where v: "r ''submission_id'' = Some v" "\<exists>q\<in>set (R ''submissions''). q ''id'' = Some v"
    using submission_kept [OF assms(1) _ assms(2)] by blast
  from v(2) obtain p where p: "p \<in> set (R ''submissions'')" "p ''id'' = Some v"
    "parent_value R ''submissions'' ''endpoint_id'' ''id'' (Some v) = p ''endpoint_id''" by (rule parent_found)
  from mandatory_present [OF assms(1) before_retention(3) p(1)] obtain e where e: "p ''endpoint_id'' = Some e" by blast
  from key_refers [OF assms(1) before_retention(6) p(1) e] v(1) p(3) e show ?thesis by simp
qed

lemma submission_retention_both_ways:
  assumes "rows_fit d" "db_schema d = upgraded 4"
  shows "goes_both_ways submission_retention (upgraded 5) d"
proof (rule new_column_both_ways [OF assms(1), where
      f = "\<lambda>r. parent_value (db_rows d) ''submissions'' ''endpoint_id'' ''id'' (r ''submission_id'')"], unfold assms(2))
  let ?t = "''webhook_deliveries''" and ?c = "''endpoint_id''"
  let ?f = "\<lambda>r. parent_value (db_rows d) ''submissions'' ''endpoint_id'' ''id'' (r ''submission_id'')"
  let ?rest = "drop 2 (rev_upgrade submission_retention)" and ?undo = "butlast (rev_downgrade submission_retention)"
  show "adds_column submission_retention (upgraded 4) (upgraded 5) ?t (col ?c (VARCHAR 64) True)
    [CopyFromParent ?t ?c ''submissions'' ''endpoint_id'' ''id'' ''submission_id''] ?rest ?undo" by code_simp
  have R: "obeys (upgraded 4) (db_rows d)" using rows_fitD(1) [OF assms(1)] by (simp add: assms(2))
  have kept: "\<exists>v. r ''submission_id'' = Some v \<and> (\<exists>q\<in>set (db_rows d ''submissions''). q ''id'' = Some v)"
    if "r \<in> set (db_rows d ?t) \<or> r \<in> set (db_rows d ''delivery_attempts'')" for r
    using that submission_kept [OF R] by blast
  show "list_all (\<lambda>st. obligation st (write_column ?t ?c ?f (db_rows d))) (?rest @ ?undo)"
    using kept endpoint_found [OF R]
    by (fastforce simp: submission_retention_def rows_written single_key list_all_iff simp del: constraint_holds.simps(1))
qed (simp add: col_def)

subsection \<open>The chain\<close>

lemma run_empty:
  "run_schema sts s = Some s' \<Longrightarrow>
   run_script sts \<lparr>db_schema = s, db_rows = (\<lambda>t. [] :: 'v table_row list)\<rparr> = Some \<lparr>db_schema = s', db_rows = (\<lambda>t. [] :: 'v table_row list)\<rparr>"
proof (induction sts arbitrary: s)
  case (Cons st sts)
  then obtain s1 where s1: "alter_schema st s = Some s1" "run_schema sts s1 = Some s'" by (auto split: option.splits)
  have "change_rows st (\<lambda>t. [] :: 'v table_row list) = (\<lambda>t. [] :: 'v table_row list)" by (cases st) (simp_all add: write_column_def fun_eq_iff)
  moreover have "obeys s1 (\<lambda>t. [] :: 'v table_row list)" by (simp add: obeys_def list_all_iff constraint_holds_empty)
  ultimately show ?case using s1 Cons.IH by (simp add: run_statement_def Let_def)
qed simp

lemma chain_undone: "run_schema (concat (map rev_downgrade (rev revisions))) (upgraded 6) = Some []"
  by code_simp

text \<open>
  The shortcut \<^verbatim>\<open>schema.py\<close> keeps for tests: the tables of the models that are missing are created, and the
  database is recorded as being at the newest revision. \<open>mg_revision\<close> is what the migration library records.
\<close>

record 'v migrated =
  mg_database :: "'v database"
  mg_revision :: "pystr option"

definition stamp_head :: "pystr option \<Rightarrow> 'v migrated \<Rightarrow> (schema_not_ready + unit) \<times> 'v migrated" where
  "stamp_head shipped m =
     (case head_revision shipped of
        Inl e \<Rightarrow> (Inl e, m)
      | Inr head \<Rightarrow> (Inr (), m\<lparr>mg_revision := Some head\<rparr>))"

definition create_missing :: "schema \<Rightarrow> schema" where
  "create_missing s = fold (\<lambda>tb s. if find_table s (tb_name tb) = None then s @ [tb] else s) declared_schema s"

definition create_all :: "pystr option \<Rightarrow> 'v migrated \<Rightarrow> (schema_not_ready + unit) \<times> 'v migrated" where
  "create_all shipped m =
     stamp_head shipped (m\<lparr>mg_database := (mg_database m)\<lparr>db_schema := create_missing (db_schema (mg_database m))\<rparr>\<rparr>)"

lemma create_missing_all: "create_missing [] = declared_schema"
  by code_simp

definition unmigrated :: "'v migrated" where
  "unmigrated = \<lparr>mg_database = \<lparr>db_schema = [], db_rows = \<lambda>t. []\<rparr>, mg_revision = None\<rparr>"

lemma create_all_unmigrated:
  "create_all (Some head) unmigrated =
     (Inr (), \<lparr>mg_database = \<lparr>db_schema = declared_schema, db_rows = \<lambda>t. []\<rparr>, mg_revision = Some head\<rparr>)"
  by (simp add: create_all_def stamp_head_def head_revision_def unmigrated_def create_missing_all)

text \<open>
  C39. The migrations build what the models declare: the revisions form one chain, each naming the one before
  it, and upgrading an empty database through all of them gives exactly the tables, columns, constraints
  and indexes \<^verbatim>\<open>models.py\<close> declares, under the names its convention gives them, which is also what the
  shortcut for tests builds, and with the revision it records the startup check passes; downgrading
  through all of them leaves nothing behind.
\<close>

theorem migrations_build_the_models:
  "\<exists>s built. run_script (concat (map rev_upgrade revisions)) \<lparr>db_schema = [], db_rows = \<lambda>t. []\<rparr> =
       Some \<lparr>db_schema = s, db_rows = \<lambda>t. []\<rparr> \<and>
     same_schema s declared_schema \<and>
     create_all (Some head) unmigrated = (Inr (), built) \<and> db_schema (mg_database built) = declared_schema \<and>
     verify_schema printable (Some head) (Inr (mg_revision built)) = Inr () \<and>
     run_script (concat (map rev_downgrade (rev revisions))) \<lparr>db_schema = s, db_rows = \<lambda>t. []\<rparr> =
       Some \<lparr>db_schema = [], db_rows = \<lambda>t. []\<rparr> \<and>
     map rev_down revisions = None # map (\<lambda>rv. Some (rev_id rv)) (butlast revisions) \<and> distinct (map rev_id revisions)"
proof (intro exI conjI)
  show "run_script (concat (map rev_upgrade revisions)) \<lparr>db_schema = [], db_rows = \<lambda>t. []\<rparr> =
      Some \<lparr>db_schema = upgraded 6, db_rows = \<lambda>t. []\<rparr>" by (rule run_empty) (rule chain_runs)
  show "run_script (concat (map rev_downgrade (rev revisions))) \<lparr>db_schema = upgraded 6, db_rows = \<lambda>t. []\<rparr> =
      Some \<lparr>db_schema = [], db_rows = \<lambda>t. []\<rparr>" by (rule run_empty) (rule chain_undone)
  show "create_all (Some head) unmigrated =
      (Inr (), \<lparr>mg_database = \<lparr>db_schema = declared_schema, db_rows = \<lambda>t. []\<rparr>, mg_revision = Some head\<rparr>)"
    by (rule create_all_unmigrated)
qed (use chain_builds in \<open>simp_all add: revisions_def revision_defs verify_schema_Inr\<close>)

text \<open>Cells that are kept by one revision after another are kept by all of them.\<close>

lemma keeps_trans: "keeps_cells R R' \<Longrightarrow> keeps_cells R' R'' \<Longrightarrow> keeps_cells R R''"
proof (unfold keeps_cells_def, intro allI)
  fix t
  let ?kept = "\<lambda>r r'. \<forall>c v. r c = Some v \<longrightarrow> r' c = Some v"
  assume "\<forall>t. list_all2 ?kept (R t) (R' t)" "\<forall>t. list_all2 ?kept (R' t) (R'' t)"
  then have "list_all2 ?kept (R t) (R' t)" "list_all2 ?kept (R' t) (R'' t)" by simp_all
  then show "list_all2 ?kept (R t) (R'' t)" by (rule list_all2_trans [rotated]) simp
qed

lemma revision_both_ways:
  assumes "1 \<le> n" "n < 6" "rows_fit d" "db_schema d = upgraded n"
  shows "goes_both_ways (revisions ! n) (upgraded (Suc n)) d"
proof -
  have "n \<in> {1, 2, 3, 4, 5}" using assms(1,2) by auto
  then show ?thesis
    using management_api_keys_both_ways delivery_retry_cycles_both_ways rate_limit_counters_both_ways
      submission_retention_both_ways delivery_claim_tokens_both_ways assms(3,4)
    by (auto simp: revisions_def numeral_eq_Suc)
qed

lemma length_revisions: "length revisions = 6"
  by (simp add: revisions_def)

lemma upgrade_to_head:
  assumes "1 \<le> n" "n \<le> 6" "rows_fit d" "db_schema d = upgraded n"
  shows "\<exists>d'. run_script (concat (map rev_upgrade (drop n revisions))) d = Some d' \<and> db_schema d' = upgraded 6 \<and>
    rows_fit d' \<and> keeps_cells (db_rows d) (db_rows d')"
  using assms
proof (induction "6 - n" arbitrary: n d)
  case 0
  then show ?case by (simp add: length_revisions keeps_refl)
next
  case (Suc k)
  then have n: "n < 6" by simp
  from revision_both_ways [OF Suc.prems(1) n Suc.prems(3,4)]
  obtain d1 where d1: "run_script (rev_upgrade (revisions ! n)) d = Some d1" "db_schema d1 = upgraded (Suc n)" "rows_fit d1"
    "keeps_cells (db_rows d) (db_rows d1)" by (auto simp: goes_both_ways_def)
  have "k = 6 - Suc n" "1 \<le> Suc n" "Suc n \<le> 6" using Suc.hyps(2) n by simp_all
  from Suc.hyps(1) [OF this d1(3,2)] obtain d' where
    "run_script (concat (map rev_upgrade (drop (Suc n) revisions))) d1 = Some d'" "db_schema d' = upgraded 6" "rows_fit d'"
    "keeps_cells (db_rows d1) (db_rows d')" by blast
  moreover have "drop n revisions = revisions ! n # drop (Suc n) revisions"
    using n by (simp add: Cons_nth_drop_Suc length_revisions)
  ultimately show ?case using d1(1) keeps_trans [OF d1(4)] by (simp add: run_script_append)
qed

text \<open>
  C40. Every revision after the baseline upgrades any populated database at the schema before it: no
  statement of its script is refused, the rows keep every value they held and satisfy the new schema, the
  columns made mandatory among them. Downgrading again returns the schema before and exactly the rows
  before. And the revisions from there to the newest, run one after the other, end in the schema the models
  declare with every value kept.
\<close>

theorem revision_roundtrip:
  assumes "1 \<le> n" "n < length revisions" "rows_fit d" "db_schema d = upgraded n"
  shows "goes_both_ways (revisions ! n) (upgraded (Suc n)) d \<and>
    (\<exists>d'. run_script (concat (map rev_upgrade (drop n revisions))) d = Some d' \<and> same_schema (db_schema d') declared_schema \<and>
       rows_fit d' \<and> keeps_cells (db_rows d) (db_rows d'))"
  using revision_both_ways [of n d] upgrade_to_head [of n d] chain_builds assms by (fastforce simp: length_revisions)

definition example_table :: "(string \<times> (string \<times> string) list list) list" where
  "example_table =
     [(''endpoints'', [[(''id'', ''ep_1''), (''name'', ''Contact''), (''is_active'', ''t''), (''created_at'', ''2026-08-24'')]]),
      (''submissions'', [[(''id'', ''sub_1''), (''endpoint_id'', ''ep_1''), (''received_at'', ''2026-08-24''), (''fields'', ''{}'')]]),
      (''webhook_deliveries'', [[(''id'', ''whd_1''), (''submission_id'', ''sub_1''), (''destination_url'', ''https://a.b''),
         (''signing_secret'', ''whsec_x''), (''state'', ''pending''), (''attempts'', ''0''), (''next_attempt_at'', ''2026-08-24''),
         (''created_at'', ''2026-08-24''), (''cycle_attempts'', ''0'')]])]"

definition example_rows :: "string rows" where
  "example_rows t = (case map_of example_table t of None \<Rightarrow> [] | Some rs \<Rightarrow> map map_of rs)"

lemma example_fits: "rows_fit \<lparr>db_schema = upgraded 4, db_rows = example_rows\<rparr>"
proof (rule rows_fitI)
  have inside: "list_all (\<lambda>(t, rs). case map_of (layout (upgraded 4)) t of None \<Rightarrow> False
      | Some cs \<Rightarrow> list_all (\<lambda>r. set (map fst r) \<subseteq> set cs) rs) example_table" by code_simp
  show "obeys (upgraded 4) example_rows" by code_simp
  show "example_rows t = []" if "map_of (layout (upgraded 4)) t = None" for t
  proof (cases "map_of example_table t")
    case (Some rs)
    with inside that show ?thesis by (fastforce simp: list_all_iff dest: map_of_SomeD)
  qed (simp add: example_rows_def)
  show "r c = None" if "map_of (layout (upgraded 4)) t = Some cs" "r \<in> set (example_rows t)" "c \<notin> set cs" for t cs r c
  proof -
    from that(2) obtain rs al where rs: "map_of example_table t = Some rs" and al: "al \<in> set rs" "r = map_of al"
      by (cases "map_of example_table t") (auto simp: example_rows_def)
    note map_of_SomeD [OF rs]
    with inside that(1,3) al(1) have "c \<notin> fst ` set al" by (fastforce simp: list_all_iff)
    then show ?thesis by (simp add: al(2) map_of_eq_None_iff)
  qed
qed

theorem revision_roundtrip_witness:
  "goes_both_ways submission_retention (upgraded 5) \<lparr>db_schema = upgraded 4, db_rows = example_rows\<rparr> \<and>
   (\<exists>d'. run_script (concat (map rev_upgrade (drop 4 revisions))) \<lparr>db_schema = upgraded 4, db_rows = example_rows\<rparr> = Some d' \<and>
      rows_fit d')"
  using revision_roundtrip [of 4, OF _ _ example_fits] by (auto simp: revisions_def)

end
