(* ===== verification/DeliveryTheorems.thy ===== *)
theory DeliveryTheorems
  imports DeliveryFacts
begin

text \<open>
  The properties of the delivery queue of \<^verbatim>\<open>storage.py\<close>: what a claim takes and for how long, that
  nobody else can take it meanwhile, that what was claimed can be sent, and what recording an
  attempt does for the owner of the claim and for a worker that lost it.
\<close>

subsection \<open>Claiming\<close>

lemma claim_candidates_sub:
  "c \<in> set (claim_candidates visible now limit ws) \<Longrightarrow> c \<in> set ws \<and> due_condition now c \<and> visible (whd_id c)"
  by (auto simp: claim_candidates_def dest: in_set_takeD)

lemma claim_candidates_distinct:
  "distinct (map whd_id ws) \<Longrightarrow> distinct (map whd_id (claim_candidates visible now limit ws))"
  by (simp add: claim_candidates_def flip: take_map)
    (intro distinct_take, auto simp: distinct_map inj_on_def)

lemma claim_all_still_due:
  assumes "distinct (map whd_id ws)"
  shows "filter (\<lambda>c. still_due now ws (whd_id c)) (claim_candidates visible now limit ws) =
    claim_candidates visible now limit ws"
proof (rule filter_True, rule ballI)
  fix c assume "c \<in> set (claim_candidates visible now limit ws)"
  then have "c \<in> set ws" "due_condition now c" by (auto dest: claim_candidates_sub)
  then show "still_due now ws (whd_id c)"
    using find_row_Some_iff [OF assms, of "whd_id c" c] by (simp add: still_due_def)
qed

lemma claim_due_eq:
  assumes ids: "distinct (map whd_id (deliveries d))"
    and run: "claim_due_deliveries visible hex now lease limit d = (Inr claimed, d')"
  obtains e ts where "lease_end now lease = Inr e"
    "ts = tokened hex 0 (claim_candidates visible now limit (deliveries d))"
    "claimed = map (\<lambda>c. claim_values e (the (map_of ts (whd_id c))) c) (claim_candidates visible now limit (deliveries d))"
    "\<forall>k. get_delivery d' k = map_option (claimed_row now e ts) (get_delivery d k)"
    "d'\<lparr>deliveries := deliveries d\<rparr> = d"
proof (cases "lease_end now lease")
  case (Inl x)
  with run show thesis by (simp add: claim_due_deliveries_def)
next
  case (Inr e)
  let ?cs = "claim_candidates visible now limit (deliveries d)"
  have loop: "claimed = fst (claim_loop hex 0 now e ?cs (deliveries d))"
    "d' = d\<lparr>deliveries := snd (claim_loop hex 0 now e ?cs (deliveries d))\<rparr>"
    using run Inr by (auto simp: claim_due_deliveries_def Let_def case_prod_beta)
  show thesis
  proof (rule that [OF Inr refl])
    show "claimed = map (\<lambda>c. claim_values e (the (map_of (tokened hex 0 ?cs) (whd_id c))) c) ?cs"
      using claim_loop_claimed [OF claim_candidates_distinct [OF ids] ids] loop(1)
      by (simp add: claim_all_still_due [OF ids])
    show "\<forall>k. get_delivery d' k = map_option (claimed_row now e (tokened hex 0 ?cs)) (get_delivery d k)"
      unfolding get_delivery_def loop(2) using claim_loop_rows [OF claim_candidates_distinct [OF ids]] by simp
    show "d'\<lparr>deliveries := deliveries d\<rparr> = d" using loop(2) by simp
  qed
qed

lemma claim_frame:
  assumes "distinct (map whd_id (deliveries d))"
    and "claim_due_deliveries visible hex now lease limit d = (Inr claimed, d')"
  shows "d'\<lparr>deliveries := deliveries d\<rparr> = d"
  using assms by (rule claim_due_eq)

lemma claimed_entry:
  assumes ids: "distinct (map whd_id (deliveries d))"
    and run: "claim_due_deliveries visible hex now lease limit d = (Inr claimed, d')"
    and c: "c \<in> set claimed"
  obtains e t w where "lease_end now lease = Inr e" "get_delivery d (whd_id c) = Some w" "due_condition now w"
    "visible (whd_id w)" "c = claim_values e t w" "get_delivery d' (whd_id c) = Some c"
proof -
  from claim_due_eq [OF ids run] obtain e ts where e: "lease_end now lease = Inr e"
    and ts: "ts = tokened hex 0 (claim_candidates visible now limit (deliveries d))"
    and cl: "claimed = map (\<lambda>c. claim_values e (the (map_of ts (whd_id c))) c) (claim_candidates visible now limit (deliveries d))"
    and rows: "\<forall>k. get_delivery d' k = map_option (claimed_row now e ts) (get_delivery d k)"
    by blast
  from c cl obtain w where w: "w \<in> set (claim_candidates visible now limit (deliveries d))"
    and cw: "c = claim_values e (the (map_of ts (whd_id w))) w" by auto
  from claim_candidates_sub [OF w] have m: "w \<in> set (deliveries d)" and due: "due_condition now w"
    and vis: "visible (whd_id w)" by auto
  have fnd: "get_delivery d (whd_id c) = Some w"
    using m find_row_Some_iff [OF ids, of "whd_id w" w] by (simp add: get_delivery_def cw)
  obtain t where t: "map_of ts (whd_id w) = Some t"
    using w map_of_tokened_Some [of "whd_id w" "claim_candidates visible now limit (deliveries d)" 0 hex]
    by (auto simp: ts)
  have "get_delivery d' (whd_id c) = Some c"
    using rows fnd due t by (simp add: claimed_row_def cw)
  from that [OF e fnd due vis cw this] show thesis .
qed

lemma claimed_ids:
  assumes "distinct (map whd_id (deliveries d))"
    and "claim_due_deliveries visible hex now lease limit d = (Inr claimed, d')"
  shows "map whd_id claimed = map whd_id (claim_candidates visible now limit (deliveries d))"
proof -
  from claim_due_eq [OF assms] obtain e ts where
    "claimed = map (\<lambda>c. claim_values e (the (map_of ts (whd_id c))) c) (claim_candidates visible now limit (deliveries d))"
    by blast
  then show ?thesis by simp
qed

lemma claim_others:
  assumes ids: "distinct (map whd_id (deliveries d))"
    and run: "claim_due_deliveries visible hex now lease limit d = (Inr claimed, d')" and k: "k \<notin> whd_id ` set claimed"
  shows "get_delivery d' k = get_delivery d k"
proof -
  let ?cs = "claim_candidates visible now limit (deliveries d)"
  obtain e ts where "lease_end now lease = Inr e" and ts: "ts = tokened hex 0 ?cs"
    and "claimed = map (\<lambda>c. claim_values e (the (map_of ts (whd_id c))) c) ?cs"
    and rows: "\<forall>k. get_delivery d' k = map_option (claimed_row now e ts) (get_delivery d k)"
    and "d'\<lparr>deliveries := deliveries d\<rparr> = d" by (rule claim_due_eq [OF ids run])
  have "whd_id ` set claimed = whd_id ` set ?cs" using arg_cong [OF claimed_ids [OF ids run], of set] by simp
  with k have "k \<notin> whd_id ` set ?cs" by simp
  then have "map_of ts k = None" unfolding ts by (rule map_of_tokened_None)
  then show ?thesis
    using rows by (cases "get_delivery d k") (auto simp: claimed_row_def get_delivery_def dest: find_row_SomeD)
qed

lemma claim_no_room:
  assumes ids: "distinct (map whd_id (deliveries d))" and less: "length (claim_candidates visible now limit (deliveries d)) < limit"
    and w: "get_delivery d k = Some w" "due_condition now w" "visible k"
  shows "k \<in> whd_id ` set (claim_candidates visible now limit (deliveries d))"
proof -
  let ?due = "filter (\<lambda>w. due_condition now w \<and> visible (whd_id w)) (deliveries d)"
  have "length ?due \<le> limit" using less by (simp add: claim_candidates_def)
  then have "set (claim_candidates visible now limit (deliveries d)) = set ?due"
    by (simp add: claim_candidates_def)
  moreover have "w \<in> set (deliveries d)" "whd_id w = k"
    using w(1) by (auto simp: get_delivery_def dest: find_row_SomeD)
  ultimately show ?thesis using w by force
qed

text \<open>
  C10. A claim takes at most \<open>limit\<close> deliveries, every one of them due and unlocked; the objects it
  returns are exactly the rows it committed, processing under a lease that ends \<open>lease\<close> after the
  instant of the claim. Every other delivery, and every other table, is as it was, and no due and
  unlocked delivery is passed over while there is room for it.
\<close>
theorem claim_takes_due_rows:
  assumes "db_ok d" and "claim_due_deliveries visible hex now lease limit d = (Inr claimed, d')"
  shows "length claimed \<le> limit \<and>
    (\<forall>c\<in>set claimed. get_delivery d' (whd_id c) = Some c \<and> whd_state c = PROCESSING \<and>
       (\<exists>w. get_delivery d (whd_id c) = Some w \<and> due_condition now w \<and> visible (whd_id w) \<and>
            whd_attempts c = whd_attempts w \<and> whd_submission_id c = whd_submission_id w) \<and>
       (\<exists>e. lease_end now lease = Inr e \<and> whd_claim_expires_at c = Some e)) \<and>
    (\<forall>k. k \<notin> whd_id ` set claimed \<longrightarrow> get_delivery d' k = get_delivery d k) \<and>
    (length claimed < limit \<longrightarrow>
       (\<forall>k w. get_delivery d k = Some w \<and> due_condition now w \<and> visible k \<longrightarrow> k \<in> whd_id ` set claimed)) \<and>
    d'\<lparr>deliveries := deliveries d\<rparr> = d"
proof -
  let ?cs = "claim_candidates visible now limit (deliveries d)"
  from assms(1) have ids: "distinct (map whd_id (deliveries d))" by (simp add: db_ok_defs)
  from claimed_ids [OF ids assms(2)] have same: "map whd_id claimed = map whd_id ?cs" .
  have len: "length claimed = length ?cs" using arg_cong [OF same, of length] by simp
  have idset: "whd_id ` set claimed = whd_id ` set ?cs" using arg_cong [OF same, of set] by simp
  obtain e ts where "lease_end now lease = Inr e" and
    ts: "ts = tokened hex 0 ?cs" and
    "claimed = map (\<lambda>c. claim_values e (the (map_of ts (whd_id c))) c) ?cs" and
    rows: "\<forall>k. get_delivery d' k = map_option (claimed_row now e ts) (get_delivery d k)" and
    g: "d'\<lparr>deliveries := deliveries d\<rparr> = d" by (rule claim_due_eq [OF ids assms(2)])
  have a: "length claimed \<le> limit" by (simp add: len claim_candidates_def)
  have b: "\<forall>c\<in>set claimed. get_delivery d' (whd_id c) = Some c \<and> whd_state c = PROCESSING \<and>
       (\<exists>w. get_delivery d (whd_id c) = Some w \<and> due_condition now w \<and> visible (whd_id w) \<and>
            whd_attempts c = whd_attempts w \<and> whd_submission_id c = whd_submission_id w) \<and>
       (\<exists>e. lease_end now lease = Inr e \<and> whd_claim_expires_at c = Some e)"
  proof
    fix c assume "c \<in> set claimed"
    then obtain e t w where *: "lease_end now lease = Inr e" "get_delivery d (whd_id c) = Some w"
      "due_condition now w" "visible (whd_id w)" "c = claim_values e t w" "get_delivery d' (whd_id c) = Some c"
      by (rule claimed_entry [OF ids assms(2)])
    from *(5) have "whd_state c = PROCESSING" "whd_attempts c = whd_attempts w"
      "whd_submission_id c = whd_submission_id w" "whd_claim_expires_at c = Some e" by simp_all
    with *(1-4,6) show "get_delivery d' (whd_id c) = Some c \<and> whd_state c = PROCESSING \<and>
       (\<exists>w. get_delivery d (whd_id c) = Some w \<and> due_condition now w \<and> visible (whd_id w) \<and>
            whd_attempts c = whd_attempts w \<and> whd_submission_id c = whd_submission_id w) \<and>
       (\<exists>e. lease_end now lease = Inr e \<and> whd_claim_expires_at c = Some e)" by blast
  qed
  have c: "get_delivery d' k = get_delivery d k" if "k \<notin> whd_id ` set claimed" for k
    using claim_others [OF ids assms(2) that] .
  have f: "k \<in> whd_id ` set claimed"
    if "length claimed < limit" "get_delivery d k = Some w" "due_condition now w" "visible k" for k w
    using claim_no_room [OF ids] that by (simp add: len idset)
  from a b c f g show ?thesis by blast
qed

lemma claim_takes_due_rows_witness:
  "\<exists>claimed d'. claim_due_deliveries (\<lambda>_. True) (\<lambda>i. [i]) 1000000 60 10 sample_db = (Inr claimed, d') \<and>
     claimed \<noteq> [] \<and> length claimed \<le> 10 \<and> d'\<lparr>deliveries := deliveries sample_db\<rparr> = sample_db"
proof -
  let ?run = "claim_due_deliveries (\<lambda>_. True) (\<lambda>i. [i]) 1000000 60 10 sample_db"
  have "\<not> isl (fst ?run) \<and> projr (fst ?run) \<noteq> []" by code_simp
  moreover from this obtain claimed d' where run: "?run = (Inr claimed, d')" using returned by blast
  ultimately show ?thesis using claim_takes_due_rows [OF sample_db_ok run] by auto
qed

text \<open>
  C4. A claim is exclusive while its lease runs: whatever candidates another worker read, and
  however stale its reading was, the conditional UPDATEs it runs before the lease is over take none
  of the deliveries claimed here.
\<close>
theorem claim_is_exclusive:
  assumes "db_ok d" and "claim_due_deliveries visible hex now lease limit d = (Inr claimed, d')"
    and "lease_end now lease = Inr e" and "later < e" and "distinct (map whd_id stale)"
  shows "whd_id ` set (fst (claim_loop hex' i later e' stale (deliveries d'))) \<inter> whd_id ` set claimed = {}"
proof -
  from assms(1) have ids: "distinct (map whd_id (deliveries d))" by (simp add: db_ok_defs)
  from assms(1,2) have ids': "distinct (map whd_id (deliveries d'))"
    using claim_loop_keeps [where I = "\<lambda>ws. map whd_id ws = map whd_id (deliveries d)"]
    by (auto simp: claim_due_deliveries_def Let_def case_prod_beta db_ok_defs split: sum.splits)
  have "\<not> still_due later (deliveries d') k" if k: "k \<in> whd_id ` set claimed" for k
  proof -
    from k obtain c where c: "c \<in> set claimed" "k = whd_id c" by auto
    from claimed_entry [OF ids assms(2) c(1)] obtain e1 t w where
      "lease_end now lease = Inr e1" "c = claim_values e1 t w" "get_delivery d' (whd_id c) = Some c" by metis
    with assms(3,4) c(2) show ?thesis by (auto simp: still_due_def get_delivery_def due_condition_def)
  qed
  then show ?thesis by (auto simp: claim_loop_claimed [OF assms(5) ids'])
qed

lemma claim_is_exclusive_witness:
  "\<exists>claimed d'. claim_due_deliveries (\<lambda>_. True) (\<lambda>i. [i]) 1000000 60 10 sample_db = (Inr claimed, d') \<and>
     claimed \<noteq> [] \<and>
     whd_id ` set (fst (claim_loop (\<lambda>i. [9, i]) 0 2000000 62000000 [waiting, held] (deliveries d'))) \<inter> whd_id ` set claimed = {}"
proof -
  let ?run = "claim_due_deliveries (\<lambda>_. True) (\<lambda>i. [i]) 1000000 60 10 sample_db"
  have ok: "\<not> isl (fst ?run) \<and> projr (fst ?run) \<noteq> []" by code_simp
  then obtain claimed d' where run: "?run = (Inr claimed, d')" using returned by blast
  have lease: "lease_end 1000000 60 = Inr 61000000" by code_simp
  have stale: "distinct (map whd_id [waiting, held])" by code_simp
  from claim_is_exclusive [OF sample_db_ok run lease _ stale, of 2000000 "\<lambda>i. [9, i]" 0 62000000] ok run
  show ?thesis by auto
qed

text \<open>
  A claim is not kept for ever: from the instant its lease ends the delivery is due again, whether
  or not the worker that held it ever comes back.
\<close>
lemma claim_expires:
  assumes "db_ok d" and "claim_due_deliveries visible hex now lease limit d = (Inr claimed, d')"
    and "lease_end now lease = Inr e" and "c \<in> set claimed"
  shows "due_condition later c \<longleftrightarrow> e \<le> later"
proof -
  from assms(1) have "distinct (map whd_id (deliveries d))" by (simp add: db_ok_defs)
  from claimed_entry [OF this assms(2,4)] obtain e1 t w where
    "lease_end now lease = Inr e1" "due_condition now w" "c = claim_values e1 t w" by metis
  with assms(3) show ?thesis by (auto simp: due_condition_def)
qed

subsection \<open>Sending what was claimed\<close>

lemma resolve_carried_Inr:
  "(\<forall>(j, sid) \<in> set cs. find_row sub_id rows sid \<noteq> None) \<Longrightarrow>
   resolve_carried rows cs = Inr (map (\<lambda>(j, sid). (j, to_domain (the (find_row sub_id rows sid)))) cs)"
  by (induction rows cs rule: resolve_carried.induct) auto

lemma find_row_filter:
  "P k \<Longrightarrow> find_row key (filter (\<lambda>r. P (key r)) rows) k = find_row key rows k"
  by (induction rows) auto

lemma carried_iff:
  "(k, sid) \<in> set (carried jobs) \<longleftrightarrow> (\<exists>j\<in>set jobs. whd_id j = k \<and> whd_submission_id j = Some sid)"
  by (induction jobs) (auto simp: carried_def split: option.splits)

lemma carried_all:
  "\<forall>j\<in>set jobs. whd_submission_id j \<noteq> None \<Longrightarrow>
   carried jobs = map (\<lambda>j. (whd_id j, the (whd_submission_id j))) jobs"
  by (induction jobs) (auto simp: carried_def)

lemma load_submissions_eq:
  assumes "\<forall>j\<in>set jobs. \<forall>sid. whd_submission_id j = Some sid \<longrightarrow> find_row sub_id (submissions d) sid \<noteq> None"
  shows "load_submissions d jobs =
    Inr (map (\<lambda>(j, sid). (j, to_domain (the (find_row sub_id (submissions d) sid)))) (carried jobs))"
proof -
  let ?cs = "carried jobs"
  let ?rows = "filter (\<lambda>r. sub_id r \<in> set (map snd ?cs)) (submissions d)"
  have same: "find_row sub_id ?rows sid = find_row sub_id (submissions d) sid" if "(j, sid) \<in> set ?cs" for j sid
    using that by (intro find_row_filter) force
  have "find_row sub_id (submissions d) sid \<noteq> None" if "(j, sid) \<in> set ?cs" for j sid
    using that assms by (auto simp: carried_iff)
  with same have "\<forall>(j, sid) \<in> set ?cs. find_row sub_id ?rows sid \<noteq> None" by auto
  from resolve_carried_Inr [OF this] show ?thesis
    unfolding load_submissions_def Let_def using same by (auto intro!: map_cong simp del: set_map)
qed

text \<open>
  Whatever a worker claims it can send: loading the submissions of a claimed batch never fails, and it
  gives every claimed delivery the stored submission that its row refers to.
\<close>

lemma claimed_batch_loads:
  assumes "db_ok d" and "claim_due_deliveries visible hex now lease limit d = (Inr claimed, d')"
  shows "\<exists>loaded. load_submissions d' claimed = Inr loaded \<and> map fst loaded = map whd_id claimed \<and>
    (\<forall>c\<in>set claimed. \<exists>sid s. whd_submission_id c = Some sid \<and>
       find_row sub_id (submissions d) sid = Some s \<and> map_of loaded (whd_id c) = Some (to_domain s))"
proof -
  let ?load = "\<lambda>j. (whd_id j, to_domain (the (find_row sub_id (submissions d) (the (whd_submission_id j)))))"
  from assms(1) have ids: "distinct (map whd_id (deliveries d))" by (simp add: db_ok_defs)
  have same: "submissions d' = submissions d"
    using arg_cong [OF claim_frame [OF ids assms(2)], of submissions] by simp
  have row: "\<exists>sid s. whd_submission_id c = Some sid \<and> find_row sub_id (submissions d) sid = Some s"
    if "c \<in> set claimed" for c
  proof -
    from claimed_entry [OF ids assms(2) that] obtain e t w where
      w: "get_delivery d (whd_id c) = Some w" "due_condition now w" "c = claim_values e t w" by metis
    from w(1) have m: "w \<in> set (deliveries d)" by (auto simp: get_delivery_def dest: find_row_SomeD)
    from w(2) obtain sid where sid: "whd_submission_id w = Some sid" by (auto simp: due_condition_def)
    with m assms(1) have "sid \<in> sub_id ` set (submissions d)" by (auto simp: db_ok_defs list_all_iff refers_to_def)
    then have "find_row sub_id (submissions d) sid \<noteq> None" by (simp add: find_row_None_iff)
    with sid w(3) show ?thesis by simp
  qed
  then have have_sub: "\<forall>c\<in>set claimed. whd_submission_id c \<noteq> None" by fastforce
  have "\<forall>j\<in>set claimed. \<forall>sid. whd_submission_id j = Some sid \<longrightarrow> find_row sub_id (submissions d') sid \<noteq> None"
    using row by (fastforce simp: same)
  from load_submissions_eq [OF this] have loaded: "load_submissions d' claimed = Inr (map ?load claimed)"
    by (simp add: carried_all [OF have_sub] same comp_def)
  have "distinct (map fst (map ?load claimed))"
    using claim_candidates_distinct [OF ids, of visible now limit]
    by (simp add: comp_def claimed_ids [OF ids assms(2)])
  then have "map_of (map ?load claimed) (whd_id c) = Some (snd (?load c))" if "c \<in> set claimed" for c
    using that by (intro map_of_is_SomeI) auto
  with row have "\<forall>c\<in>set claimed. \<exists>sid s. whd_submission_id c = Some sid \<and>
      find_row sub_id (submissions d) sid = Some s \<and> map_of (map ?load claimed) (whd_id c) = Some (to_domain s)"
    by fastforce
  with loaded show ?thesis by (intro exI [of _ "map ?load claimed"]) (simp add: comp_def)
qed

subsection \<open>Recording an attempt\<close>

text \<open>What an attempt means for its delivery: the verdict on the n-th attempt of a cycle.\<close>

definition verdict :: "delivery_result \<Rightarrow> retry_policy \<Rightarrow> int \<Rightarrow> delivery_state" where
  "verdict r p n =
     (if outcome r = SUCCEEDED then DELIVERED
      else if is_retryable r \<and> n < max_attempts p then PENDING else FAILED)"

lemma verdict_not_processing [simp]: "verdict r p n \<noteq> PROCESSING"
  by (simp add: verdict_def)

text \<open>The instant the delivery is next due: put off by the policy's delay when it is to be repeated.\<close>

definition next_due :: "delivery_state \<Rightarrow> retry_policy \<Rightarrow> int \<Rightarrow> time \<Rightarrow> time \<Rightarrow> time" where
  "next_due st p n now old =
     (case delay_after p n of Inl _ \<Rightarrow> old | Inr delay \<Rightarrow> if st = PENDING then now + delay else old)"

lemma settle_owned_row:
  assumes "settle_owned r now p n = Inr (st, f)"
  shows "st = verdict r p n" and
    "f w = w\<lparr>whd_state := st, whd_cycle_attempts := n, whd_next_attempt_at := next_due st p n now (whd_next_attempt_at w),
           whd_claim_expires_at := None, whd_claim_token := None,
           whd_completed_at := (if st = PENDING then whd_completed_at w else Some now)\<rparr>"
  using assms by (cases rule: settle_owned_cases; auto simp: verdict_def is_exhausted_def next_due_def split: sum.splits)+

text \<open>The completion by the owner of a claim, which the batches of the worker are made of.\<close>

lemma owned_completion:
  assumes "outbox_inv d" and "get_delivery d (whd_id job) = Some w" and "whd_claim_token w = Some tok"
    and "complete_attempt hex job r now p (Some tok) d = (Inr c, d')"
  shows "ca_owned c \<and> ca_state c = verdict r p (whd_cycle_attempts w + 1) \<and>
    attempt_log d' = attempt_log d @ [new_attempt hex job r now (whd_attempts w + 1)] \<and>
    get_delivery d' (whd_id job) =
       Some (w\<lparr>whd_attempts := whd_attempts w + 1, whd_state := ca_state c,
               whd_cycle_attempts := whd_cycle_attempts w + 1,
               whd_next_attempt_at := next_due (ca_state c) p (whd_cycle_attempts w + 1) now (whd_next_attempt_at w),
               whd_claim_expires_at := None, whd_claim_token := None,
               whd_completed_at := (if ca_state c = PENDING then None else Some now)\<rparr>) \<and>
    (\<forall>k. k \<noteq> whd_id job \<longrightarrow> get_delivery d' k = get_delivery d k)"
proof -
  from assms(4) obtain current st f where
    cur: "find_row whd_id (deliveries d) (whd_id job) = Some current" and
    wr: "writes_of r now p (Some tok) current = Inr (st, f)" and
    c: "c = \<lparr>ca_attempt = new_attempt hex job r now (whd_attempts current + 1), ca_state = st, ca_owned = owns (Some tok) current\<rparr>" and
    d': "d' = completed hex job r now (Some tok) f current d" and "db_ok d'"
    by (rule complete_attempt_Inr)
  have cw: "current = w" using cur assms(2) by (simp add: get_delivery_def)
  note wr = wr [unfolded cw] and cur = cur [unfolded cw]
  have own: "owns (Some tok) w" using assms(3) by (simp add: owns_def)
  have set: "settle_owned r now p (whd_cycle_attempts w + 1) = Inr (st, f)" using wr own by (simp add: writes_of_def)
  have "delivery_wf w" using assms(1,2) by (auto simp: get_delivery_def dest: outbox_inv_wf)
  with assms(3) have none: "whd_completed_at w = None"
    by (auto simp: delivery_wf_def delivery_check_def terminal_states_def)
  note rows = find_row_completed [OF outbox_inv_distinct [OF assms(1)] wr cur, folded get_delivery_def]
  have "settled_row f w =
       w\<lparr>whd_attempts := whd_attempts w + 1, whd_state := st, whd_cycle_attempts := whd_cycle_attempts w + 1,
         whd_next_attempt_at := next_due st p (whd_cycle_attempts w + 1) now (whd_next_attempt_at w),
         whd_claim_expires_at := None, whd_claim_token := None,
         whd_completed_at := (if st = PENDING then None else Some now)\<rparr>"
    using none by (simp add: settled_row_def settle_owned_row(2) [OF set])
  then show ?thesis
    using settle_owned_row(1) [OF set] own by (simp add: c d' rows cw)
qed

text \<open>
  C3. The worker that still holds the claim settles the delivery: a success delivers it, a failure worth
  repeating within the allowance puts it back with the back-off of the policy, anything else fails it.
  Both counters go up by one, the claim is released, the attempt is recorded under the next number,
  and no other delivery changes.
\<close>
theorem complete_attempt_owned:
  assumes "outbox_inv d" and "get_delivery d (whd_id job) = Some w" and "whd_claim_token w = Some tok"
    and "complete_attempt hex job r now p (Some tok) d = (Inr c, d')"
  shows "ca_owned c \<and> ca_state c = verdict r p (whd_cycle_attempts w + 1) \<and>
    attempt_log d' = attempt_log d @ [new_attempt hex job r now (whd_attempts w + 1)] \<and>
    get_delivery d' (whd_id job) =
       Some (w\<lparr>whd_attempts := whd_attempts w + 1, whd_state := ca_state c,
               whd_cycle_attempts := whd_cycle_attempts w + 1,
               whd_next_attempt_at := next_due (ca_state c) p (whd_cycle_attempts w + 1) now (whd_next_attempt_at w),
               whd_claim_expires_at := None, whd_claim_token := None,
               whd_completed_at := (if ca_state c = PENDING then None else Some now)\<rparr>) \<and>
    (\<forall>k. k \<noteq> whd_id job \<longrightarrow> get_delivery d' k = get_delivery d k)"
  using assms by (rule owned_completion)

lemma complete_attempt_owned_witness:
  "\<exists>c d'. complete_attempt [7] held \<lparr>outcome = SUCCEEDED, response_status = Some 204, error_text = None\<rparr> 3000000
       \<lparr>max_attempts = 3, initial_seconds = 1, max_seconds = 60\<rparr> (Some (lit ''t2'')) sample_db = (Inr c, d') \<and>
     ca_owned c \<and> ca_state c = DELIVERED"
proof -
  let ?r = "\<lparr>outcome = SUCCEEDED, response_status = Some 204, error_text = None\<rparr>"
  let ?p = "\<lparr>max_attempts = 3, initial_seconds = 1, max_seconds = 60\<rparr>"
  let ?run = "complete_attempt [7] held ?r 3000000 ?p (Some (lit ''t2'')) sample_db"
  have "\<not> isl (fst ?run)" by code_simp
  then obtain c d' where run: "?run = (Inr c, d')" using returned by blast
  have row: "get_delivery sample_db (whd_id held) = Some held" "whd_claim_token held = Some (lit ''t2'')" by code_simp+
  from complete_attempt_owned [OF sample_inv row run] run show ?thesis by (simp add: verdict_def)
qed

text \<open>What a worker without the claim writes when its attempt is recorded.\<close>

lemma superseded_effect:
  assumes "outbox_inv d" and "get_delivery d (whd_id job) = Some w" and "\<not> owns tok w"
    and "complete_attempt hex job r now p tok d = (Inr c, d')"
  shows "\<not> ca_owned c \<and> ca_state c = whd_state w \<and>
    attempt_log d' = attempt_log d @ [new_attempt hex job r now (whd_attempts w + 1)] \<and>
    get_delivery d' (whd_id job) = Some (w\<lparr>whd_attempts := whd_attempts w + 1\<rparr>) \<and>
    (\<forall>k. k \<noteq> whd_id job \<longrightarrow> get_delivery d' k = get_delivery d k)"
proof -
  from assms(4) obtain current st f where
    cur: "find_row whd_id (deliveries d) (whd_id job) = Some current" and
    wr: "writes_of r now p tok current = Inr (st, f)" and
    c: "c = \<lparr>ca_attempt = new_attempt hex job r now (whd_attempts current + 1), ca_state = st, ca_owned = owns tok current\<rparr>" and
    d': "d' = completed hex job r now tok f current d" and "db_ok d'"
    by (rule complete_attempt_Inr)
  have cw: "current = w" using cur assms(2) by (simp add: get_delivery_def)
  note wr = wr [unfolded cw] and cur = cur [unfolded cw]
  have f: "st = whd_state w" "f = (\<lambda>v. v)" using wr assms(3) by (simp_all add: writes_of_def)
  note rows = find_row_completed [OF outbox_inv_distinct [OF assms(1)] wr cur, folded get_delivery_def]
  have "settled_row f w = w\<lparr>whd_attempts := whd_attempts w + 1\<rparr>" by (simp add: settled_row_def f(2))
  then show ?thesis using assms(3) f(1) by (simp add: c d' rows cw)
qed

subsection \<open>When an attempt can be recorded\<close>

lemma completed_ok:
  assumes inv: "outbox_inv d" and cur: "find_row whd_id (deliveries d) (whd_id job) = Some current"
    and wr: "writes_of r now p tok current = Inr (st, f)"
    and fresh: "new_delivery_attempt_id hex \<notin> att_id ` set (attempt_log d)"
    and sub: "refers_to (map sub_id (submissions d)) (whd_submission_id job)"
  shows "db_ok (completed hex job r now tok f current d)"
proof -
  let ?a = "new_attempt hex job r now (whd_attempts current + 1)"
  let ?P = "\<lambda>w. whd_id w = whd_id job \<and> (owns tok current \<longrightarrow> whd_claim_token w = tok)"
  let ?f = "\<lambda>w. f (w\<lparr>whd_attempts := whd_attempts current + 1\<rparr>)"
  have mem: "current \<in> set (deliveries d)" "whd_id current = whd_id job" using find_row_SomeD [OF cur] by auto
  have "db_ok (d\<lparr>attempt_log := attempt_log d @ [?a]\<rparr>)"
    using inv fresh sub mem by (intro append_attempt_ok) (auto simp: outbox_inv_def new_attempt_def rev_image_eqI)
  moreover have "delivery_check (?f w)" if "w \<in> set (deliveries d)" "?P w" for w
  proof -
    have "w = current" using distinct_map_inj [OF outbox_inv_distinct [OF inv] that(1) mem(1)] that(2) mem(2) by simp
    then show ?thesis
      using settled_row_wf [OF wr outbox_inv_wf [OF inv cur]] by (simp add: settled_row_def delivery_wf_check)
  qed
  moreover note keep = writes_of_keeps(1) [OF wr]
  ultimately have "db_ok (d\<lparr>attempt_log := attempt_log d @ [?a], deliveries := update_rows ?P ?f (deliveries d)\<rparr>)"
    using update_deliveries_ok [of "d\<lparr>attempt_log := attempt_log d @ [?a]\<rparr>" ?f ?P]
    by (simp add: keeps_identityD [OF keep])
  then show ?thesis by (simp add: completed_def)
qed

lemma settle_owned_returns:
  assumes "verdict r p n = PENDING \<longrightarrow> (\<exists>delay t. delay_after p n = Inr delay \<and> dt_add now delay = Inr t)"
  shows "\<exists>st f. settle_owned r now p n = Inr (st, f)"
  using assms by (auto simp: settle_owned_def verdict_def is_exhausted_def Let_def split: if_splits)

lemma complete_attempt_returns:
  assumes inv: "outbox_inv d" and row: "get_delivery d (whd_id job) = Some w"
    and fresh: "new_delivery_attempt_id hex \<notin> att_id ` set (attempt_log d)"
    and sub: "refers_to (map sub_id (submissions d)) (whd_submission_id job)"
    and fits: "owns tok w \<Longrightarrow> verdict r p (whd_cycle_attempts w + 1) = PENDING \<longrightarrow>
      (\<exists>delay t. delay_after p (whd_cycle_attempts w + 1) = Inr delay \<and> dt_add now delay = Inr t)"
  shows "\<exists>c d'. complete_attempt hex job r now p tok d = (Inr c, d')"
proof -
  have cur: "find_row whd_id (deliveries d) (whd_id job) = Some w" using row by (simp add: get_delivery_def)
  have "\<exists>st f. writes_of r now p tok w = Inr (st, f)"
    using settle_owned_returns [OF fits] by (simp add: writes_of_def)
  then obtain st f where wr: "writes_of r now p tok w = Inr (st, f)" by blast
  show ?thesis by (simp add: complete_attempt_eq cur wr completed_ok [OF inv cur wr fresh sub])
qed

text \<open>
  A request that was made is not always recorded. When a worker lost its claim and the delivery it
  sent was meanwhile delivered by another and its submission retained away, the attempt refers to the
  deleted submission, the foreign key refuses it, and the whole transaction is rolled back. An attempt
  under an identifier that is taken is refused likewise.
\<close>
lemma superseded_attempt_lost:
  assumes "get_delivery d (whd_id job) = Some w" and "\<not> owns tok w"
    and "\<not> refers_to (map sub_id (submissions d)) (whd_submission_id job) \<or> new_delivery_attempt_id hex \<in> att_id ` set (attempt_log d)"
  shows "complete_attempt hex job r now p tok d = (Inl IntegrityError, d)"
proof -
  have cur: "find_row whd_id (deliveries d) (whd_id job) = Some w" using assms(1) by (simp add: get_delivery_def)
  have "\<not> db_ok (completed hex job r now tok (\<lambda>w. w) w d)"
    using assms(3) by (auto simp: db_ok_defs new_attempt_def)
  with cur assms(2) show ?thesis by (simp add: complete_attempt_eq writes_of_def)
qed

text \<open>
  C2. A worker whose claim was taken over, or that holds none, is fenced off. As long as the submission it
  sent is still stored, and the identifier drawn for the attempt is new, its request is recorded under
  the next free number and counted in the lifetime total, and nothing else of the delivery, nor any other
  delivery, changes; the state it is told is the one the current owner left. When the submission has been
  removed meanwhile the attempt is refused, and the database is as it was.
\<close>
theorem complete_attempt_superseded:
  assumes "outbox_inv d" and "get_delivery d (whd_id job) = Some w" and "\<not> owns tok w"
  shows "if refers_to (map sub_id (submissions d)) (whd_submission_id job) \<and> new_delivery_attempt_id hex \<notin> att_id ` set (attempt_log d)
    then \<exists>c d'. complete_attempt hex job r now p tok d = (Inr c, d') \<and>
      \<not> ca_owned c \<and> ca_state c = whd_state w \<and>
      attempt_log d' = attempt_log d @ [new_attempt hex job r now (whd_attempts w + 1)] \<and>
      get_delivery d' (whd_id job) = Some (w\<lparr>whd_attempts := whd_attempts w + 1\<rparr>) \<and>
      (\<forall>k. k \<noteq> whd_id job \<longrightarrow> get_delivery d' k = get_delivery d k)
    else complete_attempt hex job r now p tok d = (Inl IntegrityError, d)"
proof (cases "refers_to (map sub_id (submissions d)) (whd_submission_id job) \<and> new_delivery_attempt_id hex \<notin> att_id ` set (attempt_log d)")
  case True
  then obtain c d' where run: "complete_attempt hex job r now p tok d = (Inr c, d')"
    using complete_attempt_returns [OF assms(1,2), of hex tok r p now] assms(3) by blast
  from superseded_effect [OF assms run] run True show ?thesis by simp
next
  case False
  then have "complete_attempt hex job r now p tok d = (Inl IntegrityError, d)"
    by (intro superseded_attempt_lost [OF assms(2,3)]) blast
  with False show ?thesis by simp
qed

text \<open>Twice the same superseded worker; the second time retention has removed the submission.\<close>

lemma complete_attempt_superseded_witness:
  "(\<exists>c d'. complete_attempt [7] held \<lparr>outcome = SUCCEEDED, response_status = Some 204, error_text = None\<rparr> 3000000
       \<lparr>max_attempts = 3, initial_seconds = 1, max_seconds = 60\<rparr> (Some (lit ''old'')) sample_db = (Inr c, d') \<and>
     \<not> ca_owned c \<and> ca_state c = PROCESSING \<and> get_delivery d' (lit ''w2'') = Some (held\<lparr>whd_attempts := 1\<rparr>)) \<and>
   complete_attempt [7] (held\<lparr>whd_submission_id := Some (lit ''gone'')\<rparr>) \<lparr>outcome = SUCCEEDED, response_status = Some 204, error_text = None\<rparr> 3000000
       \<lparr>max_attempts = 3, initial_seconds = 1, max_seconds = 60\<rparr> (Some (lit ''old'')) sample_db = (Inl IntegrityError, sample_db)"
proof -
  let ?r = "\<lparr>outcome = SUCCEEDED, response_status = Some 204, error_text = None\<rparr>"
  let ?p = "\<lparr>max_attempts = 3, initial_seconds = 1, max_seconds = 60\<rparr>"
  let ?gone = "held\<lparr>whd_submission_id := Some (lit ''gone'')\<rparr>"
  have row: "get_delivery sample_db (whd_id held) = Some held" "get_delivery sample_db (whd_id ?gone) = Some held"
    "\<not> owns (Some (lit ''old'')) held" by code_simp+
  have stored: "refers_to (map sub_id (submissions sample_db)) (whd_submission_id held)"
    "\<not> refers_to (map sub_id (submissions sample_db)) (whd_submission_id ?gone)"
    "new_delivery_attempt_id [7] \<notin> att_id ` set (attempt_log sample_db)" by code_simp+
  have held: "whd_state held = PROCESSING" "whd_attempts held = 0" "whd_id held = lit ''w2''" "whd_id ?gone = lit ''w2''"
    by (simp_all add: held_def waiting_def)
  show ?thesis
  proof (rule conjI)
    show "\<exists>c d'. complete_attempt [7] held ?r 3000000 ?p (Some (lit ''old'')) sample_db = (Inr c, d') \<and>
        \<not> ca_owned c \<and> ca_state c = PROCESSING \<and> get_delivery d' (lit ''w2'') = Some (held\<lparr>whd_attempts := 1\<rparr>)"
      using complete_attempt_superseded [OF sample_inv row(1,3), of "[7]" ?r 3000000 ?p] stored(1,3)
      unfolding held by (auto simp del: ex_simps)
    show "complete_attempt [7] ?gone ?r 3000000 ?p (Some (lit ''old'')) sample_db = (Inl IntegrityError, sample_db)"
      using complete_attempt_superseded [OF sample_inv row(2,3), of "[7]" ?r 3000000 ?p] stored(2) by simp
  qed
qed

end
