(* ===== verification/Outbox.thy ===== *)
theory Outbox
  imports DeliveryTheorems Retention
begin

text \<open>
  The whole outbox as a system of steps: requests that accept submissions, workers that claim,
  complete and crash, operators that requeue, retention sweeps, and everything else the service does
  to its other tables, in any order. A step is one committed transaction. A worker's memory is the
  set of claimed objects it has not completed yet; claim tokens are drawn fresh.
\<close>

subsection \<open>The system\<close>

record outbox =
  store :: db
  inflight :: "delivery set"
  minted :: "pystr set"

definition outbox_init :: "outbox \<Rightarrow> bool" where
  "outbox_init s \<longleftrightarrow> store s = empty_db \<and> inflight s = {} \<and> minted s = {}"

inductive outbox_step :: "retry_policy \<Rightarrow> outbox \<Rightarrow> outbox \<Rightarrow> bool" for p where
  accept: "store_submission id id hex sub now key fp webhook (store s) = (res, d) \<Longrightarrow>
    outbox_step p s (s\<lparr>store := d\<rparr>)"
| claim: "claim_due_deliveries visible hex now lease limit (store s) = (Inr claimed, d) \<Longrightarrow>
    inj hex \<Longrightarrow> (\<And>i. new_claim_token (hex i) \<notin> minted s) \<Longrightarrow>
    outbox_step p s
      (s\<lparr>store := d, inflight := inflight s \<union> set claimed,
         minted := minted s \<union> (\<lambda>c. the (whd_claim_token c)) ` set claimed\<rparr>)"
| complete: "job \<in> inflight s \<Longrightarrow>
    complete_attempt hex job r now p (whd_claim_token job) (store s) = (res, d) \<Longrightarrow>
    outbox_step p s (s\<lparr>store := d, inflight := inflight s - {job}\<rparr>)"
| crash: "outbox_step p s (s\<lparr>inflight := inflight s - lost\<rparr>)"
| requeue: "requeue_failed_delivery k now (store s) = (out, d) \<Longrightarrow> outbox_step p s (s\<lparr>store := d\<rparr>)"
| retain: "reorders pick \<Longrightarrow> delete_expired_submissions pick before batch batches (store s) = (n, d) \<Longrightarrow>
    outbox_step p s (s\<lparr>store := d\<rparr>)"
| manage: "db_ok d \<Longrightarrow> submissions d = submissions (store s) \<Longrightarrow> deliveries d = deliveries (store s) \<Longrightarrow>
    attempt_log d = attempt_log (store s) \<Longrightarrow> outbox_step p s (s\<lparr>store := d\<rparr>)"

inductive_cases outbox_stepE: "outbox_step p s t"

subsection \<open>How one delivery may move\<close>

text \<open>The state machine of a delivery; a step may also leave it where it is.\<close>

fun may_become :: "delivery_state \<Rightarrow> delivery_state \<Rightarrow> bool" where
  "may_become PENDING t \<longleftrightarrow> t \<in> {PENDING, PROCESSING}"
| "may_become PROCESSING t \<longleftrightarrow> True"
| "may_become DELIVERED t \<longleftrightarrow> t = DELIVERED"
| "may_become FAILED t \<longleftrightarrow> t \<in> {FAILED, PENDING}"

lemma may_become_refl [simp]: "may_become t t"
  by (cases t) simp_all

definition moves :: "delivery \<Rightarrow> delivery \<Rightarrow> bool" where
  "moves w v \<longleftrightarrow>
     may_become (whd_state w) (whd_state v) \<and> whd_attempts w \<le> whd_attempts v \<and>
     whd_endpoint_id v = whd_endpoint_id w \<and> whd_destination_url v = whd_destination_url w \<and>
     whd_signing_secret v = whd_signing_secret w"

lemma moves_refl [simp]: "moves w w"
  by (simp add: moves_def)

text \<open>The rows of a later database are those of an earlier one, each moved, and possibly new ones.\<close>

definition evolves :: "db \<Rightarrow> db \<Rightarrow> bool" where
  "evolves d d' \<longleftrightarrow> (\<forall>k w. get_delivery d k = Some w \<longrightarrow> (\<exists>v. get_delivery d' k = Some v \<and> moves w v))"

lemma evolves_refl [simp]: "evolves d d"
  by (simp add: evolves_def)

lemma evolves_rows:
  assumes "\<And>k. get_delivery d' k = map_option f (get_delivery d k)"
    and "\<And>k w. get_delivery d k = Some w \<Longrightarrow> moves w (f w)"
  shows "evolves d d'"
  using assms by (auto simp: evolves_def)

lemma evolves_claim:
  assumes "distinct (map whd_id (deliveries d))"
    and "claim_due_deliveries visible hex now lease limit d = (Inr claimed, d')"
  shows "evolves d d'"
proof -
  from claim_due_eq [OF assms] obtain e ts where
    rows: "\<forall>k. get_delivery d' k = map_option (claimed_row now e ts) (get_delivery d k)" by blast
  have "moves w (claimed_row now e ts w)" for w
    by (auto simp: claimed_row_def moves_def due_condition_def split: option.splits)
  with rows show ?thesis by (intro evolves_rows [of d' "claimed_row now e ts"]) simp_all
qed

lemma evolves_requeue: "evolves d (snd (requeue_failed_delivery k now d))"
  by (rule evolves_rows [where f = "\<lambda>w. if replayable k w then requeue_values now w else w"])
    (auto simp: requeue_failed_delivery_def Let_def get_delivery_def find_row_update moves_def replayable_def
      requeue_values_def)

lemma evolves_unlinked:
  assumes "unlinked_from d d'"
  shows "evolves d d'"
proof -
  from assms obtain gone where
    "deliveries d' = map (\<lambda>w. w\<lparr>whd_submission_id := unlink gone (whd_submission_id w)\<rparr>) (deliveries d)"
    unfolding unlinked_from_def by blast
  then show ?thesis
    by (intro evolves_rows [where f = "\<lambda>w. w\<lparr>whd_submission_id := unlink gone (whd_submission_id w)\<rparr>"])
      (simp_all add: get_delivery_def find_row_map moves_def)
qed

lemma evolves_append: "deliveries d' = deliveries d @ ws \<Longrightarrow> evolves d d'"
  by (auto simp: evolves_def get_delivery_def find_row_append intro!: exI [of _ "_ :: delivery"])

lemma evolves_complete:
  assumes "outbox_inv d" "complete_attempt hex job r now p tok d = (res, d')"
  shows "evolves d d'"
proof (cases res)
  case (Inl e)
  with assms(2) show ?thesis by (auto dest: complete_attempt_Inl)
next
  case (Inr c)
  from assms(2) [unfolded Inr] obtain current st f where
    cur: "find_row whd_id (deliveries d) (whd_id job) = Some current" and
    wr: "writes_of r now p tok current = Inr (st, f)" and d': "d' = completed hex job r now tok f current d"
    by (rule complete_attempt_Inr)
  have wf: "delivery_wf current" using outbox_inv_wf [OF assms(1) cur] .
  have "moves current (settled_row f current)"
  proof (cases "owns tok current")
    case True
    with wf have "whd_state current = PROCESSING" by (auto simp: owns_def delivery_wf_def)
    moreover from True wr have "settle_owned r now p (whd_cycle_attempts current + 1) = Inr (st, f)"
      by (simp add: writes_of_def)
    note settle_owned_row(2) [OF this]
    ultimately show ?thesis by (simp add: moves_def settled_row_def)
  next
    case False
    with wr show ?thesis by (auto simp: writes_of_def settled_row_def moves_def)
  qed
  then show ?thesis
    using find_row_completed [OF outbox_inv_distinct [OF assms(1)] wr cur] cur
    by (auto simp: evolves_def d' get_delivery_def)
qed

lemma evolves_store:
  assumes "db_ok d" "store_submission id id hex sub now key fp webhook d = (res, d')"
  shows "evolves d d'"
proof -
  from store_submission_effect [OF assms] show ?thesis by (auto intro: evolves_append)
qed

subsection \<open>The invariant of the system\<close>

text \<open>
  Claim tokens name claims: the token of a row was minted, no two rows hold the same one, and a
  worker that presents it holds the very row it was minted for, except that other workers' requests
  may have been counted since.
\<close>

definition tokens_ok :: "outbox \<Rightarrow> bool" where
  "tokens_ok s \<longleftrightarrow>
     (\<forall>w\<in>set (deliveries (store s)). \<forall>t. whd_claim_token w = Some t \<longrightarrow> t \<in> minted s) \<and>
     (\<forall>v\<in>set (deliveries (store s)). \<forall>w\<in>set (deliveries (store s)).
        whd_claim_token v \<noteq> None \<and> whd_claim_token v = whd_claim_token w \<longrightarrow> whd_id v = whd_id w) \<and>
     (\<forall>j\<in>inflight s. \<exists>t\<in>minted s. whd_claim_token j = Some t) \<and>
     (\<forall>i\<in>inflight s. \<forall>j\<in>inflight s. whd_claim_token i = whd_claim_token j \<longrightarrow> i = j) \<and>
     (\<forall>j\<in>inflight s. \<forall>w\<in>set (deliveries (store s)).
        whd_claim_token w = whd_claim_token j \<longrightarrow> w\<lparr>whd_attempts := whd_attempts j\<rparr> = j)"

definition budgets_ok :: "retry_policy \<Rightarrow> db \<Rightarrow> bool" where
  "budgets_ok p d \<longleftrightarrow> (\<forall>w\<in>set (deliveries d). within_budget (max_attempts p) w)"

definition system_inv :: "retry_policy \<Rightarrow> outbox \<Rightarrow> bool" where
  "system_inv p s \<longleftrightarrow> outbox_inv (store s) \<and> budgets_ok p (store s) \<and> tokens_ok s"

text \<open>What a step that mints no token may do to a row: drop its claim, or count a request.\<close>

definition claim_kept :: "db \<Rightarrow> delivery \<Rightarrow> bool" where
  "claim_kept d v \<longleftrightarrow>
     whd_claim_token v = None \<or> (\<exists>w\<in>set (deliveries d). \<exists>n. v = w\<lparr>whd_attempts := n\<rparr>)"

lemma tokens_okD:
  assumes "tokens_ok s"
  shows "\<And>w t. w \<in> set (deliveries (store s)) \<Longrightarrow> whd_claim_token w = Some t \<Longrightarrow> t \<in> minted s"
    and "\<And>v w. v \<in> set (deliveries (store s)) \<Longrightarrow> w \<in> set (deliveries (store s)) \<Longrightarrow> whd_claim_token v \<noteq> None \<Longrightarrow>
      whd_claim_token v = whd_claim_token w \<Longrightarrow> whd_id v = whd_id w"
    and "\<And>j. j \<in> inflight s \<Longrightarrow> \<exists>t\<in>minted s. whd_claim_token j = Some t"
    and "\<And>i j. i \<in> inflight s \<Longrightarrow> j \<in> inflight s \<Longrightarrow> whd_claim_token i = whd_claim_token j \<Longrightarrow> i = j"
    and "\<And>j w. j \<in> inflight s \<Longrightarrow> w \<in> set (deliveries (store s)) \<Longrightarrow> whd_claim_token w = whd_claim_token j \<Longrightarrow>
      w\<lparr>whd_attempts := whd_attempts j\<rparr> = j"
  using assms unfolding tokens_ok_def by blast+

lemma tokens_okI:
  assumes "\<And>w t. w \<in> set (deliveries (store s)) \<Longrightarrow> whd_claim_token w = Some t \<Longrightarrow> t \<in> minted s"
    and "\<And>v w. v \<in> set (deliveries (store s)) \<Longrightarrow> w \<in> set (deliveries (store s)) \<Longrightarrow> whd_claim_token v \<noteq> None \<Longrightarrow>
      whd_claim_token v = whd_claim_token w \<Longrightarrow> whd_id v = whd_id w"
    and "\<And>j. j \<in> inflight s \<Longrightarrow> \<exists>t\<in>minted s. whd_claim_token j = Some t"
    and "\<And>i j. i \<in> inflight s \<Longrightarrow> j \<in> inflight s \<Longrightarrow> whd_claim_token i = whd_claim_token j \<Longrightarrow> i = j"
    and "\<And>j w. j \<in> inflight s \<Longrightarrow> w \<in> set (deliveries (store s)) \<Longrightarrow> whd_claim_token w = whd_claim_token j \<Longrightarrow>
      w\<lparr>whd_attempts := whd_attempts j\<rparr> = j"
  shows "tokens_ok s"
  unfolding tokens_ok_def using assms by blast

lemma tokens_ok_kept:
  assumes ok: "tokens_ok s" and kept: "\<forall>v\<in>set (deliveries d). claim_kept (store s) v" and jobs: "jobs \<subseteq> inflight s"
  shows "tokens_ok (s\<lparr>store := d, inflight := jobs\<rparr>)"
proof -
  have row: "\<exists>w\<in>set (deliveries (store s)). \<exists>n. v = w\<lparr>whd_attempts := n\<rparr>"
    if "v \<in> set (deliveries d)" "whd_claim_token v \<noteq> None" for v
    using that kept by (auto simp: claim_kept_def)
  have a: "t \<in> minted s" if vt: "v \<in> set (deliveries d)" "whd_claim_token v = Some t" for v t
  proof -
    from row [of v] vt obtain w n where w: "w \<in> set (deliveries (store s))" "v = w\<lparr>whd_attempts := n\<rparr>" by auto
    with vt(2) have "whd_claim_token w = Some t" by simp
    then show ?thesis by (rule tokens_okD(1) [OF ok w(1)])
  qed
  have b: "whd_id u = whd_id v"
    if uv: "u \<in> set (deliveries d)" "v \<in> set (deliveries d)" "whd_claim_token u \<noteq> None" "whd_claim_token u = whd_claim_token v" for u v
  proof -
    from row [of u] uv obtain w n where w: "w \<in> set (deliveries (store s))" "u = w\<lparr>whd_attempts := n\<rparr>" by auto
    from row [of v] uv obtain x m where x: "x \<in> set (deliveries (store s))" "v = x\<lparr>whd_attempts := m\<rparr>" by auto
    have "whd_claim_token w \<noteq> None" "whd_claim_token w = whd_claim_token x" using uv w(2) x(2) by simp_all
    from tokens_okD(2) [OF ok w(1) x(1) this] w(2) x(2) show ?thesis by simp
  qed
  have c: "v\<lparr>whd_attempts := whd_attempts j\<rparr> = j"
    if jv: "j \<in> inflight s" "v \<in> set (deliveries d)" "whd_claim_token v = whd_claim_token j" for j v
  proof -
    have "whd_claim_token v \<noteq> None" using tokens_okD(3) [OF ok jv(1)] jv(3) by auto
    then obtain w n where w: "w \<in> set (deliveries (store s))" "v = w\<lparr>whd_attempts := n\<rparr>"
      using row [of v] jv by auto
    with jv have "whd_claim_token w = whd_claim_token j" by simp
    from tokens_okD(5) [OF ok jv(1) w(1) this] w(2) show ?thesis by simp
  qed
  have d: "\<exists>t\<in>minted s. whd_claim_token j = Some t" if "j \<in> jobs" for j
    using tokens_okD(3) [OF ok, of j] that jobs by blast
  have e: "i = j" if "i \<in> jobs" "j \<in> jobs" "whd_claim_token i = whd_claim_token j" for i j
    using tokens_okD(4) [OF ok, of i j] that jobs by blast
  show ?thesis
  proof (rule tokens_okI, goal_cases)
    case (1 w t)
    then show ?case using a by simp
  next
    case (2 v w)
    then show ?case using b [of v w] by simp
  next
    case (3 j)
    then show ?case using d by simp
  next
    case (4 i j)
    then show ?case using e by simp
  next
    case (5 j w)
    then show ?case using c [of j w] jobs by auto
  qed
qed

text \<open>After a claim every row is either one that was claimed, under a token of its own, or one as before.\<close>

lemma claim_splits_rows:
  assumes ids: "distinct (map whd_id (deliveries d))" "distinct (map whd_id (deliveries d'))"
    and run: "claim_due_deliveries visible hex now lease limit d = (Inr claimed, d')"
    and v: "v \<in> set (deliveries d')"
  shows "(v \<in> set claimed) \<or> (v \<in> set (deliveries d) \<and> whd_id v \<notin> whd_id ` set claimed)"
proof -
  let ?cs = "claim_candidates visible now limit (deliveries d)"
  from claim_due_eq [OF ids(1) run] obtain e ts where
    ts: "ts = tokened hex 0 ?cs" and
    cl: "claimed = map (\<lambda>c. claim_values e (the (map_of ts (whd_id c))) c) ?cs" and
    rows: "\<forall>k. get_delivery d' k = map_option (claimed_row now e ts) (get_delivery d k)" by blast
  have "get_delivery d' (whd_id v) = Some v" using v by (simp add: get_delivery_def find_row_Some_iff [OF ids(2)])
  with rows obtain w where w: "get_delivery d (whd_id v) = Some w" "v = claimed_row now e ts w" by auto
  then have wd: "w \<in> set (deliveries d)" "whd_id w = whd_id v" by (auto simp: get_delivery_def dest: find_row_SomeD)
  show ?thesis
  proof (cases "whd_id w \<in> whd_id ` set ?cs")
    case True
    then obtain c where c: "c \<in> set ?cs" "whd_id c = whd_id w" by auto
    then have cd: "c \<in> set (deliveries d)" "due_condition now c" by (auto dest: claim_candidates_sub)
    from distinct_map_inj [OF ids(1) cd(1) wd(1) c(2)] have "c = w" .
    moreover obtain t where "map_of ts (whd_id w) = Some t"
      using map_of_tokened_Some [OF True, of 0 hex] by (auto simp: ts)
    ultimately have "v = claim_values e (the (map_of ts (whd_id c))) c" using w(2) cd(2) by (simp add: claimed_row_def)
    with c(1) show ?thesis by (simp add: cl)
  next
    case False
    then have vw: "v = w" using w(2) map_of_tokened_None [OF False, of hex 0] by (simp add: claimed_row_def ts)
    have "whd_id ` set claimed = whd_id ` set ?cs" by (simp add: cl image_image)
    with False vw wd(1) show ?thesis by simp
  qed
qed

lemma claimed_tokens:
  assumes "distinct (map whd_id (deliveries d))" "inj hex"
    and run: "claim_due_deliveries visible hex now lease limit d = (Inr claimed, d')"
  shows "c \<in> set claimed \<Longrightarrow> \<exists>j. whd_claim_token c = Some (new_claim_token (hex j))"
    and "b \<in> set claimed \<Longrightarrow> c \<in> set claimed \<Longrightarrow> whd_claim_token b = whd_claim_token c \<Longrightarrow> b = c"
proof -
  let ?cs = "claim_candidates visible now limit (deliveries d)"
  from claim_due_eq [OF assms(1) run] obtain e ts where
    ts: "ts = tokened hex 0 ?cs" and
    cl: "claimed = map (\<lambda>c. claim_values e (the (map_of ts (whd_id c))) c) ?cs" by blast
  have tok: "\<exists>j. map_of ts (whd_id w) = Some (new_claim_token (hex j))" if "w \<in> set ?cs" for w
    using map_of_tokened_Some [of "whd_id w" ?cs 0 hex] that by (auto simp: ts)
  then show "\<exists>j. whd_claim_token c = Some (new_claim_token (hex j))" if "c \<in> set claimed"
    using that by (fastforce simp: cl)
  show "b = c" if bc: "b \<in> set claimed" "c \<in> set claimed" "whd_claim_token b = whd_claim_token c"
  proof -
    from bc obtain v w where vw: "v \<in> set ?cs" "w \<in> set ?cs" "b = claim_values e (the (map_of ts (whd_id v))) v"
      "c = claim_values e (the (map_of ts (whd_id w))) w" by (auto simp: cl)
    with bc(3) tok [of v] tok [of w] have "map_of ts (whd_id v) = map_of ts (whd_id w)" "map_of ts (whd_id v) \<noteq> None" by auto
    then have "whd_id v = whd_id w" using map_of_tokened_inj [OF assms(2)] by (auto simp: ts)
    with vw have "v = w"
      using distinct_map_inj [OF claim_candidates_distinct [OF assms(1)]] by blast
    with vw show ?thesis by simp
  qed
qed

lemma tokens_ok_claim:
  assumes ok: "tokens_ok s" and inv: "outbox_inv (store s)"
    and run: "claim_due_deliveries visible hex now lease limit (store s) = (Inr claimed, d)"
    and inj: "inj hex" and fresh: "\<And>i. new_claim_token (hex i) \<notin> minted s"
  shows "tokens_ok (s\<lparr>store := d, inflight := inflight s \<union> set claimed,
         minted := minted s \<union> (\<lambda>c. the (whd_claim_token c)) ` set claimed\<rparr>)"
proof -
  have ids: "distinct (map whd_id (deliveries (store s)))" by (rule outbox_inv_distinct [OF inv])
  have "outbox_inv d" using claim_due_inv [OF inv, of visible hex now lease limit] run by simp
  then have ids': "distinct (map whd_id (deliveries d))" by (rule outbox_inv_distinct)
  note split = claim_splits_rows [OF ids ids' run]
  note tok = claimed_tokens(1) [OF ids inj run]
  have new: "t \<notin> minted s" if "c \<in> set claimed" "whd_claim_token c = Some t" for c t
    using tok [OF that(1)] that(2) fresh by auto
  have old: "t \<in> minted s" if "v \<in> set (deliveries (store s))" "whd_claim_token v = Some t" for v t
    using tokens_okD(1) [OF ok that] .
  have job: "\<exists>t\<in>minted s. whd_claim_token j = Some t" if "j \<in> inflight s" for j
    using tokens_okD(3) [OF ok that] .
  show ?thesis
  proof (rule tokens_okI, goal_cases)
    case (1 w t)
    then show ?case using split [of w] old [of w t] by force
  next
    case (2 v w)
    from 2 have v: "v \<in> set (deliveries d)" and w: "w \<in> set (deliveries d)" by simp_all
    from 2 obtain t where t: "whd_claim_token v = Some t" "whd_claim_token w = Some t" by auto
    from split [OF v] split [OF w] consider "v \<in> set claimed" "w \<in> set claimed"
      | "v \<in> set claimed" "w \<in> set (deliveries (store s))" | "v \<in> set (deliveries (store s))" "w \<in> set claimed"
      | "v \<in> set (deliveries (store s))" "w \<in> set (deliveries (store s))" by blast
    then show ?case
    proof cases
      case 1
      with claimed_tokens(2) [OF ids inj run this] t show ?thesis by simp
    next
      case 2
      with new [of v t] old [of w t] t show ?thesis by simp
    next
      case 3
      with new [of w t] old [of v t] t show ?thesis by simp
    next
      case 4
      with tokens_okD(2) [OF ok this] t show ?thesis by simp
    qed
  next
    case (3 j)
    then consider "j \<in> inflight s" | "j \<in> set claimed" by auto
    then show ?case
    proof cases
      case 1
      with job [of j] show ?thesis by auto
    next
      case 2
      with tok [of j] show ?thesis by force
    qed
  next
    case (4 i j)
    then have ij: "i \<in> inflight s \<union> set claimed" "j \<in> inflight s \<union> set claimed" "whd_claim_token i = whd_claim_token j"
      by simp_all
    then consider "i \<in> inflight s" "j \<in> inflight s" | "i \<in> inflight s" "j \<in> set claimed"
      | "i \<in> set claimed" "j \<in> inflight s" | "i \<in> set claimed" "j \<in> set claimed" by blast
    then show ?case
    proof cases
      case 1
      then show ?thesis using tokens_okD(4) [OF ok _ _ ij(3)] by simp
    next
      case 2
      then show ?thesis using job [of i] new [of j] ij(3) by auto
    next
      case 3
      then show ?thesis using job [of j] new [of i] ij(3) by auto
    next
      case 4
      then show ?thesis using claimed_tokens(2) [OF ids inj run _ _ ij(3)] by simp
    qed
  next
    case (5 j w)
    then have jw: "j \<in> inflight s \<union> set claimed" "w \<in> set (deliveries d)" "whd_claim_token w = whd_claim_token j" by simp_all
    from jw(1) split [OF jw(2)] consider "j \<in> inflight s" "w \<in> set claimed" | "j \<in> set claimed" "w \<in> set claimed"
      | "j \<in> inflight s" "w \<in> set (deliveries (store s))" | "j \<in> set claimed" "w \<in> set (deliveries (store s))" by blast
    then show ?case
    proof cases
      case 1
      then show ?thesis using job [of j] new [of w] jw(3) by auto
    next
      case 2
      then have "w = j" using claimed_tokens(2) [OF ids inj run _ _ jw(3)] by simp
      then show ?thesis by simp
    next
      case 3
      then show ?thesis using tokens_okD(5) [OF ok _ _ jw(3)] by simp
    next
      case 4
      then show ?thesis using tok [of j] new [of j] old [of w] jw(3) by auto
    qed
  qed
qed

subsection \<open>Every step keeps it\<close>

lemma claim_kept_same [simp]: "w \<in> set (deliveries d) \<Longrightarrow> claim_kept d w"
  unfolding claim_kept_def by (intro disjI2 bexI [of _ w] exI [of _ "whd_attempts w"]) simp_all

lemma budgets_claim:
  assumes "budgets_ok p d" "outbox_inv d"
    and run: "claim_due_deliveries visible hex now lease limit d = (Inr claimed, d')"
  shows "budgets_ok p d'"
proof -
  have ids: "distinct (map whd_id (deliveries d))" by (rule outbox_inv_distinct [OF assms(2)])
  have "outbox_inv d'" using claim_due_inv [OF assms(2), of visible hex now lease limit] run by simp
  then have ids': "distinct (map whd_id (deliveries d'))" by (rule outbox_inv_distinct)
  have "within_budget (max_attempts p) v" if v: "v \<in> set (deliveries d')" for v
  proof (cases "v \<in> set claimed")
    case True
    then obtain e t w where w: "get_delivery d (whd_id v) = Some w" "due_condition now w" "v = claim_values e t w"
      using claimed_entry [OF ids run] by metis
    from w(1) have "w \<in> set (deliveries d)" by (auto simp: get_delivery_def dest: find_row_SomeD)
    with assms(1) have "within_budget (max_attempts p) w" by (simp add: budgets_ok_def)
    with w(2,3) show ?thesis by (auto simp: within_budget_def due_condition_def)
  next
    case False
    with claim_splits_rows [OF ids ids' run v] assms(1) show ?thesis by (simp add: budgets_ok_def)
  qed
  then show ?thesis by (simp add: budgets_ok_def)
qed

text \<open>Recording an attempt, for the claim a worker holds or held.\<close>

lemma complete_kept:
  assumes inv: "outbox_inv d" and run: "complete_attempt hex job r now p tok d = (res, d')" and v: "v \<in> set (deliveries d')"
  shows "claim_kept d v"
proof (cases res)
  case (Inl e)
  with run have "d' = d" by (auto dest: complete_attempt_Inl)
  with v show ?thesis by simp
next
  case (Inr c)
  from run [unfolded Inr] obtain current st f where
    cur: "find_row whd_id (deliveries d) (whd_id job) = Some current" and
    wr: "writes_of r now p tok current = Inr (st, f)" and d': "d' = completed hex job r now tok f current d"
    by (rule complete_attempt_Inr)
  from v completed_deliveries [OF outbox_inv_distinct [OF inv] cur]
  consider "v = settled_row f current" | "v \<in> set (deliveries d)" by (auto simp: d' split: if_splits)
  then show ?thesis
  proof cases
    case 1
    show ?thesis
    proof (cases "owns tok current")
      case True
      with wr have "settle_owned r now p (whd_cycle_attempts current + 1) = Inr (st, f)" by (simp add: writes_of_def)
      from settle_owned_row(2) [OF this] 1 show ?thesis by (simp add: claim_kept_def settled_row_def)
    next
      case False
      with wr have "f = (\<lambda>w. w)" by (simp add: writes_of_def)
      with 1 have "v = current\<lparr>whd_attempts := whd_attempts current + 1\<rparr>" by (simp add: settled_row_def)
      moreover have "current \<in> set (deliveries d)" using find_row_SomeD [OF cur] by simp
      ultimately show ?thesis unfolding claim_kept_def by blast
    qed
  qed simp
qed

lemma complete_budget:
  assumes inv: "outbox_inv d" and bud: "budgets_ok p d" and run: "complete_attempt hex job r now p tok d = (res, d')"
  shows "budgets_ok p d'"
proof (cases res)
  case (Inl e)
  with run bud show ?thesis by (auto dest: complete_attempt_Inl)
next
  case (Inr c)
  from run [unfolded Inr] obtain current st f where
    cur: "find_row whd_id (deliveries d) (whd_id job) = Some current" and
    wr: "writes_of r now p tok current = Inr (st, f)" and d': "d' = completed hex job r now tok f current d"
    by (rule complete_attempt_Inr)
  have mem: "current \<in> set (deliveries d)" using find_row_SomeD [OF cur] by simp
  then have cb: "within_budget (max_attempts p) current" using bud by (simp add: budgets_ok_def)
  have "within_budget (max_attempts p) (settled_row f current)"
  proof (cases "owns tok current")
    case True
    with wr have set: "settle_owned r now p (whd_cycle_attempts current + 1) = Inr (st, f)" by (simp add: writes_of_def)
    have "whd_state current = PROCESSING" using True outbox_inv_wf [OF inv cur] by (auto simp: owns_def delivery_wf_def)
    with cb have "whd_cycle_attempts current + 1 \<le> max_attempts p" by (simp add: within_budget_def)
    then show ?thesis
      using settle_owned_row(1) [OF set]
      by (simp add: settled_row_def settle_owned_row(2) [OF set] within_budget_def verdict_def)
  next
    case False
    with wr have "f = (\<lambda>w. w)" by (simp add: writes_of_def)
    with cb show ?thesis by (simp add: settled_row_def within_budget_def)
  qed
  then show ?thesis
    using bud by (auto simp: d' budgets_ok_def completed_deliveries [OF outbox_inv_distinct [OF inv] cur])
qed

lemma requeue_kept:
  assumes "outbox_inv d" "v \<in> set (deliveries (snd (requeue_failed_delivery k now d)))"
  shows "claim_kept d v"
  using assms by (auto simp: requeue_failed_delivery_def Let_def set_update_rows claim_kept_def)
    (metis delivery.surjective delivery.update_convs(7))

lemma retained_rows:
  assumes "outbox_inv d" "reorders pick" "delete_expired_submissions pick before batch batches d = (n, d')"
    and v: "v \<in> set (deliveries d')"
  shows "claim_kept d v \<and> (\<exists>w\<in>set (deliveries d). whd_state v = whd_state w \<and> whd_cycle_attempts v = whd_cycle_attempts w)"
proof -
  have "unlinked_from d d'"
    using sweep_unlinked [of d pick before batch batches 0] assms(3) by (simp add: delete_expired_submissions_def)
  then obtain gone w where w: "w \<in> set (deliveries d)" "v = w\<lparr>whd_submission_id := unlink gone (whd_submission_id w)\<rparr>"
    using v by (auto simp: unlinked_from_def)
  have inv: "outbox_inv d'" using delete_expired_inv [OF assms(2,1), of before batch batches] assms(3) by simp
  then have wf: "delivery_wf v" using v by (simp add: outbox_inv_def list_all_iff)
  have "claim_kept d v"
  proof (cases "whd_submission_id v")
    case None
    with wf show ?thesis by (auto simp: claim_kept_def delivery_wf_def)
  next
    case (Some sid)
    with w(2) have "whd_submission_id w = Some sid" by (simp add: unlink_Some_iff)
    with w Some have "v = w" by simp
    with w(1) show ?thesis by simp
  qed
  with w show ?thesis by auto
qed

lemma store_new_rows:
  assumes "db_ok d" "store_submission id id hex sub now key fp webhook d = (res, d')" "v \<in> set (deliveries d')"
  shows "v \<in> set (deliveries d) \<or> (\<exists>t. v = new_delivery hex sub now t)"
  using store_submission_effect [OF assms(1,2)] assms(3) by (auto split: option.splits)

lemma system_inv_step:
  assumes inv: "system_inv p s" and step: "outbox_step p s t" and allowance: "0 < max_attempts p"
  shows "system_inv p t"
proof -
  have out: "outbox_inv (store s)" and bud: "budgets_ok p (store s)" and tok: "tokens_ok s"
    using inv by (simp_all add: system_inv_def)
  have ok: "db_ok (store s)" using out by (rule outbox_inv_ok)
  have kept: "tokens_ok (s\<lparr>store := d\<rparr>)" if "\<forall>v\<in>set (deliveries d). claim_kept (store s) v" for d
    using tokens_ok_kept [OF tok that order_refl] by simp
  from step show ?thesis
  proof cases
    case (accept hex sub now key fp webhook res d)
    have "outbox_inv d" using store_submission_inv [of "store s" id id] accept(2) out by simp
    moreover have rows: "v \<in> set (deliveries (store s)) \<or> (\<exists>t. v = new_delivery hex sub now t)"
      if "v \<in> set (deliveries d)" for v using store_new_rows [OF ok accept(2) that] .
    have "budgets_ok p d"
      unfolding budgets_ok_def
    proof
      fix v assume "v \<in> set (deliveries d)"
      from rows [OF this] show "within_budget (max_attempts p) v"
        using bud allowance by (auto simp: budgets_ok_def within_budget_def)
    qed
    moreover have "tokens_ok (s\<lparr>store := d\<rparr>)"
    proof (rule kept, rule ballI)
      fix v assume "v \<in> set (deliveries d)"
      from rows [OF this] show "claim_kept (store s) v"
        by (elim disjE exE) (simp, simp add: claim_kept_def)
    qed
    ultimately show ?thesis by (simp add: accept(1) system_inv_def)
  next
    case (claim visible hex now lease limit claimed d)
    have "outbox_inv d" using claim_due_inv [OF out, of visible hex now lease limit] claim(2) by simp
    with budgets_claim [OF bud out claim(2)] tokens_ok_claim [OF tok out claim(2,3)] claim(4)
    show ?thesis by (simp add: claim(1) system_inv_def)
  next
    case (complete job hex r now res d)
    have "outbox_inv d" using complete_attempt_inv [OF out complete(3)] .
    moreover have "tokens_ok (s\<lparr>store := d, inflight := inflight s - {job}\<rparr>)"
      using complete_kept [OF out complete(3)] by (intro tokens_ok_kept [OF tok]) auto
    ultimately show ?thesis using complete_budget [OF out bud complete(3)] by (simp add: complete(1) system_inv_def)
  next
    case (crash lost)
    have "tokens_ok (s\<lparr>store := store s, inflight := inflight s - lost\<rparr>)"
      by (rule tokens_ok_kept [OF tok]) auto
    with out bud show ?thesis by (simp add: crash system_inv_def)
  next
    case (requeue k now out' d)
    have d: "d = snd (requeue_failed_delivery k now (store s))" by (simp add: requeue(2))
    have "outbox_inv d" unfolding d by (rule requeue_inv [OF out])
    moreover have "budgets_ok p d"
      using bud allowance
      by (auto simp: d requeue_failed_delivery_def Let_def budgets_ok_def set_update_rows within_budget_def)
    moreover have "tokens_ok (s\<lparr>store := d\<rparr>)" using requeue_kept [OF out] by (intro kept) (simp add: d)
    ultimately show ?thesis by (simp add: requeue(1) system_inv_def)
  next
    case (retain pick before batch batches n d)
    have "outbox_inv d" using delete_expired_inv [OF retain(2) out, of before batch batches] retain(3) by simp
    moreover have "budgets_ok p d"
      using bud retained_rows [OF out retain(2,3)] by (fastforce simp: budgets_ok_def within_budget_def)
    moreover have "tokens_ok (s\<lparr>store := d\<rparr>)" using retained_rows [OF out retain(2,3)] by (intro kept) blast
    ultimately show ?thesis by (simp add: retain(1) system_inv_def)
  next
    case (manage d)
    have "outbox_inv d"
      using out manage(2-5) by (simp add: outbox_inv_def history_ok_def attempts_of_def)
    moreover have "tokens_ok (s\<lparr>store := d\<rparr>)" using manage(4) by (intro kept) simp
    ultimately show ?thesis using bud manage(4) by (simp add: manage(1) system_inv_def budgets_ok_def)
  qed
qed

interpretation outbox_system: invariant_system outbox_init "outbox_step p"
  "\<lambda>s. 0 < max_attempts p \<longrightarrow> system_inv p s" for p
proof
  show "0 < max_attempts p \<longrightarrow> system_inv p s" if "outbox_init s" for s
    using that by (simp add: outbox_init_def system_inv_def outbox_inv_def history_ok_def budgets_ok_def tokens_ok_def
        empty_db_def)
      (simp add: db_ok_defs)
  show "0 < max_attempts p \<longrightarrow> system_inv p t"
    if "0 < max_attempts p \<longrightarrow> system_inv p s" "outbox_step p s t" for s t
    using system_inv_step that by blast
qed

lemma reachable_inv:
  assumes "0 < max_attempts p" "outbox_init s0" "rtranclp (outbox_step p) s0 s"
  shows "system_inv p s"
  using outbox_system.reach_inv [OF assms(2,3)] assms(1) by blast

subsection \<open>Claims that are gone\<close>

text \<open>A token that was minted and is on no row comes back on none: claims draw new ones, and every other step keeps or drops.\<close>

definition dead_token :: "pystr \<Rightarrow> outbox \<Rightarrow> bool" where
  "dead_token t s \<longleftrightarrow> t \<in> minted s \<and> (\<forall>w\<in>set (deliveries (store s)). whd_claim_token w \<noteq> Some t)"

lemma claim_kept_dead: "claim_kept (store s) v \<Longrightarrow> dead_token t s \<Longrightarrow> whd_claim_token v \<noteq> Some t"
  by (auto simp: claim_kept_def dead_token_def)

lemma dead_token_step:
  assumes inv: "system_inv p s" and step: "outbox_step p s s'" and dead: "dead_token t s"
  shows "dead_token t s'"
proof -
  have out: "outbox_inv (store s)" using inv by (simp add: system_inv_def)
  have ids: "distinct (map whd_id (deliveries (store s)))" by (rule outbox_inv_distinct [OF out])
  have kept: "dead_token t x" if "t \<in> minted x" "\<And>v. v \<in> set (deliveries (store x)) \<Longrightarrow> claim_kept (store s) v" for x
    using that claim_kept_dead [OF _ dead] by (auto simp: dead_token_def)
  have mint: "t \<in> minted s" using dead by (simp add: dead_token_def)
  from step show ?thesis
  proof cases
    case (accept hex sub now key fp webhook res d)
    have "claim_kept (store s) v" if "v \<in> set (deliveries d)" for v
      using store_new_rows [OF outbox_inv_ok [OF out] accept(2) that] by (elim disjE exE) (simp, simp add: claim_kept_def)
    then show ?thesis using mint by (intro kept) (simp_all add: accept(1))
  next
    case (claim visible hex now lease limit claimed d)
    have "outbox_inv d" using claim_due_inv [OF out, of visible hex now lease limit] claim(2) by simp
    then have ids': "distinct (map whd_id (deliveries d))" by (rule outbox_inv_distinct)
    have "whd_claim_token v \<noteq> Some t" if v: "v \<in> set (deliveries d)" for v
      using claim_splits_rows [OF ids ids' claim(2) v]
    proof
      assume "v \<in> set claimed"
      from claimed_tokens(1) [OF ids claim(3,2) this] claim(4) mint show ?thesis by auto
    next
      assume "v \<in> set (deliveries (store s)) \<and> whd_id v \<notin> whd_id ` set claimed"
      with dead show ?thesis by (simp add: dead_token_def)
    qed
    with mint show ?thesis by (simp add: claim(1) dead_token_def)
  next
    case (complete job hex r now res d)
    then show ?thesis using mint complete_kept [OF out complete(3)] by (intro kept) simp_all
  next
    case (crash lost)
    then show ?thesis using dead by (simp add: dead_token_def)
  next
    case (requeue k now out' d)
    then have d: "d = snd (requeue_failed_delivery k now (store s))" by simp
    show ?thesis using mint requeue_kept [OF out] by (intro kept) (simp_all add: requeue(1) d)
  next
    case (retain pick before batch batches n d)
    then show ?thesis using mint retained_rows [OF out retain(2,3)] by (intro kept) simp_all
  next
    case (manage d)
    then show ?thesis using mint by (intro kept) simp_all
  qed
qed

lemma dead_token_stays:
  assumes "rtranclp (outbox_step p) s s'" and "0 < max_attempts p" and "system_inv p s" and "dead_token t s"
  shows "system_inv p s' \<and> dead_token t s'"
  using assms(1)
proof induction
  case base
  show ?case using assms(3,4) by (rule conjI)
next
  case (step y z)
  then show ?case using system_inv_step [OF _ step(2) assms(2)] dead_token_step [OF _ step(2)] by blast
qed

text \<open>When an owner settles a delivery, every other claim on it that is in flight is gone for good.\<close>

lemma other_claim_dead:
  assumes sys: "system_inv p s" and i: "i \<in> inflight s" and j: "j \<in> inflight s" and "i \<noteq> j" and same: "whd_id i = whd_id j"
    and run: "complete_attempt hex i r now p (whd_claim_token i) (store s) = (Inr c, d)" and owned: "ca_owned c"
  shows "\<exists>t. whd_claim_token j = Some t \<and> dead_token t (s\<lparr>store := d, inflight := inflight s - {i}\<rparr>)"
proof -
  have out: "outbox_inv (store s)" and tok: "tokens_ok s" using sys by (simp_all add: system_inv_def)
  obtain t where t: "whd_claim_token j = Some t" "t \<in> minted s" using tokens_okD(3) [OF tok j] by blast
  from run obtain current where cur: "find_row whd_id (deliveries (store s)) (whd_id i) = Some current"
    and c: "ca_owned c = owns (whd_claim_token i) current"
    by (elim complete_attempt_Inr) simp
  have mem: "current \<in> set (deliveries (store s))" "whd_id current = whd_id i" using find_row_SomeD [OF cur] by auto
  have "whd_claim_token v \<noteq> Some t" if v: "v \<in> set (deliveries d)" for v
  proof
    assume vt: "whd_claim_token v = Some t"
    with complete_kept [OF out run v] obtain x n where x: "x \<in> set (deliveries (store s))" "v = x\<lparr>whd_attempts := n\<rparr>"
      by (auto simp: claim_kept_def)
    with vt t have xj: "whd_claim_token x = whd_claim_token j" by simp
    show False
    proof (cases "whd_id x = whd_id i")
      case True
      then have "x = current" using distinct_map_inj [OF outbox_inv_distinct [OF out] x(1) mem(1)] mem(2) by simp
      with xj owned c have "whd_claim_token i = whd_claim_token j" by (simp add: owns_def)
      with tokens_okD(4) [OF tok i j] assms(4) show False by blast
    next
      case False
      from tokens_okD(5) [OF tok j x(1) xj] have "whd_id x = whd_id j"
        by (metis delivery.select_convs(1) delivery.surjective delivery.update_convs(7))
      with False same show False by simp
    qed
  qed
  with t show ?thesis by (simp add: dead_token_def)
qed

subsection \<open>Properties\<close>

text \<open>
  C5. Whatever requests, workers, crashes, replays and sweeps do, and in whatever order: a delivery
  holds a claim exactly while it is processing and is completed exactly when it is terminal, its
  recorded attempts are numbered from one to its total without a gap or a repetition, it never draws
  more than the allowance in a cycle, and as long as it can be attempted it has allowance left and the
  submission its payload is built from.
\<close>
theorem outbox_always_sound:
  assumes "0 < max_attempts p" and "outbox_init s0" and "rtranclp (outbox_step p) s0 s"
    and "w \<in> set (deliveries (store s))"
  shows "(whd_claim_token w \<noteq> None) = (whd_state w = PROCESSING) \<and>
    (whd_completed_at w \<noteq> None) = (whd_state w = DELIVERED \<or> whd_state w = FAILED) \<and>
    map att_number (attempts_of (store s) (whd_id w)) = [1..whd_attempts w] \<and>
    whd_cycle_attempts w \<le> max_attempts p \<and>
    (whd_state w = PENDING \<or> whd_state w = PROCESSING \<longrightarrow> whd_cycle_attempts w < max_attempts p) \<and>
    (whd_state w \<noteq> DELIVERED \<longrightarrow> (\<exists>sub\<in>set (submissions (store s)). whd_submission_id w = Some (sub_id sub)))"
proof -
  have inv: "system_inv p s" by (rule reachable_inv [OF assms(1-3)])
  then have wf: "delivery_wf w" and bud: "within_budget (max_attempts p) w"
    and hist: "map att_number (attempts_of (store s) (whd_id w)) = [1..whd_attempts w]"
    using assms(4) by (auto simp: system_inv_def outbox_inv_def history_ok_def budgets_ok_def list_all_iff)
  have "refers_to (map sub_id (submissions (store s))) (whd_submission_id w)"
    using inv assms(4) by (auto simp: system_inv_def outbox_inv_def db_ok_defs list_all_iff)
  then have "\<exists>sub\<in>set (submissions (store s)). whd_submission_id w = Some (sub_id sub)"
    if "whd_submission_id w \<noteq> None" using that by (auto simp: refers_to_def)
  with wf bud hist show ?thesis
    by (auto simp: delivery_wf_def delivery_check_def terminal_states_def within_budget_def)
qed

text \<open>
  C7. A delivery only ever moves along its state machine: waiting work is claimed, claimed work is
  settled or claimed again, failed work is requeued, and delivered is final. No step loses a delivery,
  lowers its total of requests, or changes the endpoint, destination and secret it was queued with.
\<close>
theorem delivery_lifecycle:
  assumes "0 < max_attempts p" and "outbox_init s0" and "rtranclp (outbox_step p) s0 s" and "outbox_step p s t"
    and "get_delivery (store s) k = Some w"
  shows "\<exists>v. get_delivery (store t) k = Some v \<and> may_become (whd_state w) (whd_state v) \<and>
    whd_attempts w \<le> whd_attempts v \<and> whd_endpoint_id v = whd_endpoint_id w \<and>
    whd_destination_url v = whd_destination_url w \<and> whd_signing_secret v = whd_signing_secret w"
proof -
  have out: "outbox_inv (store s)" using reachable_inv [OF assms(1-3)] by (simp add: system_inv_def)
  from assms(4) have "evolves (store s) (store t)"
  proof cases
    case (retain pick before batch batches n d)
    have "unlinked_from (store s) d"
      using sweep_unlinked [of "store s" pick before batch batches 0] retain(3)
      by (simp add: delete_expired_submissions_def)
    then show ?thesis using evolves_unlinked retain(1) by simp
  next
    case (requeue k now out' d)
    then show ?thesis using evolves_requeue [of "store s" k now] by simp
  next
    case (manage d)
    then show ?thesis by (simp add: evolves_def get_delivery_def)
  qed (auto intro: evolves_claim evolves_complete evolves_store outbox_inv_ok [OF out] outbox_inv_distinct [OF out] out)
  with assms(5) show ?thesis by (auto simp: evolves_def moves_def)
qed

text \<open>
  C9. Several workers may have one delivery in flight after leases ran out, but only one of them settles it.
  Once a worker has recorded its attempt as the owner, a worker with another claim never does, whatever
  happens in between: its attempt, when it is recorded, raises the total of the delivery and leaves
  everything else of it as the system had it, and it is told that it does not own the delivery.
\<close>
theorem at_most_one_owner:
  assumes "0 < max_attempts p" and "outbox_init s0" and "rtranclp (outbox_step p) s0 s"
    and "i \<in> inflight s" and "j \<in> inflight s" and "i \<noteq> j" and "whd_id i = whd_id j"
    and "complete_attempt hex1 i r1 now1 p (whd_claim_token i) (store s) = (Inr c1, d1)" and "ca_owned c1"
    and "rtranclp (outbox_step p) (s\<lparr>store := d1, inflight := inflight s - {i}\<rparr>) s2"
    and "get_delivery (store s2) (whd_id j) = Some w"
    and "complete_attempt hex2 j r2 now2 p (whd_claim_token j) (store s2) = (Inr c2, d2)"
  shows "\<not> ca_owned c2 \<and> ca_state c2 = whd_state w \<and>
    get_delivery d2 (whd_id j) = Some (w\<lparr>whd_attempts := whd_attempts w + 1\<rparr>)"
proof -
  have sys: "system_inv p s" by (rule reachable_inv [OF assms(1-3)])
  have step: "outbox_step p s (s\<lparr>store := d1, inflight := inflight s - {i}\<rparr>)" by (rule outbox_step.complete [OF assms(4,8)])
  have sys1: "system_inv p (s\<lparr>store := d1, inflight := inflight s - {i}\<rparr>)" by (rule system_inv_step [OF sys step assms(1)])
  obtain t where t: "whd_claim_token j = Some t" "dead_token t (s\<lparr>store := d1, inflight := inflight s - {i}\<rparr>)"
    using other_claim_dead [OF sys assms(4-9)] by blast
  have sys2: "system_inv p s2" and dead: "dead_token t s2"
    using dead_token_stays [OF assms(10,1) sys1 t(2)] by blast+
  have "w \<in> set (deliveries (store s2))" using assms(11) by (auto simp: get_delivery_def dest: find_row_SomeD)
  with dead have not: "\<not> owns (whd_claim_token j) w" by (auto simp: dead_token_def owns_def t(1))
  have "outbox_inv (store s2)" using sys2 by (simp add: system_inv_def)
  from superseded_effect [OF this assms(11) not assms(12)] show ?thesis by blast
qed

text \<open>
  C13. A worker that still holds its claim when the response arrives can always record the attempt, if the
  identifier it draws for it is new and the back-off of the policy stays in the range of dates: no
  constraint refuses it, whatever happened in between. It is recorded as the owner's, and the row that is
  added to the history names the delivery, the next number and the stored submission the delivery is for.
\<close>
theorem owner_records:
  assumes "0 < max_attempts p" and "outbox_init s0" and "rtranclp (outbox_step p) s0 s"
    and "job \<in> inflight s" and "get_delivery (store s) (whd_id job) = Some w" and "owns (whd_claim_token job) w"
    and "new_delivery_attempt_id hex \<notin> att_id ` set (attempt_log (store s))"
    and "\<exists>delay t. delay_after p (whd_cycle_attempts w + 1) = Inr delay \<and> dt_add now delay = Inr t"
  shows "\<exists>c d'. complete_attempt hex job r now p (whd_claim_token job) (store s) = (Inr c, d') \<and> ca_owned c \<and>
    attempt_log d' = attempt_log (store s) @ [ca_attempt c] \<and>
    att_delivery_id (ca_attempt c) = whd_id w \<and> att_number (ca_attempt c) = whd_attempts w + 1 \<and>
    att_outcome (ca_attempt c) = outcome r \<and> att_response_status (ca_attempt c) = response_status r \<and>
    (\<exists>sub \<in> set (submissions d'). att_submission_id (ca_attempt c) = Some (sub_id sub) \<and> whd_submission_id w = Some (sub_id sub))"
proof -
  have out: "outbox_inv (store s)" and tok: "tokens_ok s"
    using reachable_inv [OF assms(1-3)] by (simp_all add: system_inv_def)
  have mem: "w \<in> set (deliveries (store s))" "whd_id w = whd_id job"
    using assms(5) by (auto simp: get_delivery_def dest: find_row_SomeD)
  have "whd_claim_token w = whd_claim_token job" using assms(6) by (simp add: owns_def)
  from tokens_okD(5) [OF tok assms(4) mem(1) this] have same: "whd_submission_id job = whd_submission_id w"
    by (metis delivery.select_convs(2) delivery.surjective delivery.update_convs(7))
  have "delivery_wf w" using out mem by (simp add: outbox_inv_def list_all_iff)
  with assms(6) have sub: "whd_submission_id w \<noteq> None" by (auto simp: owns_def delivery_wf_def)
  have refers: "refers_to (map sub_id (submissions (store s))) (whd_submission_id job)"
    using out mem same by (auto simp: outbox_inv_def db_ok_defs list_all_iff)
  obtain c d' where run: "complete_attempt hex job r now p (whd_claim_token job) (store s) = (Inr c, d')"
    using complete_attempt_returns [OF out assms(5,7) refers] assms(8) by blast
  then obtain current st f where cur: "find_row whd_id (deliveries (store s)) (whd_id job) = Some current"
    and c: "c = \<lparr>ca_attempt = new_attempt hex job r now (whd_attempts current + 1), ca_state = st,
          ca_owned = owns (whd_claim_token job) current\<rparr>"
    and d': "d' = completed hex job r now (whd_claim_token job) f current (store s)"
    by (rule complete_attempt_Inr)
  have "current = w" using cur assms(5) by (simp add: get_delivery_def)
  with run c d' assms(6) mem(2) same sub refers show ?thesis
    by (auto simp: new_attempt_def refers_to_def)
qed

subsection \<open>A run of the system\<close>

text \<open>
  An endpoint is created, a submission accepted, its delivery claimed by one worker and, after that
  lease ran out, by another while the first request is still in flight.
\<close>

definition run_start :: outbox where
  "run_start = \<lparr>store = empty_db, inflight = {}, minted = {}\<rparr>"

definition run_accepted :: db where
  "run_accepted = snd (store_submission id id [1] hello 1000000 None None
     (Some \<lparr>target_url = lit ''https://example.com/hook'', target_secret = lit ''whsec''\<rparr>) (empty_db\<lparr>endpoints := [contact]\<rparr>))"

definition run_claim1 :: "(py_exn + delivery list) \<times> db" where
  "run_claim1 = claim_due_deliveries (\<lambda>_. True) (\<lambda>i. [5, i]) 1000000 60 10 run_accepted"

definition run_claim2 :: "(py_exn + delivery list) \<times> db" where
  "run_claim2 = claim_due_deliveries (\<lambda>_. True) (\<lambda>i. [6, i]) 61000000 60 10 (snd run_claim1)"

definition run_job1 :: delivery where "run_job1 = hd (projr (fst run_claim1))"
definition run_job2 :: delivery where "run_job2 = hd (projr (fst run_claim2))"

definition run_end :: outbox where
  "run_end = \<lparr>store = snd run_claim2, inflight = {run_job1, run_job2},
     minted = {new_claim_token [5, 0], new_claim_token [6, 0]}\<rparr>"

lemma run_facts:
  "fst run_claim1 = Inr [run_job1]" "fst run_claim2 = Inr [run_job2]"
  "whd_claim_token run_job1 = Some (new_claim_token [5, 0])"
  "whd_claim_token run_job2 = Some (new_claim_token [6, 0])"
  "get_delivery (snd run_claim2) (whd_id run_job2) = Some run_job2"
  "whd_id run_job1 = whd_id run_job2"
  by code_simp+

lemma run_reaches: "rtranclp (outbox_step p) run_start run_end"
proof -
  let ?d1 = "empty_db\<lparr>endpoints := [contact]\<rparr>"
  have "db_ok ?d1" by code_simp
  then have 1: "outbox_step p run_start \<lparr>store = ?d1, inflight = {}, minted = {}\<rparr>"
    using outbox_step.manage [of ?d1 run_start p] by (simp add: run_start_def)
  obtain res where "store_submission id id [1] hello 1000000 None None
     (Some \<lparr>target_url = lit ''https://example.com/hook'', target_secret = lit ''whsec''\<rparr>) ?d1 = (res, run_accepted)"
    by (metis run_accepted_def surj_pair snd_conv)
  then have 2: "outbox_step p \<lparr>store = ?d1, inflight = {}, minted = {}\<rparr> \<lparr>store = run_accepted, inflight = {}, minted = {}\<rparr>"
    using outbox_step.accept [of "[1]" hello 1000000 None None _ "\<lparr>store = ?d1, inflight = {}, minted = {}\<rparr>" res run_accepted p] by simp
  have "claim_due_deliveries (\<lambda>_. True) (\<lambda>i. [5, i]) 1000000 60 10 run_accepted = (Inr [run_job1], snd run_claim1)"
    using run_facts(1) by (metis prod.collapse run_claim1_def)
  then have 3: "outbox_step p \<lparr>store = run_accepted, inflight = {}, minted = {}\<rparr>
      \<lparr>store = snd run_claim1, inflight = {run_job1}, minted = {new_claim_token [5, 0]}\<rparr>"
    using outbox_step.claim [of "\<lambda>_. True" "\<lambda>i. [5, i]" 1000000 60 10 "\<lparr>store = run_accepted, inflight = {}, minted = {}\<rparr>"
        "[run_job1]" "snd run_claim1" p] run_facts(3)
    by (simp add: inj_def)
  have "claim_due_deliveries (\<lambda>_. True) (\<lambda>i. [6, i]) 61000000 60 10 (snd run_claim1) = (Inr [run_job2], snd run_claim2)"
    using run_facts(2) by (metis prod.collapse run_claim2_def)
  then have 4: "outbox_step p \<lparr>store = snd run_claim1, inflight = {run_job1}, minted = {new_claim_token [5, 0]}\<rparr> run_end"
    using outbox_step.claim [of "\<lambda>_. True" "\<lambda>i. [6, i]" 61000000 60 10
        "\<lparr>store = snd run_claim1, inflight = {run_job1}, minted = {new_claim_token [5, 0]}\<rparr>"
        "[run_job2]" "snd run_claim2" p] run_facts(4)
    by (simp add: inj_def run_end_def insert_commute)
  from 1 2 3 4 show ?thesis by (meson converse_rtranclp_into_rtranclp rtranclp.rtrancl_refl)
qed

lemma run_init: "outbox_init run_start"
  by (simp add: outbox_init_def run_start_def)

lemma run_job2_row: "run_job2 \<in> set (deliveries (store run_end))"
  using run_facts(5) by (auto simp: run_end_def get_delivery_def dest: find_row_SomeD)

definition run_policy :: retry_policy where
  "run_policy = \<lparr>max_attempts = 3, initial_seconds = 1, max_seconds = 60\<rparr>"

lemma run_policy_pos: "0 < max_attempts run_policy"
  by (simp add: run_policy_def)

lemma outbox_always_sound_witness:
  "map att_number (attempts_of (store run_end) (whd_id run_job2)) = [1..whd_attempts run_job2] \<and>
   whd_cycle_attempts run_job2 \<le> 3"
  using outbox_always_sound [OF run_policy_pos run_init run_reaches run_job2_row] by (simp add: run_policy_def)

lemma delivery_lifecycle_witness:
  "\<exists>v. get_delivery (store run_end) (whd_id run_job2) = Some v \<and> may_become (whd_state run_job2) (whd_state v)"
proof -
  have "get_delivery (store run_end) (whd_id run_job2) = Some run_job2" using run_facts(5) by (simp add: run_end_def)
  from delivery_lifecycle [OF run_policy_pos run_init run_reaches outbox_step.crash [of run_policy run_end "{run_job1}"] this]
  show ?thesis by auto
qed

text \<open>The second worker settles first; the first one's answer arrives afterwards.\<close>

definition run_settled :: db where
  "run_settled = snd (complete_attempt [7] run_job2 \<lparr>outcome = SUCCEEDED, response_status = Some 204, error_text = None\<rparr> 62000000 run_policy
     (whd_claim_token run_job2) (snd run_claim2))"

lemma at_most_one_owner_witness:
  "\<exists>c d. complete_attempt [8] run_job1 \<lparr>outcome = TIMEOUT, response_status = None, error_text = None\<rparr> 63000000 run_policy
       (whd_claim_token run_job1) run_settled = (Inr c, d) \<and>
     \<not> ca_owned c \<and> ca_state c = DELIVERED \<and> map_option whd_attempts (get_delivery d (whd_id run_job1)) = Some 2"
proof -
  let ?r = "\<lparr>outcome = SUCCEEDED, response_status = Some 204, error_text = None\<rparr>"
  let ?late = "\<lparr>outcome = TIMEOUT, response_status = None, error_text = None\<rparr>"
  let ?first = "complete_attempt [7] run_job2 ?r 62000000 run_policy (whd_claim_token run_job2) (snd run_claim2)"
  let ?second = "complete_attempt [8] run_job1 ?late 63000000 run_policy (whd_claim_token run_job1) run_settled"
  let ?s1 = "run_end\<lparr>store := run_settled, inflight := inflight run_end - {run_job2}\<rparr>"
  have "map_sum id ca_owned (fst ?first) = Inr True" "\<not> isl (fst ?second)" by code_simp+
  then obtain c1 c2 where c: "fst ?first = Inr c1" "ca_owned c1" "fst ?second = Inr c2"
    by (cases "fst ?first"; cases "fst ?second") auto
  have first: "complete_attempt [7] run_job2 ?r 62000000 run_policy (whd_claim_token run_job2) (store run_end) = (Inr c1, run_settled)"
    using c(1) by (simp add: run_end_def run_settled_def prod_eq_iff)
  obtain d where run: "?second = (Inr c2, d)" using c(3) by (cases ?second) simp
  then have second: "complete_attempt [8] run_job1 ?late 63000000 run_policy (whd_claim_token run_job1) (store ?s1) = (Inr c2, d)" by simp
  have "map_option (\<lambda>w. (whd_state w, whd_attempts w)) (get_delivery run_settled (whd_id run_job1)) = Some (DELIVERED, 1)" by code_simp
  then obtain w where w: "get_delivery run_settled (whd_id run_job1) = Some w" "whd_state w = DELIVERED" "whd_attempts w = 1" by auto
  have jobs: "run_job2 \<in> inflight run_end" "run_job1 \<in> inflight run_end" "run_job2 \<noteq> run_job1" "whd_id run_job2 = whd_id run_job1"
    using run_facts(3,4,6) by (auto simp: run_end_def)
  have "rtranclp (outbox_step run_policy) ?s1 ?s1" by simp
  from w(1) have row: "get_delivery (store ?s1) (whd_id run_job1) = Some w" by simp
  from at_most_one_owner [OF run_policy_pos run_init run_reaches jobs first c(2) \<open>rtranclp _ ?s1 ?s1\<close> row second] w(2,3)
  have "\<not> ca_owned c2 \<and> ca_state c2 = DELIVERED \<and> get_delivery d (whd_id run_job1) = Some (w\<lparr>whd_attempts := 2\<rparr>)" by simp
  with run show ?thesis by simp
qed

lemma owner_records_witness:
  "\<exists>c d' sub. complete_attempt [7] run_job2 \<lparr>outcome = TIMEOUT, response_status = None, error_text = None\<rparr> 62000000 run_policy
     (whd_claim_token run_job2) (store run_end) = (Inr c, d') \<and> ca_owned c \<and> sub \<in> set (submissions d') \<and>
     att_submission_id (ca_attempt c) = Some (sub_id sub) \<and> att_number (ca_attempt c) = 1"
proof -
  have "run_job2 \<in> inflight run_end" by (simp add: run_end_def)
  moreover have "get_delivery (store run_end) (whd_id run_job2) = Some run_job2" using run_facts(5) by (simp add: run_end_def)
  moreover have "owns (whd_claim_token run_job2) run_job2" using run_facts(4) by (simp add: owns_def)
  moreover have "new_delivery_attempt_id [7] \<notin> att_id ` set (attempt_log (store run_end))" by code_simp
  moreover have "delay_after run_policy (whd_cycle_attempts run_job2 + 1) = Inr 1000000 \<and> dt_add 62000000 1000000 = Inr 63000000"
    by code_simp
  then have "\<exists>delay t. delay_after run_policy (whd_cycle_attempts run_job2 + 1) = Inr delay \<and> dt_add 62000000 delay = Inr t" by blast
  ultimately have "\<exists>c d'. complete_attempt [7] run_job2 \<lparr>outcome = TIMEOUT, response_status = None, error_text = None\<rparr> 62000000 run_policy
      (whd_claim_token run_job2) (store run_end) = (Inr c, d') \<and> ca_owned c \<and>
    attempt_log d' = attempt_log (store run_end) @ [ca_attempt c] \<and>
    att_delivery_id (ca_attempt c) = whd_id run_job2 \<and> att_number (ca_attempt c) = whd_attempts run_job2 + 1 \<and>
    att_outcome (ca_attempt c) = TIMEOUT \<and> att_response_status (ca_attempt c) = None \<and>
    (\<exists>sub \<in> set (submissions d'). att_submission_id (ca_attempt c) = Some (sub_id sub) \<and> whd_submission_id run_job2 = Some (sub_id sub))"
    using owner_records [OF run_policy_pos run_init run_reaches, of run_job2 run_job2 "[7]" 62000000 "\<lparr>outcome = TIMEOUT, response_status = None, error_text = None\<rparr>"]
    by simp
  moreover have "whd_attempts run_job2 = 0" by code_simp
  ultimately show ?thesis by auto
qed

end
