(* ===== verification/Cli.thy ===== *)
theory Cli
  imports Config Schema Security
begin

text \<open>
  \<^verbatim>\<open>cli.py\<close>: the operator commands, with what each prints, what it does to the database and how it ends.
  Parsing the arguments is left to the library; the commands it distinguishes are the datatype \<open>command\<close>.
\<close>

subsection \<open>Commands\<close>

record cleanup_options =
  opt_dry_run :: bool
  opt_older_than_days :: "int option"
  opt_batch_size :: int

datatype command =
    Create_Key pystr
  | List_Keys
  | Revoke_Key pystr
  | Cleanup_Submissions cleanup_options

text \<open>What the options are when the command line names none of them.\<close>

definition default_cleanup_options :: cleanup_options where
  "default_cleanup_options =
     \<lparr>opt_dry_run = False, opt_older_than_days = None, opt_batch_size = int default_batch_size\<rparr>"

text \<open>
  How a command ends: with an exit code, or with an exception on its way to \<^verbatim>\<open>main\<close>. \<open>out\<close> and \<open>err\<close>
  hold the texts printed to the two streams, one entry per \<^verbatim>\<open>print\<close>.
\<close>

datatype cli_failure =
    SchemaFailure schema_not_ready
  | DatabaseFailure pystr
  | Uncaught py_exn
  | UncaughtRetention retention_error

record outcome =
  oc_status :: "cli_failure + int"
  oc_out :: "pystr list"
  oc_err :: "pystr list"
  oc_db :: db

text \<open>
  What a run finds around it: the clock, the random parts of a new key, what other transactions commit
  while a command is between its own reads and writes, the order in which the database returns eligible
  rows, the text of a driver error, and what the migration library, the URL parser and the interpreter say.
\<close>

record cli_env =
  ce_now :: time
  ce_secret :: pystr
  ce_key_hex :: pystr
  ce_other :: "db \<Rightarrow> db"
  ce_pick :: "pystr list \<Rightarrow> pystr list"
  ce_driver_text :: "py_exn \<Rightarrow> pystr"
  ce_engine :: "pystr option"
  ce_shipped :: "pystr option"
  ce_current :: "pystr + pystr option"
  ce_make_url :: "pystr \<Rightarrow> pystr option option"
  ce_printable :: "nat \<Rightarrow> bool"

definition exit_ok :: int where "exit_ok = 0"
definition exit_failed :: int where "exit_failed = 1"

text \<open>The errors of the database library are the ones \<^verbatim>\<open>main\<close> handles.\<close>

definition raised_by :: "cli_env \<Rightarrow> py_exn \<Rightarrow> cli_failure" where
  "raised_by env e =
     (if e \<in> {IntegrityError, DatabaseError, NoResultFound, MultipleResultsFound}
      then DatabaseFailure (ce_driver_text env e) else Uncaught e)"

definition printed :: "int \<Rightarrow> pystr list \<Rightarrow> db \<Rightarrow> outcome" where
  "printed code out d = \<lparr>oc_status = Inr code, oc_out = out, oc_err = [], oc_db = d\<rparr>"

definition complained :: "pystr \<Rightarrow> db \<Rightarrow> outcome" where
  "complained text d = \<lparr>oc_status = Inr exit_failed, oc_out = [], oc_err = [text], oc_db = d\<rparr>"

definition raised :: "cli_failure \<Rightarrow> db \<Rightarrow> outcome" where
  "raised e d = \<lparr>oc_status = Inl e, oc_out = [], oc_err = [], oc_db = d\<rparr>"

subsection \<open>Rendering\<close>

definition moment :: "time option \<Rightarrow> pystr" where
  "moment value = (case value of Some t \<Rightarrow> isoformat_seconds t | None \<Rightarrow> lit ''never'')"

definition ljust :: "nat \<Rightarrow> pystr \<Rightarrow> pystr" where
  "ljust width value = value @ replicate (width - length value) 32"

definition column_widths :: "nat list" where
  "column_widths = [35, 24, 17, 26, 26, 0]"

definition row :: "pystr list \<Rightarrow> pystr" where
  "row columns = join_with (lit ''  '') (map2 (\<lambda>value width. ljust width value) columns column_widths)"

text \<open>The password the URL holds, or nothing when the URL cannot be parsed at all.\<close>

definition redact :: "(pystr \<Rightarrow> pystr option option) \<Rightarrow> pystr \<Rightarrow> pystr \<Rightarrow> pystr" where
  "redact make_url text database_url =
     (case make_url database_url of
        None \<Rightarrow> lit ''the configured FORMS_DATABASE_URL is not a usable SQLAlchemy URL''
      | Some password \<Rightarrow>
          (case password of
             None \<Rightarrow> text
           | Some p \<Rightarrow> if p = [] then text else py_replace p (lit ''***'') text))"

subsection \<open>The commands\<close>

definition create_key_command :: "cli_env \<Rightarrow> pystr \<Rightarrow> db \<Rightarrow> outcome" where
  "create_key_command env name d =
     (case new_management_key (ce_secret env) (ce_key_hex env) of
        Inl e \<Rightarrow> raised (raised_by env e) d
      | Inr generated \<Rightarrow>
          (case create_management_key (gk_id generated) name (gk_display_prefix generated) (gk_digest generated) (ce_now env) d of
             (Inl e, d') \<Rightarrow> raised (raised_by env e) d'
           | (Inr _, d') \<Rightarrow>
               printed exit_ok
                 [lit ''Created management API key '' @ gk_id generated @ lit '' ('' @ name @ lit '').'',
                  [],
                  lit ''    '' @ gk_key generated,
                  [],
                  lit ''Save this key now. It is shown here and nowhere else: the server stores'' @ [10] @
                  lit ''only a digest of it and cannot show it again. If you lose it, create a'' @ [10] @
                  lit ''replacement and revoke this one by its key ID.''] d'))"

definition key_row :: "management_key \<Rightarrow> pystr" where
  "key_row key =
     row [mk_id key, mk_name key, mk_display_prefix key, moment (Some (mk_created_at key)), moment (mk_last_used_at key),
          if mk_is_active key then lit ''active'' else lit ''revoked '' @ moment (mk_revoked_at key)]"

definition list_keys_command :: "db \<Rightarrow> outcome" where
  "list_keys_command d =
     (let keys = list_management_keys d
      in if keys = []
         then printed exit_ok [lit ''No management API keys exist. Create one with 'create-key --name ...'.''] d
         else printed exit_ok
                (row [lit ''KEY ID'', lit ''NAME'', lit ''PREFIX'', lit ''CREATED'', lit ''LAST USED'', lit ''STATUS''] #
                 map key_row keys) d)"

definition revocation_moment_of :: "db \<Rightarrow> pystr \<Rightarrow> time option" where
  "revocation_moment_of d key_id =
     (case get_management_key d key_id of Some key \<Rightarrow> mk_revoked_at key | None \<Rightarrow> None)"

definition revoke_key_command :: "cli_env \<Rightarrow> pystr \<Rightarrow> db \<Rightarrow> outcome" where
  "revoke_key_command env key_id d =
     (let already_revoked = revocation_moment_of d key_id
      in case revoke_management_key (ce_other env) key_id (ce_now env) d of
           (Inl e, d') \<Rightarrow> raised (raised_by env e) d'
         | (Inr None, d') \<Rightarrow>
             complained (lit ''No management API key with the ID '' @ py_repr (ce_printable env) key_id @ lit '' exists.'') d'
         | (Inr (Some key), d') \<Rightarrow>
             (case already_revoked of
                Some t \<Rightarrow>
                  printed exit_ok
                    [lit ''Management API key '' @ mk_id key @ lit '' ('' @ mk_name key @ lit '') was already revoked at '' @
                     moment (Some t) @ lit ''.''] d'
              | None \<Rightarrow>
                  printed exit_ok
                    [lit ''Revoked management API key '' @ mk_id key @ lit '' ('' @ mk_name key @
                     lit ''). It will not authenticate another request.''] d'))"

definition cleanup_policy :: "settings \<Rightarrow> int option \<Rightarrow> retention_policy option" where
  "cleanup_policy s older_than_days =
     (let chosen = (case older_than_days of Some days \<Rightarrow> \<lparr>rp_days = days\<rparr> | None \<Rightarrow> settings_retention_policy s)
      in if retention_enabled chosen then Some chosen else None)"

definition retention_report :: "retention_policy \<Rightarrow> time \<Rightarrow> nat \<Rightarrow> pystr list" where
  "retention_report policy cutoff eligible =
     [lit ''Retention keeps submissions for '' @ str_of_int (rp_days policy) @ lit '' days, so the cutoff is '' @
      moment (Some cutoff) @ lit ''.'',
      str_of_int (int eligible) @ lit '' submission(s) received before then are eligible for deletion. '' @
      lit ''A submission whose delivery is still pending, processing or replayable is '' @
      lit ''not eligible, however old it is.'']"

definition removal_report :: "nat \<Rightarrow> int \<Rightarrow> nat \<Rightarrow> pystr list" where
  "removal_report removed batch_size eligible =
     (lit ''Deleted '' @ str_of_int (int removed) @ lit '' submission(s) in batches of up to '' @ str_of_int batch_size @
      lit ''. Delivery records and their attempt history were left in place.'') #
     (if removed < eligible
      then [lit ''Fewer were deleted than were counted. Run the command again to continue.''] else [])"

definition cleanup_command :: "cli_env \<Rightarrow> settings \<Rightarrow> cleanup_options \<Rightarrow> db \<Rightarrow> outcome" where
  "cleanup_command env s options d =
     (case cleanup_policy s (opt_older_than_days options) of
        None \<Rightarrow>
          complained
            (lit ''No submission retention is configured, so nothing is eligible for deletion. '' @
             lit ''Set FORMS_SUBMISSION_RETENTION_DAYS, or pass --older-than-days to sweep '' @
             lit ''this once without configuring anything.'') d
      | Some policy \<Rightarrow>
          if opt_batch_size options < 1 then complained (lit ''--batch-size must be at least 1.'') d
          else
            (case retention_cutoff policy (ce_now env) of
               Inl e \<Rightarrow> raised (UncaughtRetention e) d
             | Inr cutoff \<Rightarrow>
                 (let eligible = count_expired_submissions cutoff d;
                      report = retention_report policy cutoff eligible
                  in if opt_dry_run options then printed exit_ok (report @ [lit ''Dry run: nothing was deleted.'']) d
                     else if eligible = 0 then printed exit_ok (report @ [lit ''Nothing to delete.'']) d
                     else
                       (let (removed, d') =
                              delete_expired_submissions (ce_pick env) cutoff (nat (opt_batch_size options)) max_batches (ce_other env d)
                        in printed exit_ok (report @ removal_report removed (opt_batch_size options) eligible) d'))))"

definition dispatch :: "cli_env \<Rightarrow> command \<Rightarrow> settings \<Rightarrow> db \<Rightarrow> outcome" where
  "dispatch env cmd s d =
     (case cmd of
        Create_Key name \<Rightarrow> create_key_command env name d
      | List_Keys \<Rightarrow> list_keys_command d
      | Cleanup_Submissions options \<Rightarrow> cleanup_command env s options d
      | Revoke_Key key_id \<Rightarrow> revoke_key_command env key_id d)"

text \<open>
  The engine is built first, then the schema is checked, and only then does a command run. Building the
  engine or reaching the database may fail with an error of the database library, whose text is given.
\<close>

definition run_command :: "cli_env \<Rightarrow> command \<Rightarrow> settings \<Rightarrow> db \<Rightarrow> outcome" where
  "run_command env cmd s d =
     (case ce_engine env of
        Some text \<Rightarrow> raised (DatabaseFailure text) d
      | None \<Rightarrow>
          (case verify_schema (ce_printable env) (ce_shipped env) (ce_current env) of
             Inl (NotReady e) \<Rightarrow> raised (SchemaFailure e) d
           | Inl (Unusable text) \<Rightarrow> raised (DatabaseFailure text) d
           | Inr _ \<Rightarrow> dispatch env cmd s d))"

text \<open>\<open>loaded\<close> is what loading the settings gave, \<open>None\<close> when they did not validate.\<close>

definition main_command :: "cli_env \<Rightarrow> settings option \<Rightarrow> command \<Rightarrow> db \<Rightarrow> outcome" where
  "main_command env loaded cmd d =
     (case loaded of
        None \<Rightarrow>
          complained
            (lit ''FORMS_DATABASE_URL is not set. Export it, or put it in a .env file '' @
             lit ''in this directory, and run the command again.'') d
      | Some s \<Rightarrow>
          (let r = run_command env cmd s d
           in case oc_status r of
                Inl (SchemaFailure (SchemaNotReady text)) \<Rightarrow>
                  r\<lparr>oc_status := Inr exit_failed,
                    oc_err := oc_err r @ [lit ''The database schema is not ready: '' @ text]\<rparr>
              | Inl (DatabaseFailure text) \<Rightarrow>
                  r\<lparr>oc_status := Inr exit_failed,
                    oc_err := oc_err r @ [lit ''The database could not be used: '' @ redact (ce_make_url env) text (cfg_database_url s)]\<rparr>
              | _ \<Rightarrow> r))"

subsection \<open>Facts\<close>

text \<open>Text that was replaced starts no occurrence, and none straddles what replaced it.\<close>

lemma starts_with_replaced:
  "starts_with t (py_replace old (lit ''***'') s) \<Longrightarrow> 42 \<notin> set t \<Longrightarrow> starts_with t s"
proof (induction old "lit ''***''" s arbitrary: t rule: py_replace.induct)
  case (1 old s)
  show ?case
  proof (cases "t = [] \<or> s = []")
    case True
    with 1 show ?thesis by auto
  next
    case False
    then obtain x t' c s' where ts: "t = x # t'" "s = c # s'" by (metis neq_Nil_conv)
    show ?thesis
    proof (cases "old \<noteq> [] \<and> starts_with old s")
      case True
      with 1(3,4) ts show ?thesis by (auto simp: py_replace_Cons_hit lit_def)
    next
      case False
      then have "py_replace old (lit ''***'') s = c # py_replace old (lit ''***'') s'"
        using ts(2) by (subst py_replace.simps) auto
      with 1 False ts show ?thesis by auto
    qed
  qed
qed

lemma replaced_absent:
  assumes "old \<noteq> []" and "42 \<notin> set old"
  shows "py_replace old (lit ''***'') s \<noteq> a @ old @ b"
proof (induction s arbitrary: a rule: length_induct)
  case (1 s)
  note ih = "1.IH"
  obtain o' where hd: "hd old \<noteq> 42" "old = hd old # o'" using assms by (cases old) auto
  show ?case
  proof
    assume eq: "py_replace old (lit ''***'') s = a @ old @ b"
    show False
    proof (cases "starts_with old s")
      case True
      let ?r = "drop (length old) s"
      have "s \<noteq> []" using True assms(1) by (cases old) auto
      then have len: "length ?r < length s" using assms(1) by (cases s) auto
      have "[42, 42, 42] @ py_replace old (lit ''***'') ?r = a @ old @ b"
        using py_replace_Cons_hit [OF assms(1) True, of "lit ''***''"] eq by (simp add: lit_def)
      then have "\<exists>a'. py_replace old (lit ''***'') ?r = a' @ old @ b"
        using hd by (cases a rule: remdups_adj.cases; (cases "tl (tl a)")?) (auto simp: Cons_eq_append_conv)
      with ih len show False by blast
    next
      case False
      then obtain c s' where s: "s = c # s'" using eq assms(1) by (cases s) auto
      have rest: "c # py_replace old (lit ''***'') s' = a @ old @ b" using eq False s by (simp add: py_replace_Cons_other)
      show False
      proof (cases a)
        case Nil
        then have "starts_with old (py_replace old (lit ''***'') s)" using eq by (auto simp: starts_with_iff)
        from starts_with_replaced [OF this assms(2)] False show False by simp
      next
        case (Cons x a')
        with rest have "py_replace old (lit ''***'') s' = a' @ old @ b" by simp
        with ih s show False by auto
      qed
    qed
  qed
qed

lemma replace_without: "\<forall>a b. s \<noteq> a @ old @ b \<Longrightarrow> py_replace old new s = s"
proof (induction s)
  case (Cons c s)
  have "\<not> starts_with old (c # s)" using Cons.prems by (auto simp: starts_with_iff) (metis append_Nil)
  moreover have "\<forall>a b. s \<noteq> a @ old @ b" using Cons.prems by (metis append_Cons)
  ultimately show ?case using Cons.IH by (simp add: py_replace_Cons_other)
qed simp

lemma dispatch_failure_silent: "oc_status (dispatch env cmd s d) = Inl e \<Longrightarrow> oc_err (dispatch env cmd s d) = []"
  by (auto simp: dispatch_def create_key_command_def list_keys_command_def revoke_key_command_def cleanup_command_def
      raised_def printed_def complained_def Let_def split: command.splits sum.splits option.splits prod.splits if_splits)

lemma run_failure_silent: "oc_status (run_command env cmd s d) = Inl e \<Longrightarrow> oc_err (run_command env cmd s d) = []"
  using dispatch_failure_silent [of env cmd s d e]
  by (auto simp: run_command_def raised_def split: option.splits sum.splits schema_failure.splits)

text \<open>A sweep whose budget covers what is eligible deletes all of it.\<close>

lemma swept_all:
  assumes "db_ok d" and "swept before budget d n d'" and "count_expired_submissions before d \<le> budget"
  shows "n = count_expired_submissions before d \<and> submissions d' = filter (\<lambda>s. \<not> expired_condition d before s) (submissions d)"
proof -
  let ?P = "expired_condition d before"
  have len: "length (filter ?P (submissions d)) + length (filter (\<lambda>s. \<not> ?P s) (submissions d)) = length (submissions d)"
    by (rule sum_length_filter_compl)
  from assms(2) obtain gone where gone: "set gone \<subseteq> sub_id ` set (filter ?P (submissions d))"
    "submissions d' = filter (\<lambda>s. sub_id s \<notin> set gone) (submissions d)"
    and n: "n + length (submissions d') = length (submissions d)" "n \<le> budget"
    and rest: "n < budget \<Longrightarrow> submissions d' = filter (\<lambda>s. \<not> ?P s) (submissions d)"
    unfolding swept_def by blast
  have kept: "filter (\<lambda>s. \<not> ?P s) (submissions d') = filter (\<lambda>s. \<not> ?P s) (submissions d)"
    using gone(1) assms(1) unfolding gone(2) filter_filter
    by (intro filter_cong) (auto simp: db_ok_defs dest: distinct_map_inj)
  have all: "submissions d' = filter (\<lambda>s. \<not> ?P s) (submissions d)"
  proof (cases "n < budget")
    case False
    with n len assms(3) have "length (submissions d') \<le> length (filter (\<lambda>s. \<not> ?P s) (submissions d'))"
      unfolding kept count_expired_submissions_def rows_matching_def by linarith
    then have "filter (\<lambda>s. \<not> ?P s) (submissions d') = submissions d'"
      by (metis length_filter_less linorder_not_less filter_True)
    then show ?thesis using kept by simp
  qed (rule rest)
  with n len show ?thesis by (simp add: count_expired_submissions_def rows_matching_def)
qed

subsection \<open>Properties\<close>

text \<open>
  C33. When the database fails, the operator is shown one line: a fixed beginning and then what the driver
  said, in which the password of the configured URL, as the URL parser decodes it, occurs nowhere any more,
  provided it holds no asterisk. A driver text that did not hold the decoded password is shown as it is,
  so one that repeats the URL with the password percent-encoded is not changed. The command ends with exit
  code 1.
\<close>
theorem redact_hides_password:
  assumes "oc_status (run_command env cmd s d) = Inl (DatabaseFailure text)"
    and "ce_make_url env (cfg_database_url s) = Some (Some p)" and "p \<noteq> []" and "42 \<notin> set p"
  shows "\<exists>shown. main_command env (Some s) cmd d =
      (run_command env cmd s d)\<lparr>oc_status := Inr 1, oc_err := [lit ''The database could not be used: '' @ shown]\<rparr> \<and>
    (\<forall>a b. shown \<noteq> a @ p @ b) \<and> ((\<forall>a b. text \<noteq> a @ p @ b) \<longrightarrow> shown = text)"
proof (intro exI conjI)
  let ?shown = "py_replace p (lit ''***'') text"
  show "main_command env (Some s) cmd d =
      (run_command env cmd s d)\<lparr>oc_status := Inr 1, oc_err := [lit ''The database could not be used: '' @ ?shown]\<rparr>"
    using assms run_failure_silent [OF assms(1)] by (simp add: main_command_def redact_def exit_failed_def Let_def)
  show "\<forall>a b. ?shown \<noteq> a @ p @ b" using replaced_absent [OF assms(3,4)] by blast
  show "(\<forall>a b. text \<noteq> a @ p @ b) \<longrightarrow> ?shown = text" by (blast intro: replace_without)
qed

text \<open>A run in which nothing goes wrong around the command, and one whose database is out of reach.\<close>

definition calm_env :: cli_env where
  "calm_env =
     \<lparr>ce_now = 5000000 + 86400000000, ce_secret = sample_secret, ce_key_hex = lit ''1'', ce_other = (\<lambda>d. d), ce_pick = rev,
      ce_driver_text = (\<lambda>e. []), ce_engine = None, ce_shipped = Some (lit ''0006''), ce_current = Inr (Some (lit ''0006'')),
      ce_make_url = (\<lambda>u. Some (Some (lit ''s3cret''))), ce_printable = (\<lambda>c. False)\<rparr>"

definition unreachable_env :: cli_env where
  "unreachable_env = calm_env\<lparr>ce_current := Inl (lit ''no route to ops:s3cret@db'')\<rparr>"

lemma redact_hides_password_witness:
  "\<exists>shown. oc_err (main_command unreachable_env (Some (default_settings [])) List_Keys empty_db) =
     [lit ''The database could not be used: '' @ shown] \<and> (\<forall>a b. shown \<noteq> a @ lit ''s3cret'' @ b)"
proof -
  let ?text = "lit ''no route to ops:s3cret@db''"
  have "oc_status (run_command unreachable_env List_Keys (default_settings []) empty_db) = Inl (DatabaseFailure ?text)"
    by (simp add: run_command_def unreachable_env_def calm_env_def verify_schema_def head_revision_def raised_def)
  moreover have "ce_make_url unreachable_env (cfg_database_url (default_settings [])) = Some (Some (lit ''s3cret''))"
    by (simp add: unreachable_env_def calm_env_def)
  moreover have "lit ''s3cret'' \<noteq> []" "42 \<notin> set (lit ''s3cret'')" by (simp_all add: lit_def)
  ultimately obtain shown where
    "main_command unreachable_env (Some (default_settings [])) List_Keys empty_db =
       (run_command unreachable_env List_Keys (default_settings []) empty_db)
         \<lparr>oc_status := Inr 1, oc_err := [lit ''The database could not be used: '' @ shown]\<rparr>"
    "\<forall>a b. shown \<noteq> a @ lit ''s3cret'' @ b"
    using redact_hides_password by blast
  then show ?thesis by auto
qed

text \<open>
  C32. A dry run tells what the real run does. It changes nothing; when nothing else writes in between, both
  end the same way, announce the same cutoff and the same number, and the real run deletes exactly that
  many submissions, leaving every other one, as long as the number fits in its batches.
\<close>
theorem dry_run_predicts_cleanup:
  assumes "db_ok d" and "reorders (ce_pick env)" and "ce_other env d = d"
    and "dry = cleanup_command env s (opts\<lparr>opt_dry_run := True\<rparr>) d"
    and "run = cleanup_command env s (opts\<lparr>opt_dry_run := False\<rparr>) d"
  shows "oc_db dry = d \<and> oc_status run = oc_status dry \<and> oc_err run = oc_err dry \<and>
    (oc_status run = Inr exit_ok \<longrightarrow>
      (\<exists>policy cutoff n. cleanup_policy s (opt_older_than_days opts) = Some policy \<and>
         retention_cutoff policy (ce_now env) = Inr cutoff \<and> n = count_expired_submissions cutoff d \<and>
         oc_out dry = retention_report policy cutoff n @ [lit ''Dry run: nothing was deleted.''] \<and>
         (n \<le> max_batches * nat (opt_batch_size opts) \<longrightarrow>
            submissions (oc_db run) = filter (\<lambda>s. \<not> expired_condition d cutoff s) (submissions d) \<and>
            oc_out run = retention_report policy cutoff n @
              (if n = 0 then [lit ''Nothing to delete.''] else removal_report n (opt_batch_size opts) n))))"
proof (cases "cleanup_policy s (opt_older_than_days opts)")
  case None
  then show ?thesis using assms(4,5) by (simp add: cleanup_command_def complained_def exit_ok_def exit_failed_def)
next
  case policy: (Some policy)
  show ?thesis
  proof (cases "opt_batch_size opts < 1 \<or> isl (retention_cutoff policy (ce_now env))")
    case True
    with policy show ?thesis using assms(4,5)
      by (auto simp: cleanup_command_def complained_def raised_def exit_ok_def exit_failed_def isl_def)
  next
    case False
    then obtain cutoff where cutoff: "retention_cutoff policy (ce_now env) = Inr cutoff"
      by (cases "retention_cutoff policy (ce_now env)") auto
    let ?n = "count_expired_submissions cutoff d" and ?b = "nat (opt_batch_size opts)"
    obtain removed d' where del: "delete_expired_submissions (ce_pick env) cutoff ?b max_batches d = (removed, d')"
      by fastforce
    have "0 < ?b" using False by simp
    from delete_expired_swept [OF assms(1,2) this del] have swept: "swept cutoff (max_batches * ?b) d removed d'" .
    have dry: "dry = printed exit_ok (retention_report policy cutoff ?n @ [lit ''Dry run: nothing was deleted.'']) d"
      using assms(4) policy cutoff False by (simp add: cleanup_command_def Let_def)
    have run: "run = (if ?n = 0 then printed exit_ok (retention_report policy cutoff ?n @ [lit ''Nothing to delete.'']) d
        else printed exit_ok (retention_report policy cutoff ?n @ removal_report removed (opt_batch_size opts) ?n) d')"
      using assms(3,5) policy cutoff False del by (simp add: cleanup_command_def Let_def)
    have all: "removed = ?n \<and> submissions d' = filter (\<lambda>s. \<not> expired_condition d cutoff s) (submissions d)"
      if "?n \<le> max_batches * ?b" by (rule swept_all [OF assms(1) swept that])
    have none: "?n = 0 \<Longrightarrow> submissions d = filter (\<lambda>s. \<not> expired_condition d cutoff s) (submissions d)"
      by (simp add: count_expired_submissions_def rows_matching_def filter_empty_conv)
    show ?thesis
      using dry run policy cutoff all none by (auto simp: printed_def)
  qed
qed

lemma dry_run_predicts_cleanup_witness:
  "submissions (oc_db (cleanup_command calm_env (default_settings [])
     \<lparr>opt_dry_run = False, opt_older_than_days = Some 1, opt_batch_size = 500\<rparr> sample_db)) = [hello_row, later_row]"
proof -
  let ?opts = "\<lparr>opt_dry_run = True, opt_older_than_days = Some 1, opt_batch_size = 500\<rparr>"
  let ?run = "cleanup_command calm_env (default_settings []) (?opts\<lparr>opt_dry_run := False\<rparr>) sample_db"
  have env: "reorders (ce_pick calm_env)" "ce_other calm_env sample_db = sample_db" by (simp_all add: calm_env_def reorders_def)
  have policy: "cleanup_policy (default_settings []) (Some 1) = Some \<lparr>rp_days = 1\<rparr>"
    by (simp add: cleanup_policy_def retention_enabled_def)
  have cutoff: "retention_cutoff \<lparr>rp_days = 1\<rparr> (ce_now calm_env) = Inr 5000000"
    by (simp add: calm_env_def retention_cutoff_def retention_enabled_def timedelta_us_def dt_add_def day_us_def dt_min_def dt_max_def)
  have one: "count_expired_submissions 5000000 sample_db = 1" by code_simp
  have kept: "filter (\<lambda>s. \<not> expired_condition sample_db 5000000 s) (submissions sample_db) = [hello_row, later_row]" by code_simp
  have "oc_status ?run = Inr exit_ok"
    using policy cutoff one by (simp add: cleanup_command_def printed_def Let_def split: prod.split)
  with dry_run_predicts_cleanup [OF sample_db_ok env refl refl, of "default_settings []" ?opts] policy cutoff one kept
  show ?thesis by (simp add: max_batches_def)
qed

text \<open>
  C31. The credential \<^verbatim>\<open>create-key\<close> prints works, and it is printed only then. Either the command ends with
  exit code 0, having printed exactly once a credential that the authentication boundary accepts from then
  on, as the key whose identifier and name it announced; or a constraint refused the row, and then it
  printed nothing and changed nothing.
\<close>
theorem printed_key_authenticates:
  assumes "length (ce_secret env) = 43" and "list_all secret_char (ce_secret env)"
    and "r = create_key_command env name d" and "key = management_key_prefix @ ce_secret env"
    and "i = new_management_key_id (ce_key_hex env)"
  shows "(oc_status r = Inr exit_ok \<and> oc_err r = [] \<and>
      filter (\<lambda>line. line = lit ''    '' @ key) (oc_out r) = [lit ''    '' @ key] \<and>
      hd (oc_out r) = lit ''Created management API key '' @ i @ lit '' ('' @ name @ lit '').'' \<and>
      (\<forall>w now. \<exists>p. require_management_key w now (Some key) (oc_db r) = (Inr p, record_use w now i (oc_db r)) \<and>
         pr_key_id p = i \<and> pr_name p = name)) \<or>
    (r = raised (DatabaseFailure (ce_driver_text env IntegrityError)) d \<and> oc_out r = [] \<and> oc_db r = d)"
proof -
  have "is_valid_management_key key" using assms(1,2,4) by (simp add: management_key_shape)
  then obtain h where h: "digest_key key = Inr h" using digest_key_total by blast
  let ?g = "\<lparr>gk_id = i, gk_key = key, gk_display_prefix = display_prefix key, gk_digest = h\<rparr>"
  have g: "new_management_key (ce_secret env) (ce_key_hex env) = Inr ?g"
    using h assms(4,5) by (simp add: new_management_key_def Let_def)
  obtain res d' where c: "create_management_key i name (display_prefix key) h (ce_now env) d = (res, d')" by fastforce
  show ?thesis
  proof (cases res)
    case (Inl e)
    with c g show ?thesis
      using assms(3) by (auto simp: create_key_command_def raised_by_def raised_def dest: create_management_key_Inl)
  next
    case (Inr k)
    then have r: "r = printed exit_ok (oc_out r) d'" "hd (oc_out r) = lit ''Created management API key '' @ i @ lit '' ('' @ name @ lit '').''"
      "filter (\<lambda>line. line = lit ''    '' @ key) (oc_out r) = [lit ''    '' @ key]"
      using c g assms(3) assms(4) by (simp_all add: create_key_command_def printed_def lit_def)
    have k: "mk_id k = i" using create_management_key_Inr [of i name "display_prefix key" h "ce_now env" d k d'] c Inr by simp
    have "\<exists>p. require_management_key w now (Some key) d' = (Inr p, record_use w now i d') \<and> pr_key_id p = i \<and> pr_name p = name" for w now
      using created_key_authenticates [OF g assms(1,2), of name "ce_now env" d k d' w now] c Inr k by auto
    moreover have "oc_db r = d'" "oc_status r = Inr exit_ok" "oc_err r = []"
      using c g Inr assms(3) by (simp_all add: create_key_command_def printed_def)
    ultimately show ?thesis using r by simp
  qed
qed

lemma printed_key_authenticates_witness:
  "\<exists>p. fst (require_management_key True 9 (Some sample_key) (oc_db (create_key_command calm_env (lit ''ops'') sample_db))) = Inr p \<and>
     pr_name p = lit ''ops''"
proof -
  let ?r = "create_key_command calm_env (lit ''ops'') sample_db"
  have s: "length (ce_secret calm_env) = 43" "list_all secret_char (ce_secret calm_env)"
    and key: "sample_key = management_key_prefix @ ce_secret calm_env"
    using sample_secret_ok by (simp_all add: calm_env_def sample_key_def)
  obtain h where h: "digest_key sample_key = Inr h" using digest_key_total [OF sample_key_valid] by blast
  have "commit_db (sample_db\<lparr>api_keys := api_keys sample_db @ [k]\<rparr>) = Some (sample_db\<lparr>api_keys := api_keys sample_db @ [k]\<rparr>)" for k
    using sample_db_ok by (auto simp: commit_db_def db_ok_defs sample_db_def simp del: sample_db_ok)
  then have "oc_status ?r = Inr exit_ok"
    using h by (simp add: create_key_command_def new_management_key_def create_management_key_def printed_def Let_def calm_env_def
        sample_key_def)
  with printed_key_authenticates [OF s refl key refl, of "lit ''ops''" sample_db] show ?thesis
    by (auto simp: raised_def) (metis fst_conv)
qed

end
