(* ===== verification/Export.thy ===== *)
theory Export
  imports Json Calendar Examples
begin

text \<open>
  \<^verbatim>\<open>export.py\<close>: how submissions are written as JSON and as CSV, with the part of Python's \<^verbatim>\<open>csv.writer\<close>
  it uses. A reader of RFC 4180 is the reference the CSV is judged by: it gives back every cell, and
  no cell is one a spreadsheet would evaluate.
\<close>

subsection \<open>Names\<close>

record exported_submission =
  xs_id :: pystr
  xs_endpoint_id :: pystr
  xs_received_at :: time
  xs_fields :: form_fields

definition json_media_type :: pystr where "json_media_type = lit ''application/json''"
definition csv_media_type :: pystr where "csv_media_type = lit ''text/csv; charset=utf-8''"

definition metadata_columns :: "pystr list" where
  "metadata_columns = [lit ''submission_id'', lit ''endpoint_id'', lit ''received_at'']"

definition filename_stem :: pystr where "filename_stem = lit ''hymical-submissions''"

definition export_filename :: "pystr \<Rightarrow> time \<Rightarrow> pystr" where
  "export_filename suffix now = filename_stem @ lit ''-'' @ iso_date now @ lit ''.'' @ suffix"

definition content_disposition :: "pystr \<Rightarrow> pystr" where
  "content_disposition filename = lit ''attachment; filename='' @ [34] @ filename @ [34]"

subsection \<open>JSON\<close>

definition as_object :: "exported_submission \<Rightarrow> json" where
  "as_object s =
     JObj [(lit ''id'', JStr (xs_id s)), (lit ''endpoint_id'', JStr (xs_endpoint_id s)),
           (lit ''received_at'', JStr (rfc3339 (xs_received_at s))),
           (lit ''fields'', JObj (map (\<lambda>(n, vs). (n, JStrs vs)) (xs_fields s)))]"

text \<open>The pieces of the document, in the order they are yielded.\<close>

fun json_pieces :: "pystr \<Rightarrow> exported_submission list \<Rightarrow> pystr list" where
  "json_pieces separator [] = []"
| "json_pieces separator (s # ss) = (separator @ dumps True (as_object s)) # json_pieces [44] ss"

definition json_document :: "exported_submission list \<Rightarrow> pystr list" where
  "json_document ss = (lit ''{'' @ [34] @ lit ''submissions'' @ [34] @ lit '':['') # json_pieces [] ss @ [lit '']}'']"

subsection \<open>CSV\<close>

text \<open>\<^verbatim>\<open>csv.writer\<close> in the \<^verbatim>\<open>excel\<close> dialect: quotes where needed, quotes doubled inside.\<close>

definition needs_quotes :: "pystr \<Rightarrow> bool" where
  "needs_quotes cell = list_ex (\<lambda>c. c \<in> {44, 34, 13, 10}) cell"

definition double_quotes :: "pystr \<Rightarrow> pystr" where
  "double_quotes cell = concat (map (\<lambda>c. if c = 34 then [34, 34] else [c]) cell)"

definition csv_cell :: "pystr \<Rightarrow> pystr" where
  "csv_cell cell = (if needs_quotes cell then 34 # double_quotes cell @ [34] else cell)"

definition writerow :: "pystr list \<Rightarrow> pystr" where
  "writerow cells = (if cells = [[]] then [34, 34] else join_with [44] (map csv_cell cells)) @ [13, 10]"

definition formula_leaders :: "nat list" where "formula_leaders = [61, 43, 45, 64, 9, 13]"

definition evaluated :: "pystr \<Rightarrow> bool" where
  "evaluated cell \<longleftrightarrow> cell \<noteq> [] \<and> hd cell \<in> set formula_leaders"

definition safe :: "pystr \<Rightarrow> pystr" where
  "safe cell = (if evaluated cell then 39 # cell else cell)"

definition field_names :: "exported_submission list \<Rightarrow> pystr list" where
  "field_names ss =
     foldl (\<lambda>names s. foldl (\<lambda>names n. if n \<in> set names then names else names @ [n]) names (map fst (xs_fields s))) [] ss"

definition value_cell :: "exported_submission \<Rightarrow> pystr \<Rightarrow> pystr" where
  "value_cell s name = (case map_of (xs_fields s) name of None \<Rightarrow> [] | Some vs \<Rightarrow> dumps False (JStrs vs))"

definition csv_row :: "pystr list \<Rightarrow> exported_submission \<Rightarrow> pystr list" where
  "csv_row names s = map safe ([xs_id s, xs_endpoint_id s, rfc3339 (xs_received_at s)] @ map (value_cell s) names)"

definition csv_header :: "exported_submission list \<Rightarrow> pystr list" where
  "csv_header ss = map safe (metadata_columns @ field_names ss)"

definition csv_document :: "exported_submission list \<Rightarrow> pystr" where
  "csv_document ss = writerow (csv_header ss) @ concat (map (\<lambda>s. writerow (csv_row (field_names ss) s)) ss)"

subsection \<open>Reading CSV\<close>

text \<open>RFC 4180: cells separated by commas, records by CRLF, a quoted cell ends at a quote that is not doubled.\<close>

datatype csv_mode = CellStart | Plain | Quoted | Closing

fun csv_scan :: "csv_mode \<Rightarrow> pystr \<Rightarrow> pystr list \<Rightarrow> pystr \<Rightarrow> pystr list list" where
  "csv_scan m cell row [] = (if m = CellStart \<and> row = [] then [] else [row @ [cell]])"
| "csv_scan m cell row (c # s) =
     (if m = Quoted then (if c = 34 then csv_scan Closing cell row s else csv_scan Quoted (cell @ [c]) row s)
      else if c = 34 \<and> m = CellStart then csv_scan Quoted cell row s
      else if c = 34 \<and> m = Closing then csv_scan Quoted (cell @ [34]) row s
      else if c = 44 then csv_scan CellStart [] (row @ [cell]) s
      else if c = 13 then csv_scan m cell row s
      else if c = 10 then (row @ [cell]) # csv_scan CellStart [] [] s
      else csv_scan Plain (cell @ [c]) row s)"

definition csv_read :: "pystr \<Rightarrow> pystr list list" where
  "csv_read s = csv_scan CellStart [] [] s"

lemma scan_plain:
  "\<not> needs_quotes x \<Longrightarrow> m \<in> {CellStart, Plain} \<Longrightarrow>
   \<exists>m'. m' \<noteq> Quoted \<and> csv_scan m cell row (x @ t) = csv_scan m' (cell @ x) row t"
proof (induction x arbitrary: m cell)
  case (Cons c x)
  then have "c \<notin> {44, 34, 13, 10}" "\<not> needs_quotes x" by (simp_all add: needs_quotes_def)
  with Cons.IH [of Plain "cell @ [c]"] Cons.prems(2) show ?case by auto
qed auto

lemma scan_quoted: "csv_scan Quoted cell row (double_quotes x @ 34 # t) = csv_scan Closing (cell @ x) row t"
  by (induction x arbitrary: cell) (simp_all add: double_quotes_def)

lemma scan_cell:
  "\<exists>m'. m' \<noteq> Quoted \<and> csv_scan CellStart [] row (csv_cell x @ t) = csv_scan m' x row t"
proof (cases "needs_quotes x")
  case True
  have "csv_scan CellStart [] row (csv_cell x @ t) = csv_scan Closing x row t"
    using True scan_quoted [of "[]" row x t] by (simp add: csv_cell_def)
  then show ?thesis by blast
next
  case False
  with scan_plain [OF False, of CellStart "[]" row t] show ?thesis by (simp add: csv_cell_def)
qed

lemma scan_row:
  "cells \<noteq> [] \<Longrightarrow>
   csv_scan CellStart [] row (join_with [44] (map csv_cell cells) @ 13 # 10 # t) = (row @ cells) # csv_scan CellStart [] [] t"
proof (induction cells arbitrary: row rule: induct_list012)
  case (2 x)
  obtain m where "m \<noteq> Quoted" "csv_scan CellStart [] row (csv_cell x @ 13 # 10 # t) = csv_scan m x row (13 # 10 # t)"
    using scan_cell by blast
  then show ?case by (cases m) simp_all
next
  case (3 x y zs)
  let ?t = "44 # join_with [44] (map csv_cell (y # zs)) @ 13 # 10 # t"
  obtain m where "m \<noteq> Quoted" "csv_scan CellStart [] row (csv_cell x @ ?t) = csv_scan m x row ?t"
    using scan_cell by blast
  moreover have "csv_scan CellStart [] (row @ [x]) (join_with [44] (map csv_cell (y # zs)) @ 13 # 10 # t) =
      ((row @ [x]) @ y # zs) # csv_scan CellStart [] [] t"
    by (rule "3.IH"(2)) simp
  ultimately show ?case by (cases m) simp_all
qed simp

lemma read_writerow: "cells \<noteq> [] \<Longrightarrow> csv_read (writerow cells @ t) = cells # csv_read t"
  using scan_row [of cells "[]" t] by (auto simp: writerow_def csv_read_def)

lemma read_rows: "(\<And>r. r \<in> set rows \<Longrightarrow> r \<noteq> []) \<Longrightarrow> csv_read (concat (map writerow rows)) = rows"
  by (induction rows) (simp_all add: read_writerow, simp add: csv_read_def)

subsection \<open>Columns\<close>

lemma add_names:
  "distinct (foldl (\<lambda>names n. if n \<in> set names then names else names @ [n]) names ns) = distinct names"
  "set (foldl (\<lambda>names n. if n \<in> set names then names else names @ [n]) names ns) = set names \<union> set ns"
  by (induction ns arbitrary: names) auto

lemma field_names_from:
  "distinct (foldl (\<lambda>names s. foldl (\<lambda>names n. if n \<in> set names then names else names @ [n]) names (map fst (xs_fields s))) names ss) = distinct names"
  "set (foldl (\<lambda>names s. foldl (\<lambda>names n. if n \<in> set names then names else names @ [n]) names (map fst (xs_fields s))) names ss) =
   set names \<union> (\<Union>s\<in>set ss. fst ` set (xs_fields s))"
  by (induction ss arbitrary: names) (auto simp: add_names)

lemma field_names_all: "distinct (field_names ss)" "set (field_names ss) = (\<Union>s\<in>set ss. fst ` set (xs_fields s))"
  unfolding field_names_def field_names_from by simp_all

lemma safe_value [simp]: "safe (value_cell s name) = value_cell s name"
  by (simp add: value_cell_def safe_def evaluated_def formula_leaders_def JStrs_def split: option.split)

subsection \<open>Properties\<close>

text \<open>
  What a spreadsheet takes for the beginning of a formula, by the list that is usually given: equals, plus,
  minus and at signs, a tabulator and a carriage return; and a cell with the apostrophe that marks text.
\<close>

definition formula_start :: "pystr \<Rightarrow> bool" where
  "formula_start cell \<longleftrightarrow> (\<exists>c rest. cell = c # rest \<and> (c = 61 \<or> c = 43 \<or> c = 45 \<or> c = 64 \<or> c = 9 \<or> c = 13))"

definition marked_text :: "pystr \<Rightarrow> pystr" where
  "marked_text cell = (if formula_start cell then 39 # cell else cell)"

lemma safe_marked: "safe cell = marked_text cell"
  by (cases cell) (auto simp: safe_def evaluated_def formula_leaders_def marked_text_def formula_start_def)

lemma marked_text_harmless: "\<not> formula_start (marked_text cell)"
  by (auto simp: marked_text_def formula_start_def)

definition plain_start :: "pystr \<Rightarrow> bool" where
  "plain_start cell \<longleftrightarrow> cell = [] \<or> hd cell \<noteq> 39"

lemma marked_text_inj: "marked_text x = marked_text y \<Longrightarrow> plain_start x \<Longrightarrow> plain_start y \<Longrightarrow> x = y"
  by (cases x; cases y) (auto simp: marked_text_def plain_start_def split: if_splits)

lemma map_marked_inj:
  "map marked_text xs = map marked_text ys \<Longrightarrow> \<forall>x\<in>set xs \<union> set ys. plain_start x \<Longrightarrow> xs = ys"
proof (induction xs arbitrary: ys)
  case (Cons x xs)
  then obtain y ys' where "ys = y # ys'" by (cases ys) auto
  with Cons marked_text_inj [of x y] show ?case by simp
qed simp

lemma value_cell_marked [simp]: "marked_text (value_cell s name) = value_cell s name"
  using safe_value [of s name] by (simp only: safe_marked)

lemma dumps_values_not_empty: "dumps False (JStrs vs) \<noteq> []"
  using json_code.start [of "JStrs vs"] by auto

lemma value_cell_inj: "value_cell s n = value_cell s' n \<Longrightarrow> map_of (xs_fields s) n = map_of (xs_fields s') n"
  using dumps_values_not_empty dumps_values_not_empty [symmetric]
  by (cases "map_of (xs_fields s) n"; cases "map_of (xs_fields s') n") (auto simp: value_cell_def dest: json_code.enc_inj)

lemma csv_document_read: "csv_read (csv_document ss) = csv_header ss # map (csv_row (field_names ss)) ss"
proof -
  have "r \<noteq> []" if "r \<in> set (csv_header ss # map (csv_row (field_names ss)) ss)" for r
    using that by (auto simp: csv_header_def csv_row_def metadata_columns_def)
  from read_rows [of "csv_header ss # map (csv_row (field_names ss)) ss", OF this] show ?thesis
    by (simp add: csv_document_def comp_def)
qed

lemma unnamed_field: "s \<in> set ss \<Longrightarrow> n \<notin> set (field_names ss) \<Longrightarrow> map_of (xs_fields s) n = None"
  by (auto simp: field_names_all map_of_eq_None_iff)

lemma digits_no_quote: "39 \<notin> set (decimal n)"
  using decimal_digits [of 39 n] by (auto simp: is_digit_def)

lemma rfc3339_plain: "plain_start (rfc3339 t)"
proof -
  have "39 \<notin> set (dec2 n)" "39 \<notin> set (dec4 n)" "39 \<notin> set (dec6 n)" for n
    by (auto simp: dec2_def dec4_def dec6_def zfill_def digits_no_quote)
  then have "39 \<notin> set (rfc3339 t)"
    unfolding rfc3339_Z by (auto simp: iso_date_def iso_clock_def Let_def lit_def split: prod.splits)
  then show ?thesis by (cases "rfc3339 t") (auto simp: plain_start_def)
qed

text \<open>Two documents that are the same were made from the same identifiers and fields, where no text begins with an apostrophe.\<close>

lemma csv_document_inj:
  assumes "csv_document ts = csv_document ss"
    and plain: "\<forall>s\<in>set ss \<union> set ts. plain_start (xs_id s) \<and> plain_start (xs_endpoint_id s) \<and> (\<forall>n\<in>fst ` set (xs_fields s). plain_start n)"
  shows "length ts = length ss \<and> field_names ts = field_names ss \<and>
    (\<forall>i < length ss. xs_id (ts ! i) = xs_id (ss ! i) \<and> xs_endpoint_id (ts ! i) = xs_endpoint_id (ss ! i) \<and>
       rfc3339 (xs_received_at (ts ! i)) = rfc3339 (xs_received_at (ss ! i)) \<and>
       map_of (xs_fields (ts ! i)) = map_of (xs_fields (ss ! i)))"
proof -
  have read: "csv_header ts = csv_header ss" "map (csv_row (field_names ts)) ts = map (csv_row (field_names ss)) ss"
    using arg_cong [OF assms(1), of csv_read] by (simp_all add: csv_document_read)
  have "map marked_text (field_names ts) = map marked_text (field_names ss)"
    using read(1) by (simp add: csv_header_def safe_marked [abs_def])
  then have names: "field_names ts = field_names ss"
    by (rule map_marked_inj) (use plain in \<open>auto simp: field_names_all\<close>)
  have len: "length ts = length ss" using arg_cong [OF read(2), of length] by simp
  have "xs_id (ts ! i) = xs_id (ss ! i) \<and> xs_endpoint_id (ts ! i) = xs_endpoint_id (ss ! i) \<and>
      rfc3339 (xs_received_at (ts ! i)) = rfc3339 (xs_received_at (ss ! i)) \<and>
      map_of (xs_fields (ts ! i)) = map_of (xs_fields (ss ! i))" if i: "i < length ss" for i
  proof -
    have "csv_row (field_names ss) (ts ! i) = csv_row (field_names ss) (ss ! i)"
      using arg_cong [OF read(2), of "\<lambda>rows. rows ! i"] i len by (simp add: names)
    then have row: "marked_text (xs_id (ts ! i)) = marked_text (xs_id (ss ! i))"
      "marked_text (xs_endpoint_id (ts ! i)) = marked_text (xs_endpoint_id (ss ! i))"
      "marked_text (rfc3339 (xs_received_at (ts ! i))) = marked_text (rfc3339 (xs_received_at (ss ! i)))"
      "\<forall>n\<in>set (field_names ss). value_cell (ts ! i) n = value_cell (ss ! i) n"
      by (simp_all add: csv_row_def safe_marked)
    have mem: "ts ! i \<in> set ts" "ss ! i \<in> set ss" using i len by simp_all
    have "map_of (xs_fields (ts ! i)) n = map_of (xs_fields (ss ! i)) n" for n
      using row(4) value_cell_inj [of "ts ! i" n "ss ! i"] unnamed_field [OF mem(1), of n] unnamed_field [OF mem(2), of n] names
      by (cases "n \<in> set (field_names ss)") simp_all
    moreover have "rfc3339 (xs_received_at (ts ! i)) = rfc3339 (xs_received_at (ss ! i))"
      by (rule marked_text_inj [OF row(3) rfc3339_plain rfc3339_plain])
    ultimately show ?thesis using row(1,2) marked_text_inj plain mem by blast
  qed
  with len names show ?thesis by blast
qed

text \<open>
  C21. A reader of a CSV export that follows RFC 4180 gets back a header with the three metadata columns and
  one column for every field name of the export, once, and one record per submission, in order: its
  identifier, its endpoint, its time, and for every column the exact JSON list of its values, or nothing
  where it has no such field. No cell begins like a formula: one that would is marked with an apostrophe,
  and no other is changed. So where no name or identifier begins with an apostrophe of its own, the document
  determines the fields and values of every submission in it.
\<close>
theorem csv_export_reads_back:
  "\<exists>names header rows. csv_read (csv_document ss) = header # rows \<and>
     header = map marked_text ([lit ''submission_id'', lit ''endpoint_id'', lit ''received_at''] @ names) \<and>
     distinct names \<and> set names = (\<Union>s\<in>set ss. fst ` set (xs_fields s)) \<and>
     rows = map (\<lambda>s. map marked_text [xs_id s, xs_endpoint_id s, rfc3339 (xs_received_at s)] @
       map (\<lambda>n. case map_of (xs_fields s) n of None \<Rightarrow> [] | Some vs \<Rightarrow> dumps False (JStrs vs)) names) ss \<and>
     (\<forall>row\<in>set (header # rows). \<forall>cell\<in>set row. \<not> formula_start cell) \<and>
     (\<forall>ts. csv_document ts = csv_document ss \<and>
        (\<forall>s\<in>set ss \<union> set ts. plain_start (xs_id s) \<and> plain_start (xs_endpoint_id s) \<and> (\<forall>n\<in>fst ` set (xs_fields s). plain_start n)) \<longrightarrow>
        length ts = length ss \<and>
        (\<forall>i < length ss. xs_id (ts ! i) = xs_id (ss ! i) \<and> xs_endpoint_id (ts ! i) = xs_endpoint_id (ss ! i) \<and>
           rfc3339 (xs_received_at (ts ! i)) = rfc3339 (xs_received_at (ss ! i)) \<and> map_of (xs_fields (ts ! i)) = map_of (xs_fields (ss ! i))))"
proof (intro exI conjI)
  let ?names = "field_names ss"
  show "csv_read (csv_document ss) = csv_header ss # map (csv_row ?names) ss" by (rule csv_document_read)
  show "csv_header ss = map marked_text ([lit ''submission_id'', lit ''endpoint_id'', lit ''received_at''] @ ?names)"
    by (simp add: csv_header_def metadata_columns_def safe_marked)
  show "distinct ?names" "set ?names = (\<Union>s\<in>set ss. fst ` set (xs_fields s))" by (rule field_names_all)+
  show "map (csv_row ?names) ss = map (\<lambda>s. map marked_text [xs_id s, xs_endpoint_id s, rfc3339 (xs_received_at s)] @
       map (\<lambda>n. case map_of (xs_fields s) n of None \<Rightarrow> [] | Some vs \<Rightarrow> dumps False (JStrs vs)) ?names) ss"
    by (simp add: csv_row_def safe_marked value_cell_def [symmetric])
  show "\<forall>row\<in>set (csv_header ss # map (csv_row ?names) ss). \<forall>cell\<in>set row. \<not> formula_start cell"
  proof (intro ballI)
    fix row cell assume "row \<in> set (csv_header ss # map (csv_row ?names) ss)" "cell \<in> set row"
    then obtain x where "cell = safe x" by (auto simp: csv_header_def csv_row_def simp del: safe_value)
    then show "\<not> formula_start cell" by (simp add: safe_marked marked_text_harmless)
  qed
  show "\<forall>ts. csv_document ts = csv_document ss \<and>
        (\<forall>s\<in>set ss \<union> set ts. plain_start (xs_id s) \<and> plain_start (xs_endpoint_id s) \<and> (\<forall>n\<in>fst ` set (xs_fields s). plain_start n)) \<longrightarrow>
        length ts = length ss \<and>
        (\<forall>i < length ss. xs_id (ts ! i) = xs_id (ss ! i) \<and> xs_endpoint_id (ts ! i) = xs_endpoint_id (ss ! i) \<and>
           rfc3339 (xs_received_at (ts ! i)) = rfc3339 (xs_received_at (ss ! i)) \<and> map_of (xs_fields (ts ! i)) = map_of (xs_fields (ss ! i)))"
    using csv_document_inj [of _ ss] by blast
qed

definition sample_export :: "exported_submission list" where
  "sample_export =
     [\<lparr>xs_id = lit ''s2'', xs_endpoint_id = lit ''contact'', xs_received_at = 2000000, xs_fields = [(lit ''=1+1'', [lit ''a,b''])]\<rparr>,
      \<lparr>xs_id = lit ''s1'', xs_endpoint_id = lit ''contact'', xs_received_at = 1000000, xs_fields = [(lit ''name'', [lit ''x'', lit ''y''])]\<rparr>]"

lemma csv_export_reads_back_witness:
  "\<exists>header rows. csv_read (csv_document sample_export) = header # rows \<and> length rows = 2 \<and>
     39 # lit ''=1+1'' \<in> set header \<and> lit ''name'' \<in> set header \<and> hd (rows ! 0) = lit ''s2'' \<and> hd (rows ! 1) = lit ''s1'' \<and>
     dumps False (JStrs [lit ''a,b'']) \<in> set (rows ! 0) \<and>
     (\<forall>ts. csv_document ts = csv_document sample_export \<and>
        (\<forall>s\<in>set ts. plain_start (xs_id s) \<and> plain_start (xs_endpoint_id s) \<and> (\<forall>n\<in>fst ` set (xs_fields s). plain_start n)) \<longrightarrow>
        length ts = 2 \<and> map_of (xs_fields (ts ! 0)) (lit ''=1+1'') = Some [lit ''a,b''])"
proof -
  let ?plain = "\<lambda>ss. \<forall>s\<in>set ss. plain_start (xs_id s) \<and> plain_start (xs_endpoint_id s) \<and> (\<forall>n\<in>fst ` set (xs_fields s). plain_start n)"
  obtain names header rows where c: "csv_read (csv_document sample_export) = header # rows"
    and h: "header = map marked_text ([lit ''submission_id'', lit ''endpoint_id'', lit ''received_at''] @ names)"
    and n: "set names = (\<Union>s\<in>set sample_export. fst ` set (xs_fields s))"
    and r: "rows = map (\<lambda>s. map marked_text [xs_id s, xs_endpoint_id s, rfc3339 (xs_received_at s)] @
       map (\<lambda>n. case map_of (xs_fields s) n of None \<Rightarrow> [] | Some vs \<Rightarrow> dumps False (JStrs vs)) names) sample_export"
    and inj: "\<forall>ts. csv_document ts = csv_document sample_export \<and>
        (\<forall>s\<in>set sample_export \<union> set ts. plain_start (xs_id s) \<and> plain_start (xs_endpoint_id s) \<and> (\<forall>n\<in>fst ` set (xs_fields s). plain_start n)) \<longrightarrow>
        length ts = length sample_export \<and>
        (\<forall>i < length sample_export. xs_id (ts ! i) = xs_id (sample_export ! i) \<and> xs_endpoint_id (ts ! i) = xs_endpoint_id (sample_export ! i) \<and>
           rfc3339 (xs_received_at (ts ! i)) = rfc3339 (xs_received_at (sample_export ! i)) \<and> map_of (xs_fields (ts ! i)) = map_of (xs_fields (sample_export ! i)))"
    using csv_export_reads_back [of sample_export] by blast
  have plain: "?plain sample_export" by (simp add: sample_export_def plain_start_def lit_def)
  have names: "set names = {lit ''=1+1'', lit ''name''}" using n by (auto simp: sample_export_def)
  have marked: "marked_text (lit ''=1+1'') = 39 # lit ''=1+1''" "marked_text (lit ''name'') = lit ''name''"
    "marked_text (lit ''s2'') = lit ''s2''" "marked_text (lit ''s1'') = lit ''s1''"
    by (simp_all add: marked_text_def formula_start_def lit_def)
  have "39 # lit ''=1+1'' \<in> set header" "lit ''name'' \<in> set header"
    using names marked by (auto simp: h image_iff intro: sym)
  moreover have "dumps False (JStrs [lit ''a,b'']) \<in> set (rows ! 0)" using names by (auto simp: r sample_export_def)
  moreover have "length ts = 2 \<and> map_of (xs_fields (ts ! 0)) (lit ''=1+1'') = Some [lit ''a,b'']"
    if "csv_document ts = csv_document sample_export" "?plain ts" for ts
  proof -
    have "length ts = length sample_export \<and> map_of (xs_fields (ts ! 0)) = map_of (xs_fields (sample_export ! 0))"
      using inj [rule_format, of ts] that plain by (auto simp: sample_export_def)
    then show ?thesis by (simp add: sample_export_def)
  qed
  ultimately show ?thesis using c marked by (intro exI [of _ header] exI [of _ rows]) (auto simp: r sample_export_def)
qed

text \<open>
  The mark is not told apart from an apostrophe of a name: two fields of one submission can come out as two
  columns of the same name.
\<close>

lemma marked_names_collide:
  "csv_header [\<lparr>xs_id = i, xs_endpoint_id = e, xs_received_at = m, xs_fields = [(lit ''=a'', v), (39 # lit ''=a'', w)]\<rparr>] =
     metadata_columns @ [39 # lit ''=a'', 39 # lit ''=a'']"
  by (simp add: csv_header_def field_names_def metadata_columns_def safe_def evaluated_def formula_leaders_def lit_def)

text \<open>The JSON export is the compact rendering of one object, whatever pieces it is sent in.\<close>

lemma json_pieces_concat: "concat (json_pieces [44] ss) = concat (map (\<lambda>s. 44 # dumps True (as_object s)) ss)"
  by (induction ss) simp_all

lemma commas_pieces: "commas (x # xs) = x @ concat (map (\<lambda>y. 44 # y) xs)"
  by (induction xs arbitrary: x) simp_all

lemma json_document_whole:
  "concat (json_document ss) = dumps True (JObj [(lit ''submissions'', JArr (map as_object ss))])"
proof -
  have "concat (json_pieces [] ss) = commas (map (dumps True) (map as_object ss))"
  proof (cases ss)
    case (Cons s ss')
    then show ?thesis by (simp add: json_pieces_concat commas_pieces comp_def)
  qed simp
  moreover have "quote True (lit ''submissions'') = 34 # lit ''submissions'' @ [34]" by code_simp
  ultimately show ?thesis by (simp add: json_document_def) (simp add: lit_def)
qed

end
