(* ===== verification/DeliveriesApi.thy ===== *)
theory DeliveriesApi
  imports EndpointsApi DeliveryFacts
begin

text \<open>
  \<^verbatim>\<open>api/deliveries.py\<close>: the operational view of the queue. Listing, inspecting with the history of
  attempts, and putting a terminally failed delivery back. Then what a replay may do, and that no
  management read depends on a signing secret.
\<close>

subsection \<open>Errors\<close>

definition delivery_not_found :: "pystr \<Rightarrow> api_error" where
  "delivery_not_found delivery_id =
     api_error_of 404 (lit ''delivery_not_found'') (Some [(lit ''delivery_id'', DText delivery_id)])"

definition delivery_not_replayable :: "pystr \<Rightarrow> pystr \<Rightarrow> api_error" where
  "delivery_not_replayable delivery_id st =
     api_error_of 409 (lit ''delivery_not_replayable'')
       (Some [(lit ''delivery_id'', DText delivery_id), (lit ''state'', DText st)])"

definition delivery_submission_deleted :: "pystr \<Rightarrow> pystr \<Rightarrow> api_error" where
  "delivery_submission_deleted delivery_id st =
     api_error_of 409 (lit ''delivery_not_replayable'')
       (Some [(lit ''delivery_id'', DText delivery_id), (lit ''state'', DText st),
              (lit ''reason'', DText (lit ''submission_deleted''))])"

subsection \<open>Filters and views\<close>

definition endpoint_filter_ok :: "pystr option \<Rightarrow> bool" where
  "endpoint_filter_ok f = (case f of None \<Rightarrow> True | Some e \<Rightarrow> length e \<le> endpoint_id_max_length \<and> \<not> contains_nul e)"

text \<open>A state filter is one of the four values, or the request does not validate.\<close>

definition state_filter :: "pystr option \<Rightarrow> delivery_state option option" where
  "state_filter f = (case f of None \<Rightarrow> Some None | Some v \<Rightarrow> map_option Some (state_of_value v))"

record attempt_view =
  av_attempt_number :: int
  av_attempted_at :: time
  av_outcome :: delivery_outcome
  av_response_status :: "int option"
  av_error :: "pystr option"

record delivery_view =
  dv_id :: pystr
  dv_submission_id :: "pystr option"
  dv_endpoint_id :: pystr
  dv_state :: delivery_state
  dv_destination_url :: pystr
  dv_attempt_count :: int
  dv_cycle_attempt_count :: int
  dv_next_attempt_at :: time
  dv_created_at :: time
  dv_completed_at :: "time option"

record delivery_detail = delivery_view +
  dd_attempts :: "attempt_view list"

record delivery_page =
  dp_items :: "delivery_view list"
  dp_next_cursor :: "pystr option"

definition view_delivery :: "delivery \<Rightarrow> delivery_view" where
  "view_delivery w =
     \<lparr>dv_id = whd_id w, dv_submission_id = whd_submission_id w, dv_endpoint_id = whd_endpoint_id w, dv_state = whd_state w,
      dv_destination_url = whd_destination_url w, dv_attempt_count = whd_attempts w,
      dv_cycle_attempt_count = whd_cycle_attempts w, dv_next_attempt_at = whd_next_attempt_at w,
      dv_created_at = whd_created_at w, dv_completed_at = whd_completed_at w\<rparr>"

definition view_attempt :: "attempt \<Rightarrow> attempt_view" where
  "view_attempt a =
     \<lparr>av_attempt_number = att_number a, av_attempted_at = att_attempted_at a, av_outcome = att_outcome a,
      av_response_status = att_response_status a, av_error = att_error a\<rparr>"

subsection \<open>The routes\<close>

definition list_deliveries_route ::
  "pystr option \<Rightarrow> delivery_state option \<Rightarrow> nat \<Rightarrow> pystr option \<Rightarrow> principal \<Rightarrow> (db, delivery_page) handler" where
  "list_deliveries_route endpoint_id st limit cursor who d =
     (case list_deliveries limit cursor endpoint_id st d of
        Inl (UnknownCursor c) \<Rightarrow> (Inl (Api invalid_cursor), d)
      | Inr rows \<Rightarrow>
          (Inr \<lparr>dp_items = map view_delivery rows, dp_next_cursor = next_cursor (map whd_id rows) limit\<rparr>, d))"

definition get_delivery_route :: "pystr \<Rightarrow> principal \<Rightarrow> (db, delivery_detail) handler" where
  "get_delivery_route delivery_id who d =
     (if contains_nul delivery_id then (Inl (Api (delivery_not_found delivery_id)), d)
      else (case get_delivery d delivery_id of
              None \<Rightarrow> (Inl (Api (delivery_not_found delivery_id)), d)
            | Some w \<Rightarrow>
                (Inr (delivery_view.extend (view_delivery w)
                   \<lparr>dd_attempts = map view_attempt (list_delivery_attempts d delivery_id)\<rparr>), d)))"

definition replay_delivery_route :: "time \<Rightarrow> pystr \<Rightarrow> principal \<Rightarrow> (db, delivery_view) handler" where
  "replay_delivery_route now delivery_id who d =
     (if contains_nul delivery_id then (Inl (Api (delivery_not_found delivery_id)), d)
      else
        (let (out, d') = requeue_failed_delivery delivery_id now d
         in case ro_record out of
              None \<Rightarrow> (Inl (Api (delivery_not_found delivery_id)), d')
            | Some w \<Rightarrow>
                if \<not> ro_requeued out \<and> whd_submission_id w = None
                then (Inl (Api (delivery_submission_deleted delivery_id (state_value (whd_state w)))), d')
                else if \<not> ro_requeued out
                then (Inl (Api (delivery_not_replayable delivery_id (state_value (whd_state w)))), d')
                else (Inr (view_delivery w), d')))"

subsection \<open>Facts about replaying\<close>

lemma requeue_eq:
  assumes "db_ok d"
  shows "requeue_failed_delivery k now d =
    (case get_delivery d k of
       None \<Rightarrow> (\<lparr>ro_record = None, ro_requeued = False\<rparr>, d)
     | Some w \<Rightarrow>
         if whd_state w = FAILED \<and> whd_submission_id w \<noteq> None
         then (\<lparr>ro_record = Some (requeue_values now w), ro_requeued = True\<rparr>,
               d\<lparr>deliveries := update_rows (replayable k) (requeue_values now) (deliveries d)\<rparr>)
         else (\<lparr>ro_record = Some w, ro_requeued = False\<rparr>, d))"
proof -
  have dist: "distinct (map whd_id (deliveries d))" using assms by (simp add: db_ok_defs)
  have rows: "rows_matching (replayable k) (deliveries d) =
      (case get_delivery d k of None \<Rightarrow> 0 | Some w \<Rightarrow> if whd_state w = FAILED \<and> whd_submission_id w \<noteq> None then 1 else 0)"
    using rows_matching_key [OF dist, of k "\<lambda>w. whd_state w = FAILED \<and> whd_submission_id w \<noteq> None"]
    by (simp add: replayable_def [abs_def] get_delivery_def)
  have found: "find_row whd_id (update_rows (replayable k) (requeue_values now) (deliveries d)) k =
      map_option (\<lambda>w. if replayable k w then requeue_values now w else w) (get_delivery d k)"
    by (simp add: find_row_update get_delivery_def)
  have idle: "update_rows (replayable k) (requeue_values now) (deliveries d) = deliveries d"
    if "get_delivery d k = None \<or> (\<exists>w. get_delivery d k = Some w \<and> \<not> (whd_state w = FAILED \<and> whd_submission_id w \<noteq> None))"
  proof (rule update_rows_none)
    fix r assume r: "r \<in> set (deliveries d)"
    show "\<not> replayable k r"
    proof
      assume "replayable k r"
      then have "whd_id r = k" "whd_state r = FAILED" "whd_submission_id r \<noteq> None" by (simp_all add: replayable_def)
      with r dist have "get_delivery d k = Some r" by (simp add: get_delivery_def find_row_Some_iff)
      with that \<open>whd_state r = FAILED\<close> \<open>whd_submission_id r \<noteq> None\<close> show False by simp
    qed
  qed
  show ?thesis
  proof (cases "get_delivery d k")
    case None
    with rows found idle show ?thesis by (simp add: requeue_failed_delivery_def get_delivery_def)
  next
    case (Some w)
    then have "whd_id w = k" using find_row_SomeD [of whd_id "deliveries d" k w] by (simp add: get_delivery_def)
    with Some rows found idle show ?thesis
      by (auto simp: requeue_failed_delivery_def get_delivery_def replayable_def)
  qed
qed

lemma requeue_db_ok: "db_ok d \<Longrightarrow> db_ok (d\<lparr>deliveries := update_rows (replayable k) (requeue_values now) (deliveries d)\<rparr>)"
  by (rule update_deliveries_ok) (simp_all add: delivery_check_def terminal_states_def)

subsection \<open>Reads and secrets\<close>

text \<open>The database with every signing secret struck out. Only that there is one is left, as the table constraint asks.\<close>

definition redact_endpoint :: "endpoint \<Rightarrow> endpoint" where
  "redact_endpoint e = e\<lparr>ep_webhook_secret := map_option (\<lambda>_. []) (ep_webhook_secret e)\<rparr>"

definition redact_delivery :: "delivery \<Rightarrow> delivery" where
  "redact_delivery w = w\<lparr>whd_signing_secret := []\<rparr>"

definition redacted :: "db \<Rightarrow> db" where
  "redacted d = d\<lparr>endpoints := map redact_endpoint (endpoints d), deliveries := map redact_delivery (deliveries d)\<rparr>"

lemma redact_sel [simp]:
  "ep_id (redact_endpoint e) = ep_id e" "ep_created_at (redact_endpoint e) = ep_created_at e"
  "view_endpoint (redact_endpoint e) = view_endpoint e"
  "whd_id (redact_delivery w) = whd_id w" "whd_created_at (redact_delivery w) = whd_created_at w"
  "whd_submission_id (redact_delivery w) = whd_submission_id w"
  "view_delivery (redact_delivery w) = view_delivery w" "delivery_wanted e' st (redact_delivery w) = delivery_wanted e' st w"
  by (simp_all add: redact_endpoint_def redact_delivery_def view_endpoint_def view_delivery_def delivery_wanted_def split: option.split)

lemma insort_key_map: "insort_key k (f x) (map f xs) = map f (insort_key (\<lambda>x. k (f x)) x xs)"
  by (induction xs) simp_all

lemma sort_key_map: "sort_key k (map f xs) = map f (sort_key (\<lambda>x. k (f x)) xs)"
  by (induction xs) (simp_all add: insort_key_map)

text \<open>A page of rows that were rewritten without touching what pages are made of.\<close>

lemma page_map:
  assumes keep: "\<And>r. key (f r) = key r" "\<And>r. stamp (f r) = stamp r" "\<And>r. wanted (f r) = wanted r"
  shows "page key stamp wanted (map f rows) limit after =
    (case page key stamp wanted rows limit after of Inl e \<Rightarrow> Inl e | Inr p \<Rightarrow> Inr (map f p))"
proof -
  have rank: "page_rank key stamp = (\<lambda>r. (stamp r, key r))" by (simp add: page_rank_def fun_eq_iff)
  have desc: "order_desc (page_rank key stamp) (map f xs) = map f (order_desc (page_rank key stamp) xs)" for xs
    by (simp add: order_desc_def sort_key_map rev_map rank keep)
  have "find_row key (map f rows) c = map_option f (find_row key rows c)" for c
    by (induction rows) (simp_all add: keep)
  moreover have "page_rank key stamp (f r) = page_rank key stamp r" for r by (simp add: rank keep)
  ultimately show ?thesis
    by (auto simp: page_def page_after_def desc filter_map comp_def keep take_map split: option.splits)
qed

lemma find_row_mapped: "(\<And>r. key (f r) = key r) \<Longrightarrow> find_row key (map f rows) k = map_option f (find_row key rows k)"
  by (induction rows) simp_all

lemma endpoint_reads_redacted:
  "fst (list_endpoints_route limit cursor who (redacted d)) = fst (list_endpoints_route limit cursor who d)"
  "fst (get_endpoint_route i who (redacted d)) = fst (get_endpoint_route i who d)"
proof -
  have "list_endpoints limit cursor (redacted d) =
      (case list_endpoints limit cursor d of Inl e \<Rightarrow> Inl e | Inr p \<Rightarrow> Inr (map redact_endpoint p))"
    by (simp add: list_endpoints_def redacted_def page_map)
  then show "fst (list_endpoints_route limit cursor who (redacted d)) = fst (list_endpoints_route limit cursor who d)"
    by (simp add: list_endpoints_route_def comp_def split: sum.splits unknown_cursor.splits)
  show "fst (get_endpoint_route i who (redacted d)) = fst (get_endpoint_route i who d)"
    by (simp add: get_endpoint_route_def get_endpoint_def redacted_def find_row_mapped split: option.splits)
qed

lemma delivery_reads_redacted:
  "fst (list_deliveries_route e st limit cursor who (redacted d)) = fst (list_deliveries_route e st limit cursor who d)"
  "fst (get_delivery_route k who (redacted d)) = fst (get_delivery_route k who d)"
proof -
  have "list_deliveries limit cursor e st (redacted d) =
      (case list_deliveries limit cursor e st d of Inl x \<Rightarrow> Inl x | Inr p \<Rightarrow> Inr (map redact_delivery p))"
    by (simp add: list_deliveries_def redacted_def page_map)
  then show "fst (list_deliveries_route e st limit cursor who (redacted d)) = fst (list_deliveries_route e st limit cursor who d)"
    by (simp add: list_deliveries_route_def comp_def split: sum.splits unknown_cursor.splits)
  have "list_delivery_attempts (redacted d) k = list_delivery_attempts d k" by (simp add: list_delivery_attempts_def redacted_def)
  then show "fst (get_delivery_route k who (redacted d)) = fst (get_delivery_route k who d)"
    by (simp add: get_delivery_route_def get_delivery_def redacted_def find_row_mapped split: option.splits)
qed

text \<open>Whether a change commits does not depend on the secrets either.\<close>

lemma redacted_twice [simp]:
  "redact_endpoint (redact_endpoint e) = redact_endpoint e" "redact_delivery (redact_delivery w) = redact_delivery w"
  by (simp_all add: redact_endpoint_def redact_delivery_def option.map_comp comp_def)

lemma db_ok_redacted [simp]: "db_ok (redacted d) = db_ok d"
proof -
  have "endpoint_check (redact_endpoint e) = endpoint_check e" for e
    by (auto simp: endpoint_check_def redact_endpoint_def)
  moreover have "delivery_check (redact_delivery w) = delivery_check w" for w
    by (simp add: delivery_check_def redact_delivery_def)
  moreover have "whd_endpoint_id (redact_delivery w) = whd_endpoint_id w" for w by (simp add: redact_delivery_def)
  moreover have "List.map_filter whd_submission_id (map redact_delivery ws) = List.map_filter whd_submission_id ws" for ws
    by (simp add: List.map_filter_def comp_def filter_map)
  ultimately show ?thesis
    by (simp add: db_ok_defs redacted_def comp_def list.pred_map)
qed

lemma commit_redacted:
  assumes "redacted x = redacted y"
  shows "(commit_db x = None) = (commit_db y = None)"
proof -
  have "db_ok x = db_ok y" using arg_cong [OF assms, of db_ok] by simp
  then show ?thesis by (simp add: commit_db_def)
qed

lemma create_endpoint_redacted:
  "fst (create_endpoint i n a url secret now (redacted d)) = fst (create_endpoint i n a url secret now d)"
proof -
  let ?e = "\<lparr>ep_id = i, ep_name = n, ep_is_active = a, ep_created_at = now, ep_webhook_url = url, ep_webhook_secret = secret\<rparr>"
  have "redacted ((redacted d)\<lparr>endpoints := endpoints (redacted d) @ [?e]\<rparr>) = redacted (d\<lparr>endpoints := endpoints d @ [?e]\<rparr>)"
    by (simp add: redacted_def comp_def)
  from commit_redacted [OF this] show ?thesis
    by (auto simp: create_endpoint_def Let_def split: option.splits)
qed

lemma update_endpoint_redacted:
  fixes sc :: "pystr option"
  assumes "map_option (\<lambda>_. []) sc' = (map_option (\<lambda>_. []) sc :: pystr option)"
  shows "map_sum id (\<lambda>r. mutated r g) (fst (update_endpoint (redact_endpoint e) n a url sc' (redacted d))) =
    map_sum id (\<lambda>r. mutated r g) (fst (update_endpoint e n a url sc d))"
proof -
  let ?f = "\<lambda>s r. r\<lparr>ep_name := n, ep_is_active := a, ep_webhook_url := url, ep_webhook_secret := s\<rparr>"
  have f: "redact_endpoint (?f sc' (redact_endpoint r)) = redact_endpoint (?f sc r)" for r
    using assms by (simp add: redact_endpoint_def)
  have "redact_endpoint (if ep_id r = k then ?f sc' (redact_endpoint r) else redact_endpoint r) =
      redact_endpoint (if ep_id r = k then ?f sc r else r)" for r k
    by (simp add: f)
  then have "redacted ((redacted d)\<lparr>endpoints := update_rows (\<lambda>r. ep_id r = ep_id e) (?f sc') (endpoints (redacted d))\<rparr>) =
      redacted (d\<lparr>endpoints := update_rows (\<lambda>r. ep_id r = ep_id e) (?f sc) (endpoints d)\<rparr>)"
    by (simp add: redacted_def comp_def update_rows_def)
  note same = commit_redacted [OF this]
  have "mutated (?f sc' (redact_endpoint e)) g = mutated (?f sc e) g" by (simp add: mutated_def redact_endpoint_def)
  with same show ?thesis by (auto simp: update_endpoint_def Let_def split: option.splits)
qed

lemma endpoint_create_redacted:
  "fst (create_endpoint_route u s now hex new who (redacted d)) = fst (create_endpoint_route u s now hex new who d)"
proof -
  have insert: "fst (insert_endpoint new secret now (redacted d)) = fst (insert_endpoint new secret now d)" for secret
    using create_endpoint_redacted [of "cer_id new" "cer_name new" "cer_is_active new" "cer_webhook_url new" secret now d]
    by (auto simp: insert_endpoint_def case_prod_beta split: sum.split endpoint_error.split)
  have last: "fst (and_then (insert_endpoint new secret now) (\<lambda>e. giving (mutated e secret)) (redacted d)) =
      fst (and_then (insert_endpoint new secret now) (\<lambda>e. giving (mutated e secret)) d)" for secret
    using insert [of secret] by (auto simp: and_then_def giving_def case_prod_beta split: sum.split)
  show ?thesis
    by (auto simp: create_endpoint_route_def guarded_def raising_def and_then_def [of "giving _"] giving_def
        and_then_def [of "and_then _ _"] and_then_def [of "or_raise _"] or_raise_def last split: option.split sum.split)
qed

lemma locked_redacted:
  "get_endpoint_for_update (redacted d) i = map_sum id (map_option redact_endpoint) (get_endpoint_for_update d i)"
proof -
  have "one_or_none (map f rows) = map_sum id (map_option f) (one_or_none rows)" for f :: "endpoint \<Rightarrow> endpoint" and rows
    by (cases rows rule: one_or_none.cases) simp_all
  then show ?thesis by (simp add: get_endpoint_for_update_def redacted_def filter_map comp_def)
qed

lemma resolved_redacted:
  "case resolve_webhook u s hex p e of
     Inl err \<Rightarrow> resolve_webhook u s hex p (redact_endpoint e) = Inl err
   | Inr (url, sc, generated) \<Rightarrow> \<exists>sc'. resolve_webhook u s hex p (redact_endpoint e) = Inr (url, sc', generated) \<and>
       map_option (\<lambda>_. []) sc' = (map_option (\<lambda>_. []) sc :: pystr option)"
  by (auto simp: resolve_webhook_def redact_endpoint_def option.map_comp comp_def Let_def split: option.splits sum.splits)

lemma endpoint_update_redacted:
  "fst (update_endpoint_route u s hex i p who (redacted d)) = fst (update_endpoint_route u s hex i p who d)"
proof (cases "get_endpoint_for_update d i")
  case (Inl err)
  then show ?thesis by (simp add: update_endpoint_route_def locked_redacted)
next
  case (Inr found)
  show ?thesis
  proof (cases found)
    case None
    with Inr show ?thesis by (simp add: update_endpoint_route_def locked_redacted)
  next
    case (Some e)
    have kept: "ep_name (redact_endpoint e) = ep_name e" "ep_is_active (redact_endpoint e) = ep_is_active e"
      by (simp_all add: redact_endpoint_def)
    note resolved = resolved_redacted [of u s hex p e]
    show ?thesis
    proof (cases "resolve_webhook u s hex p e")
      case (Inl err)
      with resolved Inr Some show ?thesis by (simp add: update_endpoint_route_def locked_redacted)
    next
      case Ok: (Inr r)
      obtain url sc g where r: "r = (url, sc, g)" by (cases r)
      from resolved Ok r obtain sc' where sc': "resolve_webhook u s hex p (redact_endpoint e) = Inr (url, sc', g)"
        "map_option (\<lambda>_. []) sc' = (map_option (\<lambda>_. []) sc :: pystr option)" by auto
      show ?thesis
        using update_endpoint_redacted [OF sc'(2), of g e "given (uer_name p) (ep_name e)" "given (uer_is_active p) (ep_is_active e)" url d]
          Inr Some Ok r sc'(1)
        by (auto simp: update_endpoint_route_def locked_redacted kept case_prod_beta split: sum.splits)
    qed
  qed
qed

lemma replay_redacted: "fst (replay_delivery_route now k who (redacted d)) = fst (replay_delivery_route now k who d)"
proof -
  have rep: "replayable k (redact_delivery w) = replayable k w" for w by (simp add: replayable_def redact_delivery_def)
  have "redact_delivery (if replayable k w then requeue_values now w else w) =
      (if replayable k w then requeue_values now (redact_delivery w) else redact_delivery w)" for w
    by (simp add: redact_delivery_def requeue_values_def)
  then have "update_rows (replayable k) (requeue_values now) (deliveries (redacted d)) =
      map redact_delivery (update_rows (replayable k) (requeue_values now) (deliveries d))"
    by (simp add: update_rows_def redacted_def rep comp_def)
  moreover have "rows_matching (replayable k) (deliveries (redacted d)) = rows_matching (replayable k) (deliveries d)"
    by (simp add: rows_matching_def redacted_def filter_map comp_def rep)
  moreover have "whd_state (redact_delivery w) = whd_state w" for w by (simp add: redact_delivery_def)
  ultimately show ?thesis
    by (simp add: replay_delivery_route_def requeue_failed_delivery_def get_delivery_def find_row_mapped Let_def split: option.splits)
qed

subsection \<open>Properties\<close>

text \<open>
  C23. Only a delivery that terminally failed and still has its submission is replayed: it waits again and
  is due at once, with no attempt of the new cycle spent and no claim or completion left, keeps its count
  of attempts and everything else, and no other delivery and no other table changes. Any other request is
  answered with what the row says and changes nothing, so of two operators who replay the same failure
  the second is told that it is pending.
\<close>
theorem replay_requeues_failures:
  assumes "db_ok d" and "replay_delivery_route now k who d = (res, d')" and "\<not> contains_nul k"
  shows "db_ok d' \<and> d' = d\<lparr>deliveries := deliveries d'\<rparr> \<and> (\<forall>j. j \<noteq> k \<longrightarrow> get_delivery d' j = get_delivery d j) \<and>
    (case get_delivery d k of
       None \<Rightarrow> res = Inl (Api (delivery_not_found k)) \<and> d' = d
     | Some w \<Rightarrow>
         if whd_state w = FAILED \<and> whd_submission_id w \<noteq> None
         then \<exists>v view. get_delivery d' k = Some v \<and> res = Inr view \<and>
           v = w\<lparr>whd_state := PENDING, whd_cycle_attempts := 0, whd_next_attempt_at := now, whd_claim_expires_at := None,
             whd_claim_token := None, whd_completed_at := None\<rparr> \<and>
           dv_id view = k \<and> dv_state view = PENDING \<and> dv_attempt_count view = whd_attempts w \<and>
           dv_cycle_attempt_count view = 0 \<and> dv_next_attempt_at view = now \<and> dv_completed_at view = None \<and>
           due_condition now v \<and>
           replay_delivery_route later k who' d' = (Inl (Api (delivery_not_replayable k (lit ''pending''))), d')
         else res = Inl (Api (if whd_submission_id w = None then delivery_submission_deleted k (state_value (whd_state w))
                              else delivery_not_replayable k (state_value (whd_state w)))) \<and> d' = d)"
proof (cases "\<exists>w. get_delivery d k = Some w \<and> whd_state w = FAILED \<and> whd_submission_id w \<noteq> None")
  case False
  with assms(2,3) have d': "d' = d" and res: "res = (case get_delivery d k of None \<Rightarrow> Inl (Api (delivery_not_found k))
      | Some w \<Rightarrow> Inl (Api (if whd_submission_id w = None then delivery_submission_deleted k (state_value (whd_state w))
                           else delivery_not_replayable k (state_value (whd_state w)))))"
    by (auto simp: replay_delivery_route_def requeue_eq [OF assms(1)] split: option.splits if_splits)
  have "d = d\<lparr>deliveries := deliveries d\<rparr>" by simp
  with d' res False assms(1) show ?thesis by (cases "get_delivery d k") auto
next
  case True
  then obtain w where w: "get_delivery d k = Some w" "whd_state w = FAILED" "whd_submission_id w \<noteq> None" by blast
  have k: "whd_id w = k" using w(1) find_row_SomeD [of whd_id "deliveries d" k w] by (simp add: get_delivery_def)
  let ?d = "d\<lparr>deliveries := update_rows (replayable k) (requeue_values now) (deliveries d)\<rparr>"
  have run: "d' = ?d" "res = Inr (view_delivery (requeue_values now w))"
    using assms(2,3) w by (simp_all add: replay_delivery_route_def requeue_eq [OF assms(1)])
  have rows: "get_delivery d' j = map_option (\<lambda>v. if replayable k v then requeue_values now v else v) (get_delivery d j)" for j
    by (simp add: run(1) get_delivery_def find_row_update)
  have ok: "db_ok d'" unfolding run(1) using assms(1) by (rule requeue_db_ok)
  have row: "get_delivery d' k = Some (requeue_values now w)" using w k by (simp add: rows replayable_def)
  have others: "get_delivery d' j = get_delivery d j" if "j \<noteq> k" for j
  proof (cases "get_delivery d j")
    case (Some v)
    then have "whd_id v = j" using find_row_SomeD [of whd_id "deliveries d" j v] by (simp add: get_delivery_def)
    with Some that show ?thesis by (simp add: rows replayable_def)
  qed (simp add: rows)
  have "replay_delivery_route later k who' d' = (Inl (Api (delivery_not_replayable k (lit ''pending''))), d')"
    using w(3) assms(3) by (auto simp: replay_delivery_route_def requeue_eq [OF ok] row)
  moreover have "view_delivery (requeue_values now w) = \<lparr>dv_id = k, dv_submission_id = whd_submission_id w, dv_endpoint_id = whd_endpoint_id w,
      dv_state = PENDING, dv_destination_url = whd_destination_url w, dv_attempt_count = whd_attempts w, dv_cycle_attempt_count = 0,
      dv_next_attempt_at = now, dv_created_at = whd_created_at w, dv_completed_at = None\<rparr>"
    using k by (simp add: view_delivery_def requeue_values_def)
  moreover have "requeue_values now w = w\<lparr>whd_state := PENDING, whd_cycle_attempts := 0, whd_next_attempt_at := now,
      whd_claim_expires_at := None, whd_claim_token := None, whd_completed_at := None\<rparr>"
    by (simp add: requeue_values_def)
  moreover have "d' = d\<lparr>deliveries := deliveries d'\<rparr>" by (simp add: run(1))
  ultimately show ?thesis using ok row others w run by (simp add: due_condition_def)
qed

text \<open>The sample database after its waiting delivery failed for good.\<close>

definition failed_db :: db where
  "failed_db = sample_db\<lparr>deliveries := [waiting\<lparr>whd_state := FAILED, whd_attempts := 5, whd_cycle_attempts := 5,
     whd_completed_at := Some 2000000\<rparr>], attempt_log := []\<rparr>"

lemma failed_db_ok: "db_ok failed_db"
  by code_simp

lemma replay_requeues_failures_witness:
  "\<exists>view d' w. replay_delivery_route 3000000 (lit ''w1'') sample_principal failed_db = (Inr view, d') \<and>
     dv_state view = PENDING \<and> dv_attempt_count view = 5 \<and> dv_cycle_attempt_count view = 0 \<and>
     get_delivery d' (lit ''w1'') = Some w \<and> whd_state w = PENDING \<and> whd_cycle_attempts w = 0 \<and> whd_attempts w = 5 \<and>
     fst (replay_delivery_route 3000001 (lit ''w1'') sample_principal d') =
       Inl (Api (delivery_not_replayable (lit ''w1'') (lit ''pending'')))"
proof -
  let ?w = "waiting\<lparr>whd_state := FAILED, whd_attempts := 5, whd_cycle_attempts := 5, whd_completed_at := Some 2000000\<rparr>"
  have nul: "\<not> contains_nul (lit ''w1'')" by (simp add: contains_nul_def lit_def)
  have row: "get_delivery failed_db (lit ''w1'') = Some ?w" by (simp add: get_delivery_def failed_db_def waiting_def)
  obtain res d' where run: "replay_delivery_route 3000000 (lit ''w1'') sample_principal failed_db = (res, d')"
    by (cases "replay_delivery_route 3000000 (lit ''w1'') sample_principal failed_db")
  have "whd_submission_id waiting \<noteq> None" by (simp add: waiting_def)
  with replay_requeues_failures [OF failed_db_ok run nul, of 3000001 sample_principal] row
  have "\<exists>v view. get_delivery d' (lit ''w1'') = Some v \<and> res = Inr view \<and> whd_state v = PENDING \<and> whd_cycle_attempts v = 0 \<and>
      whd_attempts v = 5 \<and> dv_state view = PENDING \<and> dv_attempt_count view = 5 \<and> dv_cycle_attempt_count view = 0 \<and>
      replay_delivery_route 3000001 (lit ''w1'') sample_principal d' =
        (Inl (Api (delivery_not_replayable (lit ''w1'') (lit ''pending''))), d')" by auto
  with run show ?thesis by auto
qed

end
