(* ===== verification/SubmissionsApi.thy ===== *)
theory SubmissionsApi
  imports Export DeliveriesApi SubmissionStore
begin

text \<open>
  \<^verbatim>\<open>api/submission_management.py\<close>: listing, inspecting and exporting stored submissions. A time bound
  reaches the route as the client wrote it, with or without an offset. Requests of other clients run
  between counting the matches of an export and reading them: \<open>other\<close> is whatever they do to the
  database. Then what an export holds, and that no management read depends on a signing secret.
\<close>

subsection \<open>Errors\<close>

definition json_format :: pystr where "json_format = lit ''json''"
definition csv_format :: pystr where "csv_format = lit ''csv''"
definition export_formats :: "pystr list" where "export_formats = [json_format, csv_format]"

definition submission_not_found :: "pystr \<Rightarrow> api_error" where
  "submission_not_found submission_id =
     api_error_of 404 (lit ''submission_not_found'') (Some [(lit ''submission_id'', DText submission_id)])"

definition invalid_time_range :: api_error where
  "invalid_time_range =
     api_error_of 422 (lit ''invalid_time_range'')
       (Some [(lit ''fields'', DTexts [lit ''received_after'', lit ''received_before''])])"

definition unsupported_export_format :: "pystr \<Rightarrow> api_error" where
  "unsupported_export_format requested =
     api_error_of 422 (lit ''unsupported_export_format'')
       (Some [(lit ''field'', DText (lit ''format'')), (lit ''supported'', DTexts export_formats)])"

definition export_too_large :: "int \<Rightarrow> api_error" where
  "export_too_large maximum = api_error_of 422 (lit ''export_too_large'') (Some [(lit ''limit'', DCount maximum)])"

subsection \<open>Time bounds\<close>

text \<open>
  A parsed bound: with an offset it names an instant, which may lie outside the range of an aware UTC
  \<^verbatim>\<open>datetime\<close>; without one it is a wall clock reading.
\<close>

datatype query_moment = Aware time | Naive time

text \<open>\<^verbatim>\<open>after >= before\<close>, which raises when only one of them has an offset.\<close>

fun moment_not_before :: "query_moment \<Rightarrow> query_moment \<Rightarrow> raised + bool" where
  "moment_not_before (Aware a) (Aware b) = Inr (b \<le> a)"
| "moment_not_before (Naive a) (Naive b) = Inr (b \<le> a)"
| "moment_not_before _ _ = Inl Unexpected"

text \<open>
  What the column type makes of a bound when the statement is executed. It raises on a wall clock
  reading, and the database library reports that as an error of its own.
\<close>

definition process_bind_param :: "query_moment option \<Rightarrow> raised + time option" where
  "process_bind_param value =
     (case value of
        None \<Rightarrow> Inr None
      | Some (Naive t) \<Rightarrow> Inl StorageFailure
      | Some (Aware t) \<Rightarrow> if dt_min \<le> t \<and> t \<le> dt_max then Inr (Some t) else Inl StorageFailure)"

record submission_query =
  sq_endpoint_id :: "pystr option"
  sq_received_after :: "query_moment option"
  sq_received_before :: "query_moment option"

definition submission_filters :: "submission_query \<Rightarrow> raised + submission_query" where
  "submission_filters q =
     (case (sq_received_after q, sq_received_before q) of
        (Some a, Some b) \<Rightarrow>
          (case moment_not_before a b of
             Inl e \<Rightarrow> Inl e
           | Inr swapped \<Rightarrow> if swapped then Inl (Api invalid_time_range) else Inr q)
      | _ \<Rightarrow> Inr q)"

definition bound_filter :: "submission_query \<Rightarrow> raised + submission_filter" where
  "bound_filter q =
     (case process_bind_param (sq_received_after q) of
        Inl e \<Rightarrow> Inl e
      | Inr a \<Rightarrow>
          (case process_bind_param (sq_received_before q) of
             Inl e \<Rightarrow> Inl e
           | Inr b \<Rightarrow> Inr \<lparr>flt_endpoint_id = sq_endpoint_id q, flt_received_after = a, flt_received_before = b\<rparr>))"

subsection \<open>Views\<close>

record delivery_summary =
  ds_id :: pystr
  ds_state :: delivery_state
  ds_attempt_count :: int

record submission_summary =
  sv_id :: pystr
  sv_endpoint_id :: pystr
  sv_received_at :: time
  sv_field_count :: int
  sv_idempotent :: bool
  sv_delivery :: "delivery_summary option"

record submission_detail = submission_summary +
  sd_fields :: form_fields

record submission_page =
  sp_items :: "submission_summary list"
  sp_next_cursor :: "pystr option"

definition summary_of_delivery :: "delivery option \<Rightarrow> delivery_summary option" where
  "summary_of_delivery w =
     (case w of None \<Rightarrow> None
      | Some w \<Rightarrow> Some \<lparr>ds_id = whd_id w, ds_state = whd_state w, ds_attempt_count = whd_attempts w\<rparr>)"

definition summary_of :: "submission_record \<Rightarrow> submission_summary" where
  "summary_of r =
     \<lparr>sv_id = sub_id (fst r), sv_endpoint_id = sub_endpoint_id (fst r), sv_received_at = sub_received_at (fst r),
      sv_field_count = sum_list (map (\<lambda>(n, vs). int (length vs)) (sub_fields (fst r))),
      sv_idempotent = (sub_idempotency_key (fst r) \<noteq> None), sv_delivery = summary_of_delivery (snd r)\<rparr>"

definition exportable :: "submission_row \<Rightarrow> exported_submission" where
  "exportable s =
     \<lparr>xs_id = sub_id s, xs_endpoint_id = sub_endpoint_id s, xs_received_at = sub_received_at s, xs_fields = sub_fields s\<rparr>"

subsection \<open>Listing and inspecting\<close>

text \<open>The cursor is looked up before the statement that carries the bounds is executed.\<close>

definition list_submissions_route ::
  "submission_query \<Rightarrow> nat \<Rightarrow> pystr option \<Rightarrow> principal \<Rightarrow> (db, submission_page) handler" where
  "list_submissions_route query limit cursor who d =
     (case submission_filters query of
        Inl e \<Rightarrow> (Inl e, d)
      | Inr q \<Rightarrow>
          if (case cursor of None \<Rightarrow> False | Some c \<Rightarrow> find_row sub_id (submissions d) c = None)
          then (Inl (Api invalid_cursor), d)
          else (case bound_filter q of
                  Inl e \<Rightarrow> (Inl e, d)
                | Inr f \<Rightarrow>
                    (case list_submissions f limit cursor d of
                       Inl (UnknownCursor c) \<Rightarrow> (Inl (Api invalid_cursor), d)
                     | Inr rows \<Rightarrow>
                         (Inr \<lparr>sp_items = map summary_of rows,
                               sp_next_cursor = next_cursor (map (\<lambda>r. sub_id (fst r)) rows) limit\<rparr>, d))))"

definition get_submission_route :: "pystr \<Rightarrow> principal \<Rightarrow> (db, submission_detail) handler" where
  "get_submission_route submission_id who d =
     (if contains_nul submission_id then (Inl (Api (submission_not_found submission_id)), d)
      else (case get_submission d submission_id of
              None \<Rightarrow> (Inl (Api (submission_not_found submission_id)), d)
            | Some r \<Rightarrow>
                (Inr (submission_summary.extend (summary_of r) \<lparr>sd_fields = sub_fields (fst r)\<rparr>), d)))"

subsection \<open>Exporting\<close>

text \<open>The body of a response is its text, in the pieces it is sent in.\<close>

record export_response =
  xr_media_type :: pystr
  xr_disposition :: pystr
  xr_body :: "pystr list"

definition json_export :: "submission_filter \<Rightarrow> nat \<Rightarrow> time \<Rightarrow> db \<Rightarrow> export_response" where
  "json_export f maximum now d =
     \<lparr>xr_media_type = json_media_type, xr_disposition = content_disposition (export_filename json_format now),
      xr_body = json_document (map exportable (stream_submissions f maximum d))\<rparr>"

text \<open>The CSV is encoded as a whole, which fails on a lone surrogate; the JSON is ASCII.\<close>

definition csv_export :: "submission_filter \<Rightarrow> nat \<Rightarrow> time \<Rightarrow> db \<Rightarrow> raised + export_response" where
  "csv_export f maximum now d =
     (let document = csv_document (map exportable (stream_submissions f maximum d))
      in case utf8_encode document of
           Inl e \<Rightarrow> Inl (raised_exn e)
         | Inr b \<Rightarrow>
             Inr \<lparr>xr_media_type = csv_media_type, xr_disposition = content_disposition (export_filename csv_format now),
                  xr_body = [document]\<rparr>)"

definition chosen_format :: "pystr option \<Rightarrow> pystr" where
  "chosen_format requested = py_lower (case requested of None \<Rightarrow> json_format | Some f \<Rightarrow> if f = [] then json_format else f)"

definition export_submissions_route ::
  "(db \<Rightarrow> db) \<Rightarrow> settings \<Rightarrow> time \<Rightarrow> submission_query \<Rightarrow> pystr option \<Rightarrow> principal \<Rightarrow> (db, export_response) handler" where
  "export_submissions_route other s now query requested who d =
     (if chosen_format requested \<notin> set export_formats
      then (Inl (Api (unsupported_export_format (chosen_format requested))), d)
      else (case submission_filters query of
              Inl e \<Rightarrow> (Inl e, d)
            | Inr q \<Rightarrow>
                (case bound_filter q of
                   Inl e \<Rightarrow> (Inl e, d)
                 | Inr f \<Rightarrow>
                     (let maximum = cfg_export_max_submissions s
                      in if maximum < int (count_submissions f (nat (maximum + 1)) d)
                         then (Inl (Api (export_too_large maximum)), d)
                         else if chosen_format requested = csv_format
                         then (csv_export f (nat maximum) now (other d), other d)
                         else (Inr (json_export f (nat maximum) now (other d)), other d)))))"

subsection \<open>Properties\<close>

text \<open>Everything a filter matches, newest first.\<close>

definition matching :: "submission_filter \<Rightarrow> db \<Rightarrow> submission_row list" where
  "matching f d = order_desc received_rank (filter (narrowed f) (submissions d))"

lemma length_matching: "length (matching f d) = length (filter (narrowed f) (submissions d))"
  by (simp add: matching_def)

lemma stream_matching: "stream_submissions f n d = take n (matching f d)"
  by (simp add: stream_submissions_def matching_def)

lemma count_exceeds: "0 \<le> m \<Longrightarrow> m < int (count_submissions f (nat (m + 1)) d) \<longleftrightarrow> m < int (length (matching f d))"
  by (auto simp: count_submissions_def length_matching min_def)

text \<open>
  C20. An export is the whole of what its filter matches or an error, as long as no submission arrives
  while it is made: a filter with more matches than the maximum is refused, and otherwise the JSON body
  is one object that lists every match, newest first. Submissions that arrive between the count and the
  reading can push the matches over the maximum, and then the oldest are left out without a word.
\<close>
theorem export_complete_or_refused:
  assumes "submission_filters query = Inr q" and "bound_filter q = Inr f" and "chosen_format requested = json_format"
    and "0 \<le> cfg_export_max_submissions s"
  shows "export_submissions_route other s now query requested who d =
      (if cfg_export_max_submissions s < int (length (matching f d))
       then (Inl (Api (export_too_large (cfg_export_max_submissions s))), d)
       else (Inr (json_export f (nat (cfg_export_max_submissions s)) now (other d)), other d)) \<and>
    concat (xr_body (json_export f (nat (cfg_export_max_submissions s)) now (other d))) =
      dumps True (JObj [(lit ''submissions'',
        JArr (map (\<lambda>r. as_object (exportable r)) (take (nat (cfg_export_max_submissions s)) (matching f (other d)))))]) \<and>
    (take (nat (cfg_export_max_submissions s)) (matching f (other d)) = matching f (other d) \<longleftrightarrow>
      int (length (matching f (other d))) \<le> cfg_export_max_submissions s)"
proof (intro conjI)
  let ?m = "cfg_export_max_submissions s"
  have "json_format \<noteq> csv_format" "json_format \<in> set export_formats"
    by (simp_all add: json_format_def csv_format_def export_formats_def lit_def)
  with assms show "export_submissions_route other s now query requested who d =
      (if ?m < int (length (matching f d)) then (Inl (Api (export_too_large ?m)), d)
       else (Inr (json_export f (nat ?m) now (other d)), other d))"
    by (simp add: export_submissions_route_def Let_def count_exceeds)
  show "concat (xr_body (json_export f (nat ?m) now (other d))) =
      dumps True (JObj [(lit ''submissions'', JArr (map (\<lambda>r. as_object (exportable r)) (take (nat ?m) (matching f (other d)))))])"
    unfolding json_export_def export_response.simps json_document_whole stream_matching by (simp add: comp_def)
  have "take (nat ?m) xs = xs \<longleftrightarrow> int (length xs) \<le> ?m" for xs :: "submission_row list"
    using assms(4) by (auto dest: arg_cong [of _ _ length])
  then show "take (nat ?m) (matching f (other d)) = matching f (other d) \<longleftrightarrow> int (length (matching f (other d))) \<le> ?m" .
qed

text \<open>A submission that arrives while an export that just fits is being made.\<close>

definition arriving :: "db \<Rightarrow> db" where
  "arriving d = d\<lparr>submissions := submissions d @ [from_domain (hello\<lparr>sub_id := lit ''s3'', sub_received_at := 3000000\<rparr>) None None]\<rparr>"

definition unbounded_query :: submission_query where
  "unbounded_query = \<lparr>sq_endpoint_id = None, sq_received_after = None, sq_received_before = None\<rparr>"

lemma export_complete_or_refused_witness:
  "\<exists>f r. export_submissions_route arriving ((default_settings [])\<lparr>cfg_export_max_submissions := 3\<rparr>) 0 unbounded_query None
      sample_principal sample_db = (Inr r, arriving sample_db) \<and>
    concat (xr_body r) = dumps True (JObj [(lit ''submissions'',
      JArr (map (\<lambda>r. as_object (exportable r)) (take 3 (matching f (arriving sample_db)))))]) \<and>
    take 3 (matching f (arriving sample_db)) \<noteq> matching f (arriving sample_db)"
proof -
  let ?f = "\<lparr>flt_endpoint_id = None, flt_received_after = None, flt_received_before = None\<rparr>"
  let ?s = "(default_settings [])\<lparr>cfg_export_max_submissions := 3\<rparr>"
  have q: "submission_filters unbounded_query = Inr unbounded_query" "bound_filter unbounded_query = Inr ?f"
    "chosen_format None = json_format"
    by (simp_all add: submission_filters_def bound_filter_def unbounded_query_def process_bind_param_def chosen_format_def)
      (simp add: json_format_def lit_def py_lower_def lower_char_def is_upper_def)
  have n: "length (matching ?f sample_db) = 3" "length (matching ?f (arriving sample_db)) = 4" by code_simp+
  have "0 \<le> cfg_export_max_submissions ?s" by simp
  from export_complete_or_refused [OF q this, of arriving 0 sample_principal sample_db] n
  have "export_submissions_route arriving ?s 0 unbounded_query None sample_principal sample_db =
      (Inr (json_export ?f 3 0 (arriving sample_db)), arriving sample_db)"
    "concat (xr_body (json_export ?f 3 0 (arriving sample_db))) = dumps True (JObj [(lit ''submissions'',
      JArr (map (\<lambda>r. as_object (exportable r)) (take 3 (matching ?f (arriving sample_db)))))])"
    "take 3 (matching ?f (arriving sample_db)) \<noteq> matching ?f (arriving sample_db)" by simp_all
  then show ?thesis by blast
qed

text \<open>A wall clock reading as a bound is accepted by validation and answered as an outage or a fault.\<close>

lemma naive_bounds_misreported:
  "list_submissions_route (unbounded_query\<lparr>sq_received_after := Some (Naive t)\<rparr>) limit None who d = (Inl StorageFailure, d)"
  "list_submissions_route (unbounded_query\<lparr>sq_received_after := Some (Naive t), sq_received_before := Some (Aware u)\<rparr>) limit None who d =
     (Inl Unexpected, d)"
  "ans_status (answer StorageFailure) = 503" "ans_status (answer Unexpected) = 500"
  by (simp_all add: list_submissions_route_def unbounded_query_def submission_filters_def bound_filter_def process_bind_param_def
      handle_storage_error_def handle_unexpected_error_def error_response_def)

lemma owed_redacted: "owed_delivery (redacted d) s = map_option redact_delivery (owed_delivery d s)"
proof -
  have "find (\<lambda>w. whd_submission_id w = k) (map redact_delivery ws) = map_option redact_delivery (find (\<lambda>w. whd_submission_id w = k) ws)"
    for k ws by (induction ws) simp_all
  then show ?thesis by (simp add: owed_delivery_def redacted_def)
qed

lemma summary_redacted: "summary_of (s, map_option redact_delivery w) = summary_of (s, w)"
  by (cases w) (simp_all add: summary_of_def summary_of_delivery_def redact_delivery_def)

lemma redacted_submissions [simp]: "submissions (redacted d) = submissions d"
  by (simp add: redacted_def)

lemma submission_reads_redacted:
  "fst (list_submissions_route query limit cursor who (redacted d)) = fst (list_submissions_route query limit cursor who d)"
  "fst (get_submission_route i who (redacted d)) = fst (get_submission_route i who d)"
  "fst (export_submissions_route (\<lambda>_. redacted d') s now query requested who (redacted d)) =
   fst (export_submissions_route (\<lambda>_. d') s now query requested who d)"
proof -
  show "fst (list_submissions_route query limit cursor who (redacted d)) = fst (list_submissions_route query limit cursor who d)"
    by (auto simp: list_submissions_route_def list_submissions_def owed_redacted summary_redacted comp_def
        split: sum.splits option.splits unknown_cursor.splits)
  show "fst (get_submission_route i who (redacted d)) = fst (get_submission_route i who d)"
    by (auto simp: get_submission_route_def get_submission_def owed_redacted summary_redacted split: option.splits)
  show "fst (export_submissions_route (\<lambda>_. redacted d') s now query requested who (redacted d)) =
      fst (export_submissions_route (\<lambda>_. d') s now query requested who d)"
    by (simp add: export_submissions_route_def count_submissions_def csv_export_def json_export_def stream_submissions_def Let_def
        split: sum.splits)
qed

text \<open>A secret in an answer.\<close>

lemma answered_secret:
  "fst (create_endpoint_route u s now hex new who d) = Inr r \<Longrightarrow>
   er_webhook_secret r = map_option (\<lambda>_. new_signing_secret hex) (cer_webhook_url new)"
  "fst (update_endpoint_route u s hex i p who d) = Inr r \<Longrightarrow> er_webhook_secret r \<in> {None, Some (new_signing_secret hex)}"
proof -
  show "er_webhook_secret r = map_option (\<lambda>_. new_signing_secret hex) (cer_webhook_url new)"
    if "fst (create_endpoint_route u s now hex new who d) = Inr r"
    using that by (auto simp: create_endpoint_route_def guarded_def raising_def and_then_def giving_def or_raise_def mutated_def
        split: option.splits sum.splits if_splits prod.splits)
  show "er_webhook_secret r \<in> {None, Some (new_signing_secret hex)}"
    if "fst (update_endpoint_route u s hex i p who d) = Inr r"
    using that by (auto simp: update_endpoint_route_def resolve_webhook_def Let_def mutated_def
        split: option.splits sum.splits if_splits prod.splits)
qed

text \<open>
  C22. What the management API answers does not depend on any signing secret that is stored. Every route of
  it, the seven that read and the three that change something, gives the same answer on every request when the
  secrets of all endpoints and deliveries are struck out of the database (for the export, out of what it counts and
  of what it then reads). The only secret in any answer is that of creating or changing an endpoint, and it is
  the one generated for that very request, and no other one.
\<close>
theorem reads_hide_secrets:
  "fst (list_endpoints_route limit cursor who (redacted d)) = fst (list_endpoints_route limit cursor who d) \<and>
   fst (get_endpoint_route i who (redacted d)) = fst (get_endpoint_route i who d) \<and>
   fst (list_deliveries_route e st limit cursor who (redacted d)) = fst (list_deliveries_route e st limit cursor who d) \<and>
   fst (get_delivery_route k who (redacted d)) = fst (get_delivery_route k who d) \<and>
   fst (list_submissions_route query limit cursor who (redacted d)) = fst (list_submissions_route query limit cursor who d) \<and>
   fst (get_submission_route j who (redacted d)) = fst (get_submission_route j who d) \<and>
   fst (export_submissions_route (\<lambda>_. redacted d') s now query requested who (redacted d)) =
     fst (export_submissions_route (\<lambda>_. d') s now query requested who d) \<and>
   fst (replay_delivery_route now k who (redacted d)) = fst (replay_delivery_route now k who d) \<and>
   fst (create_endpoint_route u s now hex new who (redacted d)) = fst (create_endpoint_route u s now hex new who d) \<and>
   fst (update_endpoint_route u s hex i p who (redacted d)) = fst (update_endpoint_route u s hex i p who d) \<and>
   (case fst (create_endpoint_route u s now hex new who d) of
      Inl err \<Rightarrow> True
    | Inr r \<Rightarrow> er_webhook_secret r = map_option (\<lambda>_. new_signing_secret hex) (cer_webhook_url new)) \<and>
   (case fst (update_endpoint_route u s hex i p who d) of
      Inl err \<Rightarrow> True
    | Inr r \<Rightarrow> er_webhook_secret r \<in> {None, Some (new_signing_secret hex)})"
  by (intro conjI endpoint_reads_redacted delivery_reads_redacted submission_reads_redacted
      replay_redacted endpoint_create_redacted endpoint_update_redacted)
    (auto split: sum.split dest: answered_secret)

end
