(* ===== verification/Encodable.thy ===== *)
theory Encodable
  imports Webhooks
begin

text \<open>
  Which payloads can be encoded: JSON text adds only ASCII to the characters of the values it is made
  of, so a payload can be serialised exactly when none of its own text is a lone surrogate.
\<close>

fun json_text :: "json \<Rightarrow> nat set" where
  "json_text (JStr s) = set s"
| "json_text (JArr xs) = (\<Union>x\<in>set xs. json_text x)"
| "json_text (JObj ps) = (\<Union>(k, v)\<in>set ps. set k \<union> json_text v)"

lemma esc_char_text: "c \<in> set (esc_char n) \<Longrightarrow> c < 128 \<or> c = n"
  by (auto simp: esc_char_def dest: u_escape_ascii short_escape_ascii split: option.splits if_splits)

lemma quote_text: "c \<in> set (quote False s) \<Longrightarrow> c < 128 \<or> c \<in> set s"
  by (auto simp: quote_def dest: esc_char_text)

lemma dumps_text: "c \<in> set (dumps False j) \<Longrightarrow> c < 128 \<or> c \<in> json_text j"
proof (induction j)
  case (JStr s)
  then show ?case using quote_text [of c s] by simp
next
  case (JArr xs)
  then show ?case using set_commas [of "map (dumps False) xs"] by auto
next
  case (JObj ps)
  from JObj.prems consider "c < 128" | k v where "(k, v) \<in> set ps" "c \<in> set (quote False k @ 58 # dumps False v)"
    using set_commas [of "map (\<lambda>(k, v). quote False k @ 58 # dumps False v) ps"] by auto
  then show ?case
  proof cases
    case 2
    then consider "c \<in> set (quote False k)" | "c < 128" | "c \<in> set (dumps False v)" by auto
    then show ?thesis
    proof cases
      case 1
      with quote_text [of c k] 2 show ?thesis by force
    next
      case 3
      with JObj.IH [of "(k, v)" v] 2 show ?thesis by force
    qed simp
  qed simp
qed

text \<open>A submission whose text UTF-8 can carry, and that its payload then can be sent.\<close>

definition clean :: "pystr \<Rightarrow> bool" where
  "clean s \<longleftrightarrow> (\<forall>c\<in>set s. \<not> is_surrogate c)"

definition clean_submission :: "submission \<Rightarrow> bool" where
  "clean_submission s \<longleftrightarrow> clean (sub_id s) \<and> clean (sub_endpoint_id s) \<and>
     (\<forall>(n, vs)\<in>set (sub_fields s). clean n \<and> (\<forall>v\<in>set vs. clean v))"

lemma ascii_clean: "(\<forall>c\<in>set s. c < 128) \<Longrightarrow> clean s"
  by (auto simp: clean_def is_surrogate_def)

lemma rfc3339_clean: "clean (rfc3339 t)"
proof (rule ascii_clean, rule ballI)
  have digits: "c < 128" if "c \<in> set (decimal n)" for c n using decimal_digits [OF that] by (simp add: is_digit_def)
  have dec: "c < 128" if "c \<in> set (dec2 n) \<or> c \<in> set (dec4 n) \<or> c \<in> set (dec6 n)" for c n
    using that digits by (auto simp: dec2_def dec4_def dec6_def zfill_def)
  fix c assume "c \<in> set (rfc3339 t)"
  then show "c < 128"
    using dec by (auto simp: rfc3339_Z iso_date_def iso_clock_def lit_def Let_def split: prod.splits if_splits)
qed

lemma serialize_clean:
  assumes "clean_submission s"
  shows "\<exists>body. serialize_payload (build_payload s) = Inr body"
proof -
  have "\<not> is_surrogate c" if "c \<in> json_text (build_payload s)" for c
    using that assms rfc3339_clean [of "sub_received_at s"]
    by (fastforce simp: build_payload_def clean_submission_def clean_def JStrs_def lit_def is_surrogate_def)
  then have "\<forall>c\<in>set (dumps False (build_payload s)). \<not> is_surrogate c"
    using dumps_text by (fastforce simp: is_surrogate_def)
  then show ?thesis unfolding serialize_payload_def utf8_encode_Inr_iff .
qed

text \<open>A surrogate in a value is what makes a payload impossible to send.\<close>

lemma surrogate_kept: "is_surrogate c \<Longrightarrow> c \<in> set s \<Longrightarrow> c \<in> set (quote False s)"
proof -
  assume "is_surrogate c" "c \<in> set s"
  then have "esc_char c = [c]" by (simp add: esc_char_def short_escape_def is_surrogate_def)
  with \<open>c \<in> set s\<close> show ?thesis by (force simp: quote_def)
qed

lemma commas_keep: "x \<in> set xs \<Longrightarrow> set x \<subseteq> set (commas xs)"
  by (induction xs rule: commas.induct) auto

lemma dumps_surrogate: "is_surrogate c \<Longrightarrow> c \<in> json_text j \<Longrightarrow> c \<in> set (dumps False j)"
proof (induction j)
  case (JStr s)
  then show ?case by (simp add: surrogate_kept)
next
  case (JArr xs)
  then show ?case using commas_keep [of _ "map (dumps False) xs"] by fastforce
next
  case (JObj ps)
  then obtain k v where kv: "(k, v) \<in> set ps" "c \<in> set k \<or> c \<in> json_text v" by auto
  with JObj have "c \<in> set (quote False k @ 58 # dumps False v)" using surrogate_kept by fastforce
  moreover have "quote False k @ 58 # dumps False v \<in> set (map (\<lambda>(k, v). quote False k @ 58 # dumps False v) ps)" using kv(1) by force
  ultimately show ?case using commas_keep by fastforce
qed

lemma serialize_surrogate:
  assumes "(n, vs) \<in> set (sub_fields s)" "v \<in> set vs" "\<not> clean v"
  shows "serialize_payload (build_payload s) = Inl UnicodeEncodeError"
proof -
  from assms(3) obtain c where c: "is_surrogate c" "c \<in> set v" by (auto simp: clean_def)
  have "c \<in> json_text (build_payload s)" using assms(1,2) c(2) by (force simp: build_payload_def JStrs_def)
  from dumps_surrogate [OF c(1) this] c(1) show ?thesis
    by (auto simp: serialize_payload_def utf8_encode_def list_ex_iff)
qed

end
