(* ===== verification/Worker.thy ===== *)
theory Worker
  imports Delivery DeliveryTheorems Encodable Schema
begin

text \<open>
  \<^verbatim>\<open>worker.py\<close>: one batch of the delivery worker, which claims what is due, sends it and records what
  happened, and the loop around it. Each storage operation of a batch is a transaction of its own;
  \<open>other i\<close> is whatever the API and the other workers do to the database before the i-th of them. The
  requests overlap, and a request touches no database, so their order does not matter.
\<close>

subsection \<open>A batch\<close>

text \<open>What one batch meets: locked rows, random parts, the answers of the client, and other processes.\<close>

record batch_env =
  be_visible :: "pystr \<Rightarrow> bool"
  be_claim_hex :: "nat \<Rightarrow> pystr"
  be_attempt_hex :: "nat \<Rightarrow> pystr"
  be_send :: "outbound_request \<Rightarrow> client_answer"
  be_other :: "nat \<Rightarrow> db \<Rightarrow> db"

text \<open>What it did: how many deliveries it attempted, the outcome of each and how recording it went.\<close>

record batch_report =
  br_handled :: nat
  br_results :: "(delivery \<times> delivery_result) list"
  br_recorded :: "(py_exn + completed_attempt) list"

definition unexpected_failure :: pystr where
  "unexpected_failure = lit ''could not send: the attempt failed unexpectedly, see the worker log''"

definition attempt_once :: "(outbound_request \<Rightarrow> client_answer) \<Rightarrow> delivery \<Rightarrow> bytes \<Rightarrow> rat \<Rightarrow> delivery_result" where
  "attempt_once send job body deadline =
     (case deliver send (whd_destination_url job) (whd_signing_secret job) body deadline of
        Inl e \<Rightarrow> \<lparr>outcome = NETWORK_ERROR, response_status = None, error_text = Some unexpected_failure\<rparr>
      | Inr r \<Rightarrow> r)"

text \<open>Every payload is built and serialised before the first request goes out.\<close>

fun job_bodies :: "(pystr \<times> submission) list \<Rightarrow> delivery list \<Rightarrow> py_exn + bytes list" where
  "job_bodies subs [] = Inr []"
| "job_bodies subs (job # jobs) =
     (case map_of subs (whd_id job) of
        None \<Rightarrow> Inl (KeyError (whd_id job))
      | Some sub \<Rightarrow>
          (case serialize_payload (build_payload sub) of
             Inl e \<Rightarrow> Inl e
           | Inr body \<Rightarrow> (case job_bodies subs jobs of Inl e \<Rightarrow> Inl e | Inr bodies \<Rightarrow> Inr (body # bodies))))"

text \<open>An attempt that cannot be recorded is rolled back and left claimed; the others go on.\<close>

fun record_attempts ::
  "batch_env \<Rightarrow> retry_policy \<Rightarrow> time \<Rightarrow> nat \<Rightarrow> (delivery \<times> delivery_result) list \<Rightarrow> db
     \<Rightarrow> (py_exn + completed_attempt) list \<times> db" where
  "record_attempts env p now i [] d = ([], d)"
| "record_attempts env p now i ((job, r) # rest) d =
     (let (res, d1) = complete_attempt (be_attempt_hex env i) job r now p (whd_claim_token job) (be_other env (Suc i) d);
          (recorded, d2) = record_attempts env p now (Suc i) rest d1
      in (res # recorded, d2))"

definition process_batch :: "batch_env \<Rightarrow> settings \<Rightarrow> time \<Rightarrow> db \<Rightarrow> (py_exn + batch_report) \<times> db" where
  "process_batch env s now d =
     (case claim_due_deliveries (be_visible env) (be_claim_hex env) now (cfg_worker_lease_seconds s)
             (nat (cfg_worker_batch_size s)) d of
        (Inl e, d1) \<Rightarrow> (Inl e, d1)
      | (Inr claimed, d1) \<Rightarrow>
          if claimed = [] then (Inr \<lparr>br_handled = 0, br_results = [], br_recorded = []\<rparr>, d1)
          else
            (let d2 = be_other env 0 d1
             in case load_submissions d2 claimed of
                  Inl e \<Rightarrow> (Inl e, d2)
                | Inr subs \<Rightarrow>
                    (case job_bodies subs claimed of
                       Inl e \<Rightarrow> (Inl e, d2)
                     | Inr bodies \<Rightarrow>
                         (let deadline = attempt_deadline_seconds s;
                              results = map (\<lambda>(job, body). (job, attempt_once (be_send env) job body deadline)) (zip claimed bodies);
                              (recorded, d3) = record_attempts env (settings_retry_policy s) now 0 results d2
                          in (Inr \<lparr>br_handled = length claimed, br_results = results, br_recorded = recorded\<rparr>, d3)))))"

subsection \<open>The loop\<close>

text \<open>
  A tick opens a session, runs a batch and survives whatever it raises. After a tick that handled
  nothing the worker waits for the poll interval, or less when it is asked to stop.
\<close>

definition tick :: "batch_env \<Rightarrow> settings \<Rightarrow> time \<Rightarrow> db \<Rightarrow> nat \<times> db" where
  "tick env s now d =
     (case process_batch env s now d of
        (Inl e, d') \<Rightarrow> (0, d')
      | (Inr rep, d') \<Rightarrow> (br_handled rep, d'))"

text \<open>
  The loop for as long as \<open>stop\<close> is not set, at most \<open>n\<close> ticks: tick \<open>k\<close> runs at \<open>clock k\<close> in \<open>env k\<close>.
  The result lists what each tick handled and whether the worker then waited.
\<close>

primrec run_loop ::
  "(nat \<Rightarrow> bool) \<Rightarrow> (nat \<Rightarrow> batch_env) \<Rightarrow> (nat \<Rightarrow> time) \<Rightarrow> settings \<Rightarrow> nat \<Rightarrow> nat \<Rightarrow> db \<Rightarrow> (nat \<times> bool) list \<times> db" where
  "run_loop stop env clock s 0 k d = ([], d)"
| "run_loop stop env clock s (Suc n) k d =
     (if stop k then ([], d)
      else
        (let (handled, d1) = tick (env k) s (clock k) d;
             (rest, d2) = run_loop stop env clock s n (Suc k) d1
         in ((handled, handled = 0) # rest, d2)))"

text \<open>
  \<^verbatim>\<open>run_worker\<close> checks the schema before it asks for work, and \<^verbatim>\<open>main\<close> turns a schema that is not ready
  into the exit code 1; an error of the database library leaves the process with its traceback.
\<close>

definition run_worker ::
  "(nat \<Rightarrow> bool) \<Rightarrow> pystr option \<Rightarrow> pystr + pystr option \<Rightarrow> (nat \<Rightarrow> bool) \<Rightarrow> (nat \<Rightarrow> batch_env) \<Rightarrow> (nat \<Rightarrow> time)
     \<Rightarrow> settings \<Rightarrow> nat \<Rightarrow> db \<Rightarrow> (schema_failure + (nat \<times> bool) list) \<times> db" where
  "run_worker printable shipped current stop env clock s n d =
     (case verify_schema printable shipped current of
        Inl e \<Rightarrow> (Inl e, d)
      | Inr _ \<Rightarrow> (let (ticks, d') = run_loop stop env clock s n 0 d in (Inr ticks, d')))"

definition worker_exit :: "schema_failure + (nat \<times> bool) list \<Rightarrow> pystr + int" where
  "worker_exit result =
     (case result of
        Inl (NotReady e) \<Rightarrow> Inr 1
      | Inl (Unusable text) \<Rightarrow> Inl text
      | Inr ticks \<Rightarrow> Inr 0)"

text \<open>A worker built for another revision claims nothing.\<close>

lemma worker_needs_its_schema:
  assumes "run_worker printable shipped current stop env clock s n d = (res, d')"
  shows "(\<exists>ticks head. res = Inr ticks \<and> shipped = Some head \<and> current = Inr (Some head)) \<or>
    d' = d \<and> (\<exists>e. res = Inl e \<and> worker_exit res \<noteq> Inr 0)"
proof (cases "verify_schema printable shipped current")
  case (Inl e)
  with assms show ?thesis by (cases e) (auto simp: run_worker_def worker_exit_def)
next
  case (Inr u)
  with assms verify_schema_Inr [of printable shipped current] show ?thesis
    by (auto simp: run_worker_def split: prod.splits)
qed

subsection \<open>Facts about a batch\<close>

lemma new_attempt_id_inj: "new_delivery_attempt_id a = new_delivery_attempt_id b \<Longrightarrow> a = b"
  by (simp add: new_delivery_attempt_id_def)

lemma delivery_refers:
  assumes "outbox_inv d" "get_delivery d k = Some w"
  shows "refers_to (map sub_id (submissions d)) (whd_submission_id w)"
proof -
  have "w \<in> set (deliveries d)" using find_row_SomeD [of whd_id "deliveries d" k w] assms(2) by (simp add: get_delivery_def)
  with assms(1) show ?thesis by (auto simp: outbox_inv_def db_ok_defs list_all_iff)
qed

text \<open>The settings the retry schedule stays within the calendar with.\<close>

definition schedule_fits :: "settings \<Rightarrow> time \<Rightarrow> bool" where
  "schedule_fits s now \<longleftrightarrow>
     settings_ok s \<and> cfg_webhook_retry_max_seconds s \<le> timedelta_cap \<and> cfg_webhook_max_attempts s \<le> 1024 \<and>
     dt_min \<le> now \<and> now + round_half_even (cfg_webhook_retry_max_seconds s * 1000000) \<le> dt_max"

lemma retry_representable:
  assumes "schedule_fits s now" "1 \<le> n" "n < cfg_webhook_max_attempts s"
  shows "\<exists>delay t. delay_after (settings_retry_policy s) n = Inr delay \<and> dt_add now delay = Inr t"
proof -
  let ?p = "settings_retry_policy s"
  let ?x = "min (initial_seconds ?p * 2 ^ nat (max (n - 1) 0)) (max_seconds ?p)"
  have pos: "0 < initial_seconds ?p" "0 < max_seconds ?p" and cap: "max_seconds ?p \<le> timedelta_cap"
    using assms(1) by (simp_all add: schedule_fits_def settings_ok_def settings_retry_policy_def)
  then have "0 \<le> ?x" "?x \<le> timedelta_cap" by (auto simp: min_le_iff_disj)
  note total = timedelta_seconds_total [OF this]
  have "nat (max (n - 1) 0) < 1024" using assms by (auto simp: schedule_fits_def)
  then have d: "delay_after ?p n = Inr (round_half_even (?x * 1000000))" by (simp add: delay_after_def Let_def total)
  have "0 \<le> round_half_even (?x * 1000000)" "round_half_even (?x * 1000000) \<le> round_half_even (max_seconds ?p * 1000000)"
    using delay_after_nonneg [OF d] delay_after_cap [OF d] pos by simp_all
  then have "dt_min \<le> now + round_half_even (?x * 1000000)" "now + round_half_even (?x * 1000000) \<le> dt_max"
    using assms(1) by (simp_all add: schedule_fits_def settings_retry_policy_def)
  with d show ?thesis by (auto simp: dt_add_def)
qed

text \<open>The row a recorded attempt leaves.\<close>

definition settled :: "retry_policy \<Rightarrow> time \<Rightarrow> delivery \<Rightarrow> delivery_result \<Rightarrow> delivery" where
  "settled p now job r =
     (let n = whd_cycle_attempts job + 1; st = verdict r p n
      in job\<lparr>whd_attempts := whd_attempts job + 1, whd_state := st, whd_cycle_attempts := n,
           whd_next_attempt_at := next_due st p n now (whd_next_attempt_at job), whd_claim_expires_at := None,
           whd_claim_token := None, whd_completed_at := (if st = PENDING then None else Some now)\<rparr>)"

lemma record_one:
  assumes inv: "outbox_inv d" and row: "get_delivery d (whd_id job) = Some job" and tok: "whd_claim_token job = Some t"
    and fits: "schedule_fits s now" and fresh: "new_delivery_attempt_id hex \<notin> att_id ` set (attempt_log d)"
  obtains c d' where "complete_attempt hex job r now (settings_retry_policy s) (whd_claim_token job) d = (Inr c, d')"
    "ca_owned c" "outbox_inv d'" "get_delivery d' (whd_id job) = Some (settled (settings_retry_policy s) now job r)"
    "\<forall>k. k \<noteq> whd_id job \<longrightarrow> get_delivery d' k = get_delivery d k"
    "att_id ` set (attempt_log d') = insert (new_delivery_attempt_id hex) (att_id ` set (attempt_log d))"
proof -
  let ?p = "settings_retry_policy s"
  have "delivery_wf job" using inv row by (auto simp: get_delivery_def dest: outbox_inv_wf)
  then have pos: "1 \<le> whd_cycle_attempts job + 1" by (simp add: delivery_wf_def)
  have "verdict r ?p (whd_cycle_attempts job + 1) = PENDING \<longrightarrow> whd_cycle_attempts job + 1 < cfg_webhook_max_attempts s"
    by (auto simp: verdict_def is_exhausted_def settings_retry_policy_def split: if_splits)
  with retry_representable [OF fits pos] obtain c d' where
    run: "complete_attempt hex job r now ?p (Some t) d = (Inr c, d')"
    using complete_attempt_returns [OF inv row fresh delivery_refers [OF inv row], of "Some t" r ?p now] by blast
  note o = owned_completion [OF inv row tok run]
  have "outbox_inv d'" using complete_attempt_inv [OF inv run] .
  moreover have "get_delivery d' (whd_id job) = Some (settled ?p now job r)" using o by (simp add: settled_def Let_def)
  moreover have "att_id ` set (attempt_log d') = insert (new_delivery_attempt_id hex) (att_id ` set (attempt_log d))"
    using o by (simp add: new_attempt_def)
  ultimately show thesis using that [of c d'] run tok o by simp
qed

lemma record_all:
  assumes alone: "\<And>i x. be_other env i x = x" and inj: "inj (be_attempt_hex env)" and fits: "schedule_fits s now"
  shows "outbox_inv d \<Longrightarrow> distinct (map (\<lambda>(job, r). whd_id job) results) \<Longrightarrow>
    (\<And>job r. (job, r) \<in> set results \<Longrightarrow> get_delivery d (whd_id job) = Some job \<and> whd_claim_token job \<noteq> None) \<Longrightarrow>
    (\<And>j. i \<le> j \<Longrightarrow> new_delivery_attempt_id (be_attempt_hex env j) \<notin> att_id ` set (attempt_log d)) \<Longrightarrow>
    record_attempts env (settings_retry_policy s) now i results d = (recorded, d') \<Longrightarrow>
    outbox_inv d' \<and> length recorded = length results \<and> (\<forall>res \<in> set recorded. \<exists>c. res = Inr c \<and> ca_owned c) \<and>
    (\<forall>(job, r) \<in> set results. get_delivery d' (whd_id job) = Some (settled (settings_retry_policy s) now job r)) \<and>
    (\<forall>k. k \<notin> (\<lambda>(job, r). whd_id job) ` set results \<longrightarrow> get_delivery d' k = get_delivery d k)"
proof (induction results arbitrary: i d recorded)
  case (Cons e results)
  obtain job r where e: "e = (job, r)" by (cases e)
  have row: "get_delivery d (whd_id job) = Some job" and "whd_claim_token job \<noteq> None" using Cons.prems(3) e by auto
  then obtain t where t: "whd_claim_token job = Some t" by blast
  have fresh: "new_delivery_attempt_id (be_attempt_hex env i) \<notin> att_id ` set (attempt_log d)" using Cons.prems(4) by blast
  obtain c d1 where run: "complete_attempt (be_attempt_hex env i) job r now (settings_retry_policy s) (whd_claim_token job) d = (Inr c, d1)"
    and own: "ca_owned c" and inv: "outbox_inv d1" and mine: "get_delivery d1 (whd_id job) = Some (settled (settings_retry_policy s) now job r)"
    and others: "\<forall>k. k \<noteq> whd_id job \<longrightarrow> get_delivery d1 k = get_delivery d k"
    and log: "att_id ` set (attempt_log d1) = insert (new_delivery_attempt_id (be_attempt_hex env i)) (att_id ` set (attempt_log d))"
    by (rule record_one [OF Cons.prems(1) row t fits fresh])
  obtain rest where rest: "record_attempts env (settings_retry_policy s) now (Suc i) results d1 = (rest, d')" "recorded = Inr c # rest"
    using Cons.prems(5) run by (auto simp: e alone Let_def split: prod.splits)
  have dist: "distinct (map (\<lambda>(job, r). whd_id job) results)" "whd_id job \<notin> (\<lambda>(job, r). whd_id job) ` set results"
    using Cons.prems(2) by (simp_all add: e)
  have rows: "get_delivery d1 (whd_id j) = Some j \<and> whd_claim_token j \<noteq> None" if "(j, r') \<in> set results" for j r'
  proof -
    have "whd_id j \<noteq> whd_id job" using that dist(2) by force
    with Cons.prems(3) [of j r'] that others show ?thesis by simp
  qed
  have later: "new_delivery_attempt_id (be_attempt_hex env j) \<notin> att_id ` set (attempt_log d1)" if "Suc i \<le> j" for j
    using that Cons.prems(4) [of j] injD [OF inj, of i j] new_attempt_id_inj by (auto simp: log)
  note ih = Cons.IH [OF inv dist(1) rows later rest(1)]
  have "get_delivery d' (whd_id job) = Some (settled (settings_retry_policy s) now job r)" using ih dist(2) mine by simp
  with ih own others show ?case by (auto simp: e rest(2))
qed simp

lemma job_bodies_Inr:
  "job_bodies subs jobs = Inr bodies \<Longrightarrow>
   length bodies = length jobs \<and>
   (\<forall>(job, body) \<in> set (zip jobs bodies). \<exists>sub. map_of subs (whd_id job) = Some sub \<and> serialize_payload (build_payload sub) = Inr body)"
  by (induction jobs arbitrary: bodies) (auto split: option.splits sum.splits)

lemma job_bodies_poisoned:
  "job \<in> set jobs \<Longrightarrow> (\<And>j. j \<in> set jobs \<Longrightarrow> map_of subs (whd_id j) \<noteq> None) \<Longrightarrow>
   map_of subs (whd_id job) = Some sub \<Longrightarrow> serialize_payload (build_payload sub) = Inl e \<Longrightarrow>
   \<exists>e. job_bodies subs jobs = Inl e"
  by (induction jobs) (fastforce split: option.splits sum.splits)+

text \<open>The ingredients of a batch that was not empty and ran alone.\<close>

lemma process_batch_Inr:
  assumes "outbox_inv d" and alone: "\<And>i x. be_other env i x = x" and "process_batch env s now d = (Inr rep, d')"
  obtains claimed d1 bodies recorded where
    "claim_due_deliveries (be_visible env) (be_claim_hex env) now (cfg_worker_lease_seconds s) (nat (cfg_worker_batch_size s)) d
       = (Inr claimed, d1)"
    "length bodies = length claimed" "br_handled rep = length claimed" "br_recorded rep = recorded"
    "br_results rep = map (\<lambda>(job, body). (job, attempt_once (be_send env) job body (attempt_deadline_seconds s))) (zip claimed bodies)"
    "record_attempts env (settings_retry_policy s) now 0 (br_results rep) d1 = (recorded, d')"
    "\<forall>(job, body) \<in> set (zip claimed bodies). \<exists>sid row. whd_submission_id job = Some sid \<and>
       find_row sub_id (submissions d) sid = Some row \<and> serialize_payload (build_payload (to_domain row)) = Inr body"
proof -
  obtain claimed d1 where claim: "claim_due_deliveries (be_visible env) (be_claim_hex env) now (cfg_worker_lease_seconds s)
      (nat (cfg_worker_batch_size s)) d = (Inr claimed, d1)"
    using assms(3) by (auto simp: process_batch_def split: prod.splits sum.splits)
  obtain subs where subs: "load_submissions d1 claimed = Inr subs"
    "\<forall>c\<in>set claimed. \<exists>sid r. whd_submission_id c = Some sid \<and> find_row sub_id (submissions d) sid = Some r \<and>
       map_of subs (whd_id c) = Some (to_domain r)"
    using claimed_batch_loads [OF outbox_inv_ok [OF assms(1)] claim] by blast
  show thesis
  proof (cases "claimed = []")
    case True
    with assms(3) claim have "rep = \<lparr>br_handled = 0, br_results = [], br_recorded = []\<rparr>" "d' = d1"
      by (simp_all add: process_batch_def)
    with True that [OF claim, of "[]" "[]"] show thesis by simp
  next
    case False
    obtain bodies where bodies: "job_bodies subs claimed = Inr bodies"
    proof (cases "job_bodies subs claimed")
      case (Inl e)
      then have "process_batch env s now d = (Inl e, d1)" by (simp add: process_batch_def claim False alone subs(1))
      with assms(3) show thesis by simp
    qed
    note b = job_bodies_Inr [OF bodies]
    let ?results = "map (\<lambda>(job, body). (job, attempt_once (be_send env) job body (attempt_deadline_seconds s))) (zip claimed bodies)"
    obtain recorded d3 where r3: "record_attempts env (settings_retry_policy s) now 0 ?results d1 = (recorded, d3)"
      by (cases "record_attempts env (settings_retry_policy s) now 0 ?results d1")
    have "process_batch env s now d = (Inr \<lparr>br_handled = length claimed, br_results = ?results, br_recorded = recorded\<rparr>, d3)"
      by (simp add: process_batch_def claim False alone subs(1) bodies r3)
    with assms(3) have rep: "rep = \<lparr>br_handled = length claimed, br_results = ?results, br_recorded = recorded\<rparr>" and "d3 = d'"
      by simp_all
    with r3 have r: "record_attempts env (settings_retry_policy s) now 0 ?results d1 = (recorded, d')" by simp
    have "\<forall>(job, body) \<in> set (zip claimed bodies). \<exists>sid row. whd_submission_id job = Some sid \<and>
       find_row sub_id (submissions d) sid = Some row \<and> serialize_payload (build_payload (to_domain row)) = Inr body"
    proof (clarify)
      fix job body assume m: "(job, body) \<in> set (zip claimed bodies)"
      then have "job \<in> set claimed" by (rule set_zip_leftD)
      with subs(2) b m show "\<exists>sid row. whd_submission_id job = Some sid \<and> find_row sub_id (submissions d) sid = Some row \<and>
          serialize_payload (build_payload (to_domain row)) = Inr body" by fastforce
    qed
    with that [OF claim, of bodies recorded] b r rep show thesis by simp
  qed
qed

lemma job_bodies_total:
  "(\<And>j. j \<in> set jobs \<Longrightarrow> \<exists>sub body. map_of subs (whd_id j) = Some sub \<and> serialize_payload (build_payload sub) = Inr body) \<Longrightarrow>
   \<exists>bodies. job_bodies subs jobs = Inr bodies"
proof (induction jobs)
  case (Cons j jobs)
  then obtain bodies where "job_bodies subs jobs = Inr bodies" by auto
  moreover obtain sub body where "map_of subs (whd_id j) = Some sub" "serialize_payload (build_payload sub) = Inr body"
    using Cons.prems [of j] by auto
  ultimately show ?case by simp
qed simp

text \<open>A batch returns when its lease can be represented and the submissions it may carry can be encoded.\<close>

lemma process_batch_total:
  assumes inv: "outbox_inv d" and alone: "\<And>i x. be_other env i x = x" and lease: "lease_end now (cfg_worker_lease_seconds s) = Inr e"
    and clean: "\<forall>row\<in>set (submissions d). clean_submission (to_domain row)"
  shows "\<exists>rep d'. process_batch env s now d = (Inr rep, d')"
proof -
  obtain claimed d1 where claim: "claim_due_deliveries (be_visible env) (be_claim_hex env) now (cfg_worker_lease_seconds s)
      (nat (cfg_worker_batch_size s)) d = (Inr claimed, d1)"
    using lease by (simp add: claim_due_deliveries_def case_prod_beta Let_def)
  obtain subs where subs: "load_submissions d1 claimed = Inr subs"
    "\<forall>c\<in>set claimed. \<exists>sid r. whd_submission_id c = Some sid \<and> find_row sub_id (submissions d) sid = Some r \<and>
       map_of subs (whd_id c) = Some (to_domain r)"
    using claimed_batch_loads [OF outbox_inv_ok [OF inv] claim] by blast
  have "\<exists>bodies. job_bodies subs claimed = Inr bodies"
  proof (rule job_bodies_total)
    fix j assume "j \<in> set claimed"
    with subs(2) obtain sid r where r: "find_row sub_id (submissions d) sid = Some r" "map_of subs (whd_id j) = Some (to_domain r)" by blast
    then have "clean_submission (to_domain r)" using clean find_row_SomeD [OF r(1)] by blast
    from serialize_clean [OF this] r(2) show "\<exists>sub body. map_of subs (whd_id j) = Some sub \<and> serialize_payload (build_payload sub) = Inr body"
      by blast
  qed
  then obtain bodies where "job_bodies subs claimed = Inr bodies" ..
  then show ?thesis by (simp add: process_batch_def claim alone subs(1) case_prod_beta Let_def)
qed

text \<open>
  One submission that cannot be encoded stops the whole batch it is claimed in: nothing is sent and nothing
  recorded, and every delivery of the batch stays claimed with none of its allowance spent.
\<close>

lemma poisoned_batch:
  assumes inv: "outbox_inv d" and alone: "\<And>i x. be_other env i x = x"
    and claim: "claim_due_deliveries (be_visible env) (be_claim_hex env) now (cfg_worker_lease_seconds s)
      (nat (cfg_worker_batch_size s)) d = (Inr claimed, d1)"
    and bad: "c \<in> set claimed" "whd_submission_id c = Some sid" "find_row sub_id (submissions d) sid = Some row"
      "(n, vs) \<in> set (sub_fields row)" "v \<in> set vs" "\<not> clean v"
  shows "(\<exists>x. process_batch env s now d = (Inl x, d1)) \<and> attempt_log d1 = attempt_log d \<and>
    (\<forall>j\<in>set claimed. \<exists>w. get_delivery d (whd_id j) = Some w \<and> get_delivery d1 (whd_id j) = Some j \<and>
       whd_state j = PROCESSING \<and> whd_attempts j = whd_attempts w \<and> whd_cycle_attempts j = whd_cycle_attempts w)"
proof (intro conjI ballI)
  note ids = outbox_inv_distinct [OF inv]
  obtain subs where subs: "load_submissions d1 claimed = Inr subs"
    "\<forall>c\<in>set claimed. \<exists>sid r. whd_submission_id c = Some sid \<and> find_row sub_id (submissions d) sid = Some r \<and>
       map_of subs (whd_id c) = Some (to_domain r)"
    using claimed_batch_loads [OF outbox_inv_ok [OF inv] claim] by blast
  have "map_of subs (whd_id c) = Some (to_domain row)" using subs(2) bad(1-3) by fastforce
  moreover have "map_of subs (whd_id j) \<noteq> None" if "j \<in> set claimed" for j using subs(2) that by fastforce
  moreover have "serialize_payload (build_payload (to_domain row)) = Inl UnicodeEncodeError"
    using bad(4-6) by (intro serialize_surrogate) simp_all
  ultimately obtain x where "job_bodies subs claimed = Inl x"
    using job_bodies_poisoned [OF bad(1), of subs "to_domain row"] by blast
  moreover have "claimed \<noteq> []" using bad(1) by auto
  ultimately show "\<exists>x. process_batch env s now d = (Inl x, d1)" by (simp add: process_batch_def claim alone subs(1))
  show "attempt_log d1 = attempt_log d" using arg_cong [OF claim_frame [OF ids claim], of attempt_log] by simp
  fix j assume "j \<in> set claimed"
  then obtain e t w where "get_delivery d (whd_id j) = Some w" "j = claim_values e t w" "get_delivery d1 (whd_id j) = Some j"
    by (rule claimed_entry [OF ids claim])
  then show "\<exists>w. get_delivery d (whd_id j) = Some w \<and> get_delivery d1 (whd_id j) = Some j \<and>
       whd_state j = PROCESSING \<and> whd_attempts j = whd_attempts w \<and> whd_cycle_attempts j = whd_cycle_attempts w" by (metis claim_values_sel(4-6))
qed


lemma batch_settled:
  assumes "outbox_inv d" and "schedule_fits s now" and "\<And>i x. be_other env i x = x" and "inj (be_attempt_hex env)"
    and "\<And>i. new_delivery_attempt_id (be_attempt_hex env i) \<notin> att_id ` set (attempt_log d)"
    and "process_batch env s now d = (Inr rep, d')"
  shows "outbox_inv d' \<and> length (br_results rep) = br_handled rep \<and> length (br_recorded rep) = br_handled rep \<and>
    distinct (map (\<lambda>(job, r). whd_id job) (br_results rep)) \<and>
    (\<forall>res \<in> set (br_recorded rep). \<exists>c. res = Inr c \<and> ca_owned c) \<and>
    (\<forall>(job, r) \<in> set (br_results rep).
       (\<exists>w sid row body. get_delivery d (whd_id job) = Some w \<and> due_condition now w \<and> whd_submission_id w = Some sid \<and>
          whd_attempts job = whd_attempts w \<and> whd_cycle_attempts job = whd_cycle_attempts w \<and>
          find_row sub_id (submissions d) sid = Some row \<and> serialize_payload (build_payload (to_domain row)) = Inr body \<and>
          r = attempt_once (be_send env) job body (attempt_deadline_seconds s)) \<and>
       get_delivery d' (whd_id job) = Some (settled (settings_retry_policy s) now job r)) \<and>
    (\<forall>k. k \<notin> (\<lambda>(job, r). whd_id job) ` set (br_results rep) \<longrightarrow> get_delivery d' k = get_delivery d k) \<and>
    (int (br_handled rep) < cfg_worker_batch_size s \<longrightarrow>
       (\<forall>k w. get_delivery d k = Some w \<and> due_condition now w \<and> be_visible env k \<longrightarrow>
          k \<in> (\<lambda>(job, r). whd_id job) ` set (br_results rep)))"
proof -
  obtain claimed d1 bodies recorded where
    claim: "claim_due_deliveries (be_visible env) (be_claim_hex env) now (cfg_worker_lease_seconds s) (nat (cfg_worker_batch_size s)) d
       = (Inr claimed, d1)" and len: "length bodies = length claimed" and handled: "br_handled rep = length claimed"
    and rec: "br_recorded rep = recorded"
    and results: "br_results rep = map (\<lambda>(job, body). (job, attempt_once (be_send env) job body (attempt_deadline_seconds s))) (zip claimed bodies)"
    and run: "record_attempts env (settings_retry_policy s) now 0 (br_results rep) d1 = (recorded, d')"
    and sent: "\<forall>(job, body) \<in> set (zip claimed bodies). \<exists>sid row. whd_submission_id job = Some sid \<and>
       find_row sub_id (submissions d) sid = Some row \<and> serialize_payload (build_payload (to_domain row)) = Inr body"
    by (rule process_batch_Inr [OF assms(1,3,6)])
  note ids = outbox_inv_distinct [OF assms(1)]
  have "map (\<lambda>(job, r). whd_id job) (br_results rep) = map whd_id (map fst (zip claimed bodies))"
    by (simp add: results comp_def case_prod_beta)
  then have jobs: "map (\<lambda>(job, r). whd_id job) (br_results rep) = map whd_id claimed"
    by (simp only: map_fst_zip [OF len [symmetric]])
  have jobset: "(\<lambda>(job, r). whd_id job) ` set (br_results rep) = whd_id ` set claimed"
    using arg_cong [OF jobs, of set] by (simp only: set_map)
  have dist: "distinct (map (\<lambda>(job, r). whd_id job) (br_results rep))"
    unfolding jobs claimed_ids [OF ids claim] by (rule claim_candidates_distinct [OF ids])
  have inv: "outbox_inv d1" using claim_due_inv [OF assms(1)] claim by (metis snd_conv)
  have rows: "get_delivery d1 (whd_id job) = Some job \<and> whd_claim_token job \<noteq> None" if "(job, r) \<in> set (br_results rep)" for job r
  proof -
    have "job \<in> set claimed" using that by (auto simp: results dest: set_zip_leftD)
    from claimed_entry [OF ids claim this] show ?thesis by (metis claim_values_sel(7) option.distinct(1))
  qed
  have log: "attempt_log d1 = attempt_log d" using arg_cong [OF claim_frame [OF ids claim], of attempt_log] by simp
  have all: "outbox_inv d' \<and> length recorded = length (br_results rep) \<and> (\<forall>res \<in> set recorded. \<exists>c. res = Inr c \<and> ca_owned c) \<and>
      (\<forall>(job, r) \<in> set (br_results rep). get_delivery d' (whd_id job) = Some (settled (settings_retry_policy s) now job r)) \<and>
      (\<forall>k. k \<notin> whd_id ` set claimed \<longrightarrow> get_delivery d' k = get_delivery d1 k)"
    unfolding jobset [symmetric] by (rule record_all [OF assms(3,4,2) inv dist rows _ run]) (simp_all add: log assms(5))
  have each: "\<exists>w sid row body. get_delivery d (whd_id job) = Some w \<and> due_condition now w \<and> whd_submission_id w = Some sid \<and>
      whd_attempts job = whd_attempts w \<and> whd_cycle_attempts job = whd_cycle_attempts w \<and>
      find_row sub_id (submissions d) sid = Some row \<and> serialize_payload (build_payload (to_domain row)) = Inr body \<and>
      r = attempt_once (be_send env) job body (attempt_deadline_seconds s)" if m: "(job, r) \<in> set (br_results rep)" for job r
  proof -
    from m obtain body where z: "(job, body) \<in> set (zip claimed bodies)"
      and r: "r = attempt_once (be_send env) job body (attempt_deadline_seconds s)" by (auto simp: results)
    from z have "job \<in> set claimed" by (rule set_zip_leftD)
    then obtain e t w where "get_delivery d (whd_id job) = Some w" "due_condition now w" "job = claim_values e t w"
      by (rule claimed_entry [OF ids claim])
    with sent z r show ?thesis by fastforce
  qed
  have others: "get_delivery d' k = get_delivery d k" if "k \<notin> whd_id ` set claimed" for k
    using all that claim_others [OF ids claim that] by simp
  have room: "k \<in> whd_id ` set claimed" if "int (length claimed) < cfg_worker_batch_size s" "get_delivery d k = Some w"
    "due_condition now w" "be_visible env k" for k w
  proof -
    have same: "length claimed = length (claim_candidates (be_visible env) now (nat (cfg_worker_batch_size s)) (deliveries d))"
      using arg_cong [OF claimed_ids [OF ids claim], of length] by simp
    then have "length (claim_candidates (be_visible env) now (nat (cfg_worker_batch_size s)) (deliveries d)) < nat (cfg_worker_batch_size s)"
      using that(1) by linarith
    from claim_no_room [OF ids this that(2-4)] arg_cong [OF claimed_ids [OF ids claim], of set] show ?thesis by simp
  qed
  have n: "length (br_results rep) = length claimed" using len by (simp add: results)
  show ?thesis unfolding jobset handled rec
  proof (intro conjI)
    show "outbox_inv d'" "\<forall>res \<in> set recorded. \<exists>c. res = Inr c \<and> ca_owned c" using all by blast+
    show "length (br_results rep) = length claimed" "length recorded = length claimed" using n all by simp_all
    show "distinct (map (\<lambda>(job, r). whd_id job) (br_results rep))" by (rule dist)
    show "\<forall>k. k \<notin> whd_id ` set claimed \<longrightarrow> get_delivery d' k = get_delivery d k" using others by blast
  qed (use all each room in blast)+
qed

subsection \<open>Properties\<close>

text \<open>
  C19. A batch of a worker that is left alone with the database, none of whose claims can be taken over
  while it runs, always returns and finishes what it claims, as long as the submissions can be encoded, the
  schedule stays within the calendar and the identifiers drawn for its attempts are new. Every delivery it
  handled was due; it was sent the exact payload of its stored submission, once; whatever came of the
  request, an exception of the client included, is recorded by the owner of the claim, and the delivery is
  delivered, failed or due again later, never left processing. When there was room in the batch no due
  delivery the worker could lock was passed over, and every other delivery is as it was.
\<close>
theorem batch_settles_every_claim:
  assumes "outbox_inv d" and "schedule_fits s now" and "\<And>i x. be_other env i x = x" and "inj (be_attempt_hex env)"
    and "\<And>i. new_delivery_attempt_id (be_attempt_hex env i) \<notin> att_id ` set (attempt_log d)"
    and "lease_end now (cfg_worker_lease_seconds s) = Inr e" and "\<forall>row\<in>set (submissions d). clean_submission (to_domain row)"
  shows "\<exists>rep d'. process_batch env s now d = (Inr rep, d') \<and>
    outbox_inv d' \<and> length (br_results rep) = br_handled rep \<and> length (br_recorded rep) = br_handled rep \<and>
    distinct (map (\<lambda>(job, r). whd_id job) (br_results rep)) \<and>
    (\<forall>res \<in> set (br_recorded rep). \<exists>c. res = Inr c \<and> ca_owned c) \<and>
    (\<forall>(job, r) \<in> set (br_results rep).
       (\<exists>w sid row body. get_delivery d (whd_id job) = Some w \<and> due_condition now w \<and> whd_submission_id w = Some sid \<and>
          whd_attempts job = whd_attempts w \<and> whd_cycle_attempts job = whd_cycle_attempts w \<and>
          find_row sub_id (submissions d) sid = Some row \<and> serialize_payload (build_payload (to_domain row)) = Inr body \<and>
          r = attempt_once (be_send env) job body (attempt_deadline_seconds s)) \<and>
       get_delivery d' (whd_id job) = Some (settled (settings_retry_policy s) now job r)) \<and>
    (\<forall>k. k \<notin> (\<lambda>(job, r). whd_id job) ` set (br_results rep) \<longrightarrow> get_delivery d' k = get_delivery d k) \<and>
    (int (br_handled rep) < cfg_worker_batch_size s \<longrightarrow>
       (\<forall>k w. get_delivery d k = Some w \<and> due_condition now w \<and> be_visible env k \<longrightarrow>
          k \<in> (\<lambda>(job, r). whd_id job) ` set (br_results rep)))"
proof -
  obtain rep d' where run: "process_batch env s now d = (Inr rep, d')" using process_batch_total [OF assms(1,3,6,7)] by blast
  show ?thesis by (intro exI, rule conjI [OF run batch_settled [OF assms(1-5) run]])
qed

definition sample_batch :: batch_env where
  "sample_batch = \<lparr>be_visible = \<lambda>_. True, be_claim_hex = \<lambda>i. [i], be_attempt_hex = \<lambda>i. [i],
     be_send = \<lambda>_. Responded 204, be_other = \<lambda>_ d. d\<rparr>"

lemma default_schedule_fits: "schedule_fits (default_settings []) 1000000"
proof -
  have "round_half_even (3600000000 :: rat) = 3600000000" using round_half_even_of_int [of 3600000000] by simp
  then show ?thesis
    using default_settings_ok [of "[]"] by (simp add: schedule_fits_def default_settings_def timedelta_cap_def dt_min_def dt_max_def)
qed

lemma batch_settles_every_claim_witness:
  "\<exists>rep d' job r. process_batch sample_batch (default_settings []) 1000000 sample_db = (Inr rep, d') \<and>
     (job, r) \<in> set (br_results rep) \<and> whd_id job = lit ''w1'' \<and> length (br_recorded rep) = br_handled rep \<and>
     get_delivery d' (lit ''w1'') = Some (settled (settings_retry_policy (default_settings [])) 1000000 job r)"
proof -
  have fresh: "new_delivery_attempt_id (be_attempt_hex sample_batch i) \<notin> att_id ` set (attempt_log sample_db)" for i
    by (simp add: sample_batch_def sample_db_def delivered_attempt_def new_delivery_attempt_id_def lit_def)
  have inj: "inj (be_attempt_hex sample_batch)" by (simp add: sample_batch_def inj_on_def)
  have alone: "be_other sample_batch i x = x" for i x by (simp add: sample_batch_def)
  have lease: "lease_end 1000000 (cfg_worker_lease_seconds (default_settings [])) = Inr 61000000"
    using timedelta_seconds_total [of 60] round_half_even_of_int [of 60000000]
    by (simp add: lease_end_def default_settings_def timedelta_cap_def dt_add_def dt_min_def dt_max_def)
  have clean: "\<forall>row\<in>set (submissions sample_db). clean_submission (to_domain row)"
    by (simp add: sample_defs clean_submission_def clean_def lit_def is_surrogate_def)
  obtain rep d' where run: "process_batch sample_batch (default_settings []) 1000000 sample_db = (Inr rep, d')"
    and n: "length (br_results rep) = br_handled rep" "length (br_recorded rep) = br_handled rep"
    and rows: "\<forall>(job, r) \<in> set (br_results rep). get_delivery d' (whd_id job) = Some (settled (settings_retry_policy (default_settings [])) 1000000 job r)"
    and room: "int (br_handled rep) < cfg_worker_batch_size (default_settings []) \<longrightarrow>
       (\<forall>k w. get_delivery sample_db k = Some w \<and> due_condition 1000000 w \<and> be_visible sample_batch k \<longrightarrow>
          k \<in> (\<lambda>(job, r). whd_id job) ` set (br_results rep))"
    and ids: "distinct (map (\<lambda>(job, r). whd_id job) (br_results rep))"
    and due: "\<forall>(job, r) \<in> set (br_results rep). \<exists>w. get_delivery sample_db (whd_id job) = Some w"
    using batch_settles_every_claim [OF sample_inv default_schedule_fits alone inj fresh lease clean] by (elim exE conjE) fastforce
  have "(\<lambda>(job, r). whd_id job) ` set (br_results rep) \<subseteq> whd_id ` set (deliveries sample_db)"
  proof clarify
    fix job r assume "(job, r) \<in> set (br_results rep)"
    with due have "find_row whd_id (deliveries sample_db) (whd_id job) \<noteq> None" by (fastforce simp: get_delivery_def)
    then show "whd_id job \<in> whd_id ` set (deliveries sample_db)" unfolding find_row_not_None .
  qed
  then have "card (set (map (\<lambda>(job, r). whd_id job) (br_results rep))) \<le> card (whd_id ` set (deliveries sample_db))"
    by (intro card_mono) simp_all
  also have "\<dots> \<le> 3" using card_image_le [of "set (deliveries sample_db)" whd_id] card_length [of "deliveries sample_db"]
    by (simp add: sample_db_def)
  finally have "br_handled rep \<le> 3" using distinct_card [OF ids] n(1) by simp
  then have "int (br_handled rep) < cfg_worker_batch_size (default_settings [])" by (simp add: default_settings_def)
  moreover have "get_delivery sample_db (lit ''w1'') = Some waiting" "due_condition 1000000 waiting"
    by (simp_all add: get_delivery_def sample_db_def waiting_def due_condition_def)
  moreover have "be_visible sample_batch (lit ''w1'')" by (simp add: sample_batch_def)
  ultimately have "lit ''w1'' \<in> (\<lambda>(job, r). whd_id job) ` set (br_results rep)" using room by blast
  then obtain job r where job: "(job, r) \<in> set (br_results rep)" "whd_id job = lit ''w1''" by auto
  with rows have "get_delivery d' (lit ''w1'') = Some (settled (settings_retry_policy (default_settings [])) 1000000 job r)" by fastforce
  with run n job show ?thesis by blast
qed

end
