(* ===== verification/Service.thy ===== *)
theory Service
  imports Outbox Cli SubmissionsApi SubmitTheorems Worker
begin

text \<open>
  The service as a whole: every request, every tick of a worker and every operator command as one
  operation on the database, in the composition the code has. Then that all of them together keep the
  invariants of the database and of the outbox, with other processes committing in between.
\<close>

subsection \<open>Operations\<close>

text \<open>The management routes, with the arguments each reads off its request.\<close>

datatype management_request =
    CreateEndpoint unicode_tables time pystr create_endpoint_request
  | ListEndpoints nat "pystr option"
  | GetEndpoint pystr
  | UpdateEndpoint unicode_tables pystr pystr update_endpoint_request
  | ListDeliveries "pystr option" "delivery_state option" nat "pystr option"
  | GetDelivery pystr
  | ReplayDelivery time pystr
  | ListSubmissions submission_query nat "pystr option"
  | GetSubmission pystr
  | ExportSubmissions "db \<Rightarrow> db" time submission_query "pystr option"

fun manage_route :: "settings \<Rightarrow> management_request \<Rightarrow> principal \<Rightarrow> (db, unit) handler" where
  "manage_route s (CreateEndpoint u now hex p) who = and_then (create_endpoint_route u s now hex p who) (\<lambda>_. giving ())"
| "manage_route s (ListEndpoints limit cursor) who = and_then (list_endpoints_route limit cursor who) (\<lambda>_. giving ())"
| "manage_route s (GetEndpoint i) who = and_then (get_endpoint_route i who) (\<lambda>_. giving ())"
| "manage_route s (UpdateEndpoint u hex i p) who = and_then (update_endpoint_route u s hex i p who) (\<lambda>_. giving ())"
| "manage_route s (ListDeliveries e st limit cursor) who =
     and_then (list_deliveries_route e st limit cursor who) (\<lambda>_. giving ())"
| "manage_route s (GetDelivery i) who = and_then (get_delivery_route i who) (\<lambda>_. giving ())"
| "manage_route s (ReplayDelivery now i) who = and_then (replay_delivery_route now i who) (\<lambda>_. giving ())"
| "manage_route s (ListSubmissions query limit cursor) who =
     and_then (list_submissions_route query limit cursor who) (\<lambda>_. giving ())"
| "manage_route s (GetSubmission i) who = and_then (get_submission_route i who) (\<lambda>_. giving ())"
| "manage_route s (ExportSubmissions other now query fmt) who =
     and_then (export_submissions_route other s now query fmt who) (\<lambda>_. giving ())"

datatype operation =
    PostSubmission submit_env "nat \<Rightarrow> db \<Rightarrow> db" form_parser submit_request
  | Manage bool time "pystr option" management_request
  | WorkerTick batch_env time
  | OperatorCommand cli_env command

fun run_operation :: "settings \<Rightarrow> operation \<Rightarrow> db \<Rightarrow> db" where
  "run_operation s (PostSubmission env other parse rq) d = snd (submit s env other parse rq d)"
| "run_operation s (Manage writable now credentials r) d =
     snd (authenticated writable now credentials (manage_route s r) d)"
| "run_operation s (WorkerTick env now) d = snd (tick env s now d)"
| "run_operation s (OperatorCommand env cmd) d = oc_db (main_command env (Some s) cmd d)"

text \<open>Whatever else commits while an operation runs keeps the invariants, and a query only reorders rows.\<close>

fun considerate_request :: "management_request \<Rightarrow> bool" where
  "considerate_request (ExportSubmissions other now query fmt) \<longleftrightarrow> (\<forall>d. outbox_inv d \<longrightarrow> outbox_inv (other d))"
| "considerate_request _ \<longleftrightarrow> True"

fun considerate :: "operation \<Rightarrow> bool" where
  "considerate (PostSubmission env other parse rq) \<longleftrightarrow> (\<forall>i d. outbox_inv d \<longrightarrow> outbox_inv (other i d))"
| "considerate (Manage writable now credentials r) \<longleftrightarrow> considerate_request r"
| "considerate (WorkerTick env now) \<longleftrightarrow> (\<forall>i d. outbox_inv d \<longrightarrow> outbox_inv (be_other env i d))"
| "considerate (OperatorCommand env cmd) \<longleftrightarrow> (\<forall>d. outbox_inv d \<longrightarrow> outbox_inv (ce_other env d)) \<and> reorders (ce_pick env)"

subsection \<open>Keeping the invariants\<close>

definition keeps_inv :: "db \<Rightarrow> db \<Rightarrow> bool" where
  "keeps_inv d d' \<longleftrightarrow> (outbox_inv d \<longrightarrow> outbox_inv d')"

lemma keeps_inv_refl: "reflp keeps_inv"
  by (simp add: reflp_def keeps_inv_def)

lemma keeps_inv_trans: "transp keeps_inv"
  by (rule transpI) (simp add: keeps_inv_def)

text \<open>What leaves the queue alone keeps its invariants as far as it keeps the constraints.\<close>

lemma outbox_inv_frame:
  "outbox_inv d \<Longrightarrow> db_ok d' \<Longrightarrow> deliveries d' = deliveries d \<Longrightarrow> attempt_log d' = attempt_log d \<Longrightarrow> outbox_inv d'"
  by (simp add: outbox_inv_def history_ok_def attempts_of_def)

text \<open>Operations that have no business with the queue.\<close>

definition manages :: "db \<Rightarrow> db \<Rightarrow> bool" where
  "manages d d' \<longleftrightarrow> (db_ok d \<longrightarrow> db_ok d' \<and> submissions d' = submissions d \<and> deliveries d' = deliveries d \<and>
     attempt_log d' = attempt_log d)"

lemma manages_refl: "reflp manages"
  by (simp add: reflp_def manages_def)

lemma manages_trans: "transp manages"
  by (rule transpI) (simp add: manages_def)

lemma manages_keeps_inv: "manages d d' \<Longrightarrow> keeps_inv d d'"
  unfolding manages_def keeps_inv_def by (blast intro: outbox_inv_frame dest: outbox_inv_ok)

lemma counters_frame:
  assumes "d' = d\<lparr>counters := c\<rparr>"
  shows "submissions d' = submissions d \<and> deliveries d' = deliveries d \<and> attempt_log d' = attempt_log d"
  by (simp add: assms)

lemma counters_only_manages:
  assumes "steps counters_only h"
  shows "steps manages h"
  unfolding steps_def manages_def
proof (intro allI impI)
  fix d assume "db_ok d"
  with assms have ok: "db_ok (snd (h d))" and eq: "snd (h d) = d\<lparr>counters := counters (snd (h d))\<rparr>"
    unfolding steps_def counters_only_def by blast+
  show "db_ok (snd (h d)) \<and> submissions (snd (h d)) = submissions d \<and> deliveries (snd (h d)) = deliveries d \<and>
      attempt_log (snd (h d)) = attempt_log d"
    using ok counters_frame [OF eq] by (rule conjI)
qed

lemma reads_manages: "(\<And>d. snd (h d) = d) \<Longrightarrow> steps manages h"
  by (simp add: steps_def manages_def)

text \<open>The shared shape of the route: the boundary, the route itself, the answer.\<close>

lemmas routes_manage = steps_and_then [OF manages_trans] steps_basics [OF manages_refl]

lemma require_manages: "steps manages (require_management_key writable now credentials)"
  unfolding steps_def
proof
  fix d
  show "manages d (snd (require_management_key writable now credentials d))"
    using require_cases [of d writable now credentials] by (auto simp: manages_def record_use_db_ok)
qed

lemma insert_endpoint_manages: "steps manages (insert_endpoint p secret now)"
  by (auto simp: steps_def manages_def insert_endpoint_def create_endpoint_def Let_def commit_db_Some
      split: option.splits endpoint_error.splits)

lemma create_route_manages: "steps manages (create_endpoint_route u s now hex p who)"
  unfolding create_endpoint_route_def
  by (intro routes_manage insert_endpoint_manages) (auto intro!: routes_manage split: option.splits)

lemma update_route_manages: "steps manages (update_endpoint_route u s hex i p who)"
  by (auto simp: steps_def manages_def update_endpoint_route_def update_endpoint_def Let_def commit_db_Some
      split: sum.splits option.splits prod.splits)

lemma read_routes_manage:
  "steps manages (list_endpoints_route limit cursor who)"
  "steps manages (get_endpoint_route i who)"
  "steps manages (list_deliveries_route e st limit cursor who)"
  "steps manages (get_delivery_route i who)"
  "steps manages (list_submissions_route query limit cursor who)"
  "steps manages (get_submission_route i who)"
  by (auto intro!: reads_manages simp: list_endpoints_route_def get_endpoint_route_def list_deliveries_route_def
      get_delivery_route_def list_submissions_route_def get_submission_route_def Let_def
      split: sum.splits option.splits unknown_cursor.splits)

lemma export_route_state:
  "snd (export_submissions_route other s now query fmt who d) \<in> {d, other d}"
  by (auto simp: export_submissions_route_def Let_def split: sum.splits)

lemma replay_route_state:
  "snd (replay_delivery_route now i who d) \<in> {d, snd (requeue_failed_delivery i now d)}"
  by (auto simp: replay_delivery_route_def Let_def split: prod.splits option.splits)

lemma answered_state: "snd (and_then h (\<lambda>_. giving ()) d) = snd (h d)"
  by (simp add: and_then_def giving_def split: prod.split sum.split)

text \<open>What a management route may do: leave the queue alone, requeue one delivery, or find what others did.\<close>

lemma manage_route_cases:
  "manages d (snd (manage_route s r who d)) \<or>
   (\<exists>now i. r = ReplayDelivery now i \<and> snd (manage_route s r who d) = snd (requeue_failed_delivery i now d)) \<or>
   (\<exists>other now query fmt. r = ExportSubmissions other now query fmt \<and> snd (manage_route s r who d) = other d)"
proof -
  have m: "manages d (snd (h d))" if "steps manages h" for h :: "(db, 'b) handler"
    using that by (simp add: steps_def)
  have same: "manages d d" using manages_refl by (simp add: reflp_def)
  show ?thesis
  proof (cases r)
    case (ReplayDelivery now i)
    with replay_route_state [of now i who d] same show ?thesis by (auto simp: answered_state)
  next
    case (ExportSubmissions other now query fmt)
    with export_route_state [of other s now query fmt who d] same show ?thesis by (auto simp: answered_state)
  qed (simp_all add: answered_state m create_route_manages update_route_manages read_routes_manage)
qed

lemma manage_route_keeps_inv:
  assumes "considerate_request r"
  shows "steps keeps_inv (manage_route s r who)"
  unfolding steps_def
proof
  fix d
  show "keeps_inv d (snd (manage_route s r who d))"
    using manage_route_cases [of d s r who] assms requeue_inv manages_keeps_inv by (fastforce simp: keeps_inv_def)
qed

text \<open>Storing keeps the invariants whatever commits around it.\<close>

lemma store_accepted_keeps_inv:
  assumes "\<And>i d. outbox_inv d \<Longrightarrow> outbox_inv (other i d)"
  shows "steps keeps_inv (store_accepted env other webhook key sub)"
proof -
  have "steps keeps_inv (\<lambda>d. case store_submission (other 4) (other 5) hex sub now key fp webhook d of
      (Inl e, d') \<Rightarrow> (Inl (raised_store e), d') | (Inr st, d') \<Rightarrow> (Inr (acknowledge st), d'))" for hex now fp
    unfolding steps_def keeps_inv_def
  proof (intro allI impI)
    fix d assume d: "outbox_inv d"
    obtain r d' where run: "store_submission (other 4) (other 5) hex sub now key fp webhook d = (r, d')" by fastforce
    have "outbox_inv d'" using store_submission_inv [OF d assms [OF d] assms [OF assms [OF d]] run] .
    with run show "outbox_inv (snd (case store_submission (other 4) (other 5) hex sub now key fp webhook d of
        (Inl e, d') \<Rightarrow> (Inl (raised_store e), d') | (Inr st, d') \<Rightarrow> (Inr (acknowledge st), d')))"
      by (cases r) simp_all
  qed
  then show ?thesis
    unfolding store_accepted_def by (intro steps_and_then steps_basics keeps_inv_refl keeps_inv_trans)
qed

lemma submit_keeps_inv:
  assumes "\<And>i d. outbox_inv d \<Longrightarrow> outbox_inv (other i d)"
  shows "steps keeps_inv (submit s env other parse rq)"
proof -
  have i: "steps keeps_inv (interrupted (other n))" for n
    using assms by (simp add: steps_def interrupted_def keeps_inv_def)
  have m: "steps keeps_inv h" if "steps counters_only h" for h :: "(db, 'b) handler"
    using counters_only_manages [OF that] manages_keeps_inv by (auto simp: steps_def)
  note basics = steps_and_then [OF keeps_inv_trans] steps_basics [OF keeps_inv_refl] i
    resolve_same [OF keeps_inv_refl] store_accepted_keeps_inv [OF assms]
    m [OF charge_counters_only] m [OF sweep_counters_only] m [OF charge_address_counters_only]
  show ?thesis
    unfolding submit_def take_body_def charge_endpoint_def Let_def by (simp add: basics)
qed

subsection \<open>The worker\<close>

lemma record_attempts_keeps_inv:
  assumes "\<And>i d. outbox_inv d \<Longrightarrow> outbox_inv (be_other env i d)"
  shows "outbox_inv d \<Longrightarrow> outbox_inv (snd (record_attempts env p now i results d))"
proof (induction results arbitrary: i d)
  case (Cons jr results)
  obtain job r where jr: "jr = (job, r)" by fastforce
  obtain res d1 where c: "complete_attempt (be_attempt_hex env i) job r now p (whd_claim_token job) (be_other env (Suc i) d) = (res, d1)"
    by fastforce
  have "outbox_inv d1" using complete_attempt_inv [OF assms [OF Cons.prems] c] .
  from Cons.IH [OF this] c jr show ?case by (simp add: Let_def case_prod_beta)
qed simp

lemma tick_keeps_inv:
  assumes "\<And>i d. outbox_inv d \<Longrightarrow> outbox_inv (be_other env i d)" and "outbox_inv d"
  shows "outbox_inv (snd (tick env s now d))"
proof -
  obtain res d1 where c: "claim_due_deliveries (be_visible env) (be_claim_hex env) now (cfg_worker_lease_seconds s)
      (nat (cfg_worker_batch_size s)) d = (res, d1)" by fastforce
  have d1: "outbox_inv d1" using claim_due_inv [OF assms(2), of "be_visible env" "be_claim_hex env" now] c by (metis snd_conv)
  then have d2: "outbox_inv (be_other env 0 d1)" by (rule assms(1))
  have "outbox_inv (snd (process_batch env s now d))"
  proof (cases res)
    case (Inl e)
    with c d1 show ?thesis by (simp add: process_batch_def)
  next
    case (Inr claimed)
    have "outbox_inv (snd (record_attempts env p now 0 results (be_other env 0 d1)))" for p results
      by (rule record_attempts_keeps_inv [OF assms(1) d2])
    with c Inr d1 d2 show ?thesis
      by (simp add: process_batch_def Let_def case_prod_beta split: sum.split)
  qed
  then show ?thesis by (simp add: tick_def case_prod_beta split: sum.split)
qed

subsection \<open>The operator\<close>

lemma create_key_manages: "manages d (snd (create_management_key i n pre h now d))"
  by (auto simp: manages_def create_management_key_def Let_def commit_db_Some split: option.splits)

lemma revoke_key_state:
  assumes "revoke_management_key other i now d = (res, d')"
  shows "d' \<in> {d, other d, (other d)\<lparr>api_keys :=
    update_rows (\<lambda>k. mk_id k = i) (\<lambda>k. k\<lparr>mk_revoked_at := Some now\<rparr>) (api_keys (other d))\<rparr>}"
  using assms by (auto simp: revoke_management_key_def Let_def split: option.splits if_splits)

lemma revoke_keeps_inv:
  assumes "outbox_inv d" "outbox_inv (other d)" "revoke_management_key other i now d = (res, d')"
  shows "outbox_inv d'"
proof -
  have "outbox_inv ((other d)\<lparr>api_keys := update_rows P (\<lambda>k. k\<lparr>mk_revoked_at := Some now\<rparr>) (api_keys (other d))\<rparr>)" for P
    using assms(2) by (intro outbox_inv_frame [OF assms(2)] update_keys_ok) (simp_all add: outbox_inv_ok)
  with revoke_key_state [OF assms(3)] assms(1,2) show ?thesis by auto
qed

lemma command_keeps_inv:
  assumes "\<And>d. outbox_inv d \<Longrightarrow> outbox_inv (ce_other env d)" and "reorders (ce_pick env)" and d: "outbox_inv d"
  shows "outbox_inv (oc_db (dispatch env cmd s d))"
proof (cases cmd)
  case (Create_Key name)
  have "outbox_inv (snd (create_management_key i n pre h now d))" for i n pre h now
    using manages_keeps_inv [OF create_key_manages] d by (simp add: keeps_inv_def)
  then have "create_management_key i n pre h now d = (res, d') \<Longrightarrow> outbox_inv d'" for i n pre h now res d'
    by (metis snd_conv)
  with Create_Key d show ?thesis
    by (auto simp: dispatch_def create_key_command_def raised_def printed_def split: sum.split prod.split)
next
  case (Revoke_Key i)
  with revoke_keeps_inv [of d "ce_other env", OF d assms(1) [OF d]] show ?thesis
    by (auto simp: dispatch_def revoke_key_command_def raised_def printed_def complained_def Let_def
        split: sum.split prod.split option.split)
next
  case (Cleanup_Submissions opts)
  have "outbox_inv (snd (delete_expired_submissions (ce_pick env) before batch n (ce_other env d)))" for before batch n
    by (rule delete_expired_inv [OF assms(2) assms(1) [OF d]])
  with Cleanup_Submissions d show ?thesis
    by (auto simp: dispatch_def cleanup_command_def raised_def printed_def complained_def Let_def case_prod_beta
        split: sum.split option.split)
qed (simp add: d dispatch_def list_keys_command_def printed_def Let_def)

lemma main_state: "oc_db (main_command env (Some s) cmd d) \<in> {d, oc_db (dispatch env cmd s d)}"
  by (auto simp: main_command_def run_command_def raised_def Let_def
      split: option.split sum.split cli_failure.split schema_not_ready.split schema_failure.split)

subsection \<open>The whole service\<close>

lemma operation_keeps_inv:
  assumes "considerate a" and "outbox_inv d"
  shows "outbox_inv (run_operation s a d)"
proof (cases a)
  case (PostSubmission env other parse rq)
  with assms submit_keeps_inv [of other s env parse rq] show ?thesis by (simp add: steps_def keeps_inv_def)
next
  case (Manage writable now credentials r)
  have "steps keeps_inv (require_management_key writable now credentials)"
    using require_manages manages_keeps_inv by (auto simp: steps_def)
  then have "steps keeps_inv (authenticated writable now credentials (manage_route s r))"
    unfolding authenticated_def using Manage assms(1)
    by (intro steps_and_then keeps_inv_trans manage_route_keeps_inv) simp_all
  with Manage assms(2) show ?thesis by (simp add: steps_def keeps_inv_def)
next
  case (WorkerTick env now)
  with assms show ?thesis by (simp add: tick_keeps_inv)
next
  case (OperatorCommand env cmd)
  then have "outbox_inv (oc_db (dispatch env cmd s d))" using assms by (intro command_keeps_inv) simp_all
  with OperatorCommand assms(2) main_state [of env s cmd d] show ?thesis by (metis insertE run_operation.simps(4) singletonD)
qed

inductive service_step :: "settings \<Rightarrow> db \<Rightarrow> db \<Rightarrow> bool" for s where
  operate: "considerate a \<Longrightarrow> service_step s d (run_operation s a d)"

inductive_cases service_stepE: "service_step s d d'"

interpretation service: invariant_system "\<lambda>d. d = empty_db" "service_step s" outbox_inv for s
proof
  show "d = empty_db \<Longrightarrow> outbox_inv d" for d
    using empty_db_ok by (simp add: outbox_inv_def history_ok_def empty_db_def)
  show "outbox_inv d \<Longrightarrow> service_step s d d' \<Longrightarrow> outbox_inv d'" for d d'
    by (auto elim!: service_stepE intro: operation_keeps_inv)
qed

subsection \<open>Properties\<close>

text \<open>
  C18. The service keeps its database well formed. From any database that satisfies the invariants, whatever
  requests, worker ticks and operator commands run, successful or not, and whatever other processes that
  keep them commit in between: every constraint of the schema holds, a delivery holds a claim exactly while
  it is processing, its attempts are numbered from one to its total, and one that is not delivered yet
  still has the submission its payload is built from.
\<close>
theorem service_keeps_invariants:
  assumes "outbox_inv d" and "rtranclp (service_step s) d d'"
  shows "db_ok d' \<and>
    (\<forall>w\<in>set (deliveries d'). ((whd_claim_token w \<noteq> None) = (whd_state w = PROCESSING)) \<and>
       map att_number (attempts_of d' (whd_id w)) = [1..whd_attempts w] \<and>
       (whd_state w \<noteq> DELIVERED \<longrightarrow> (\<exists>row\<in>set (submissions d'). whd_submission_id w = Some (sub_id row))))"
proof -
  have inv: "outbox_inv d'" by (rule service.run_inv [OF assms(2,1)])
  have sub: "\<exists>row\<in>set (submissions d'). whd_submission_id w = Some (sub_id row)"
    if w: "w \<in> set (deliveries d')" "whd_state w \<noteq> DELIVERED" for w
  proof -
    have "refers_to (map sub_id (submissions d')) (whd_submission_id w)" "whd_submission_id w \<noteq> None"
      using inv w by (auto simp: outbox_inv_def db_ok_defs list_all_iff delivery_wf_def)
    then show ?thesis by (auto simp: refers_to_def)
  qed
  then show ?thesis using inv by (auto simp: outbox_inv_def list_all_iff delivery_wf_def history_ok_def)
qed

text \<open>A worker tick, then a clean-up of everything older than a day.\<close>

definition tidy_up :: "db \<Rightarrow> db" where
  "tidy_up d = run_operation (default_settings [])
     (OperatorCommand calm_env (Cleanup_Submissions \<lparr>opt_dry_run = False, opt_older_than_days = Some 1, opt_batch_size = 500\<rparr>))
     (run_operation (default_settings []) (WorkerTick sample_batch 1000000) d)"

lemma service_keeps_invariants_witness:
  "db_ok (tidy_up sample_db)"
proof -
  have considerate: "considerate (WorkerTick sample_batch 1000000)" "considerate (OperatorCommand calm_env cmd)" for cmd
    by (simp_all add: sample_batch_def calm_env_def reorders_def)
  have "rtranclp (service_step (default_settings [])) sample_db (tidy_up sample_db)"
    unfolding tidy_up_def using service_step.operate [OF considerate(1)] service_step.operate [OF considerate(2)]
    by (meson r_into_rtranclp rtranclp.rtrancl_into_rtrancl)
  from service_keeps_invariants [OF sample_inv this] show ?thesis by blast
qed

end
