(* ===== verification/Refinement.thy ===== *)
theory Refinement
  imports Service
begin

text \<open>
  The operations of the service against the abstract outbox: every request, worker tick and operator
  command is a sequence of outbox steps, and so is any number of them one after another. Other work may
  commit between the transactions of an operation as long as it is itself made of outbox steps, which
  any operation of the service is.
\<close>

subsection \<open>Changes of the database that are outbox steps\<close>

text \<open>
  From \<open>d\<close> to \<open>d'\<close> in outbox steps, whatever sound state of the outbox has \<open>d\<close> for its database: the claim tokens
  that are minted on the way are taken from \<open>fresh\<close>, and jobs that other workers hold stay with them.
\<close>

definition via :: "retry_policy \<Rightarrow> pystr set \<Rightarrow> db \<Rightarrow> db \<Rightarrow> bool" where
  "via p fresh d d' \<longleftrightarrow>
     (\<forall>st. system_inv p st \<and> store st = d \<and> minted st \<inter> fresh = {} \<longrightarrow>
        (\<exists>st'. rtranclp (outbox_step p) st st' \<and> store st' = d' \<and> inflight st \<subseteq> inflight st' \<and>
           minted st' \<subseteq> minted st \<union> fresh))"

lemma viaE:
  assumes "via p fresh (store st) d'" "system_inv p st" "minted st \<inter> fresh = {}"
  obtains st' where "rtranclp (outbox_step p) st st'" "store st' = d'" "inflight st \<subseteq> inflight st'"
    "minted st' \<subseteq> minted st \<union> fresh"
  using assms unfolding via_def by blast

lemma system_inv_run: "rtranclp (outbox_step p) st st' \<Longrightarrow> 0 < max_attempts p \<Longrightarrow> system_inv p st \<Longrightarrow> system_inv p st'"
  by (induction rule: rtranclp_induct) (blast intro: system_inv_step)+

lemma via_refl: "via p fresh d d"
  unfolding via_def by blast

lemma via_more: "via p fresh d d' \<Longrightarrow> fresh \<subseteq> more_tokens \<Longrightarrow> via p more_tokens d d'"
  unfolding via_def by blast

lemma via_trans:
  assumes first: "via p U d d1" and second: "via p V d1 d'" and disj: "U \<inter> V = {}" and pos: "0 < max_attempts p"
  shows "via p (U \<union> V) d d'"
  unfolding via_def
proof (intro allI impI)
  fix st assume st: "system_inv p st \<and> store st = d \<and> minted st \<inter> (U \<union> V) = {}"
  with first obtain m where m: "rtranclp (outbox_step p) st m" "store m = d1" "inflight st \<subseteq> inflight m" "minted m \<subseteq> minted st \<union> U"
    unfolding via_def by blast
  have "system_inv p m" using system_inv_run [OF m(1) pos] st by blast
  moreover have "minted m \<inter> V = {}" using m(4) st disj by blast
  ultimately obtain st' where st': "rtranclp (outbox_step p) m st'" "store st' = d'" "inflight m \<subseteq> inflight st'"
      "minted st' \<subseteq> minted m \<union> V"
    using second m(2) unfolding via_def by blast
  have "rtranclp (outbox_step p) st st'" using m(1) st'(1) by (rule rtranclp_trans)
  moreover have "inflight st \<subseteq> inflight st'" "minted st' \<subseteq> minted st \<union> (U \<union> V)" using m(3,4) st'(3,4) by blast+
  ultimately show "\<exists>st'. rtranclp (outbox_step p) st st' \<and> store st' = d' \<and> inflight st \<subseteq> inflight st' \<and>
      minted st' \<subseteq> minted st \<union> (U \<union> V)"
    using st'(2) by blast
qed

lemma via_step:
  assumes "\<And>st. system_inv p st \<Longrightarrow> store st = d \<Longrightarrow> outbox_step p st (st\<lparr>store := d'\<rparr>)"
  shows "via p {} d d'"
  unfolding via_def
proof (intro allI impI)
  fix st assume "system_inv p st \<and> store st = d \<and> minted st \<inter> {} = {}"
  then have "outbox_step p st (st\<lparr>store := d'\<rparr>)" using assms by blast
  then have "rtranclp (outbox_step p) st (st\<lparr>store := d'\<rparr>)" by (rule r_into_rtranclp)
  then show "\<exists>st'. rtranclp (outbox_step p) st st' \<and> store st' = d' \<and> inflight st \<subseteq> inflight st' \<and> minted st' \<subseteq> minted st \<union> {}"
    by (intro exI [of _ "st\<lparr>store := d'\<rparr>"]) simp
qed

text \<open>The steps of every kind but a worker's.\<close>

lemma via_manages: "manages d d' \<Longrightarrow> via p {} d d'"
  by (rule via_step, rule outbox_step.manage) (auto simp: manages_def system_inv_def dest: outbox_inv_ok)

lemma via_requeue: "via p {} d (snd (requeue_failed_delivery k now d))"
  by (rule via_step, rule outbox_step.requeue [of k now _ "fst (requeue_failed_delivery k now d)"]) simp

lemma via_retain: "reorders pick \<Longrightarrow> via p {} d (snd (delete_expired_submissions pick before batch n d))"
  by (rule via_step, rule outbox_step.retain [of pick before batch n _ "fst (delete_expired_submissions pick before batch n d)"]) simp_all

lemma via_accept: "store_submission id id hex sub now key fp webhook d = (res, d') \<Longrightarrow> via p {} d d'"
  by (rule via_step, rule outbox_step.accept) simp

subsection \<open>Handlers\<close>

definition vsteps :: "retry_policy \<Rightarrow> pystr set \<Rightarrow> (db, 'a) handler \<Rightarrow> bool" where
  "vsteps p fresh h \<longleftrightarrow> (\<forall>d. via p fresh d (snd (h d)))"

lemma vsteps_manages: "steps manages h \<Longrightarrow> vsteps p {} h"
  by (simp add: steps_def vsteps_def via_manages)

lemma vsteps_counters: "steps counters_only h \<Longrightarrow> vsteps p {} h"
  by (rule vsteps_manages) (rule counters_only_manages)

lemma vsteps_basics:
  "vsteps p U (giving x)" "vsteps p U (raising e)" "vsteps p U (or_raise r)" "vsteps p U (resolve_endpoint i)"
  by (auto simp: vsteps_def giving_def raising_def or_raise_def resolve_endpoint_def via_refl split: option.split)

lemma vsteps_guarded: "vsteps p U h \<Longrightarrow> vsteps p U (guarded b e h)"
  by (simp add: guarded_def vsteps_basics)

lemma vsteps_and_then:
  assumes "vsteps p U h" "\<And>x. vsteps p V (k x)" "U \<inter> V = {}" "0 < max_attempts p"
  shows "vsteps p (U \<union> V) (and_then h k)"
  unfolding vsteps_def
proof
  fix d
  obtain r d1 where h: "h d = (r, d1)" by fastforce
  have first: "via p U d d1" using assms(1) h unfolding vsteps_def by (metis snd_conv)
  show "via p (U \<union> V) d (snd (and_then h k d))"
  proof (cases r)
    case (Inl e)
    with h via_more [OF first] show ?thesis by (simp add: and_then_def)
  next
    case (Inr x)
    have "via p V d1 (snd (k x d1))" using assms(2) by (simp add: vsteps_def)
    from via_trans [OF first this assms(3,4)] h Inr show ?thesis by (simp add: and_then_def)
  qed
qed

text \<open>After a transaction of the operation itself, and after other work.\<close>

lemma vsteps_own: "vsteps p {} h \<Longrightarrow> (\<And>x. vsteps p V (k x)) \<Longrightarrow> 0 < max_attempts p \<Longrightarrow> vsteps p V (and_then h k)"
  using vsteps_and_then [of p "{}" h V k] by simp

text \<open>What commits in between, with tokens of its own each time.\<close>

definition apart :: "(nat \<Rightarrow> pystr set) \<Rightarrow> bool" where
  "apart V \<longleftrightarrow> (\<forall>i j. i \<noteq> j \<longrightarrow> V i \<inter> V j = {})"

definition accompanies :: "retry_policy \<Rightarrow> pystr set \<Rightarrow> (nat \<Rightarrow> db \<Rightarrow> db) \<Rightarrow> bool" where
  "accompanies p fresh other \<longleftrightarrow>
     (\<exists>V. apart V \<and> (\<Union>i. V i) \<subseteq> fresh \<and> (\<forall>i d. via p (V i) d (other i d)))"

definition tokens_from :: "(nat \<Rightarrow> pystr set) \<Rightarrow> nat set \<Rightarrow> pystr set" where
  "tokens_from V I = (\<Union>i\<in>I. V i)"

lemma tokens_from_insert: "tokens_from V (insert i I) = V i \<union> tokens_from V I"
  by (simp add: tokens_from_def)

lemma tokens_disjoint:
  assumes "apart V" "I \<inter> J = {}"
  shows "tokens_from V I \<inter> tokens_from V J = {}"
proof (rule equals0I)
  fix x assume "x \<in> tokens_from V I \<inter> tokens_from V J"
  then obtain i j where ij: "i \<in> I" "j \<in> J" and x: "x \<in> V i" "x \<in> V j" by (auto simp: tokens_from_def)
  have "i \<noteq> j" using ij assms(2) by blast
  with assms(1) have "V i \<inter> V j = {}" by (simp add: apart_def)
  with x show False by blast
qed

lemma tokens_apart: "apart V \<Longrightarrow> i \<notin> I \<Longrightarrow> V i \<inter> tokens_from V I = {}"
  using tokens_disjoint [of V "{i}" I] by (simp add: tokens_from_def)

lemma vsteps_other:
  assumes "apart V" "\<And>d. via p (V i) d (other i d)" "i \<notin> I" "0 < max_attempts p"
    and "\<And>x. vsteps p (tokens_from V I) (k x)"
  shows "vsteps p (tokens_from V (insert i I)) (and_then (interrupted (other i)) k)"
proof -
  have "vsteps p (V i) (interrupted (other i))" using assms(2) by (simp add: vsteps_def interrupted_def)
  from vsteps_and_then [OF this assms(5) tokens_apart [OF assms(1,3)] assms(4)] show ?thesis
    unfolding tokens_from_insert .
qed

text \<open>A keyed submission that commits is one whose key was free, so nothing but itself was found for it.\<close>

lemma added_key_free:
  assumes "db_ok (add_submission hex sub now webhook (Some k) fp x)"
  shows "find (keyed (sub_endpoint_id sub) k) (submissions x) = None"
proof -
  let ?row = "from_domain sub (Some k) fp"
  have id: "idempotency_identity ?row = Some (sub_endpoint_id sub, k)" by (simp add: idempotency_identity_def)
  have "distinct (List.map_filter idempotency_identity (submissions x @ [?row]))" using assms by (simp add: db_ok_defs)
  then have "(sub_endpoint_id sub, k) \<notin> set (List.map_filter idempotency_identity (submissions x))"
    using id by (simp add: List.map_filter_def)
  then have "\<not> keyed (sub_endpoint_id sub) k s" if "s \<in> set (submissions x)" for s
    using in_map_filter that unfolding keyed_identity by metis
  then show ?thesis by (simp add: find_None_iff)
qed

lemma via_keyed_add:
  assumes "db_ok (add_submission hex sub now webhook (Some k) fp x)"
  shows "via p {} x (add_submission hex sub now webhook (Some k) fp x)"
proof (rule via_step)
  fix st assume st: "system_inv p st" "store st = x"
  then have "db_ok x" by (auto simp: system_inv_def dest: outbox_inv_ok)
  then have "store_submission id id hex sub now (Some k) fp webhook x =
      (Inr (accepted sub webhook), add_submission hex sub now webhook (Some k) fp x)"
    using assms added_key_free [OF assms] by (simp add: store_submission_def find_by_key_eq commit_db_def)
  with st(2) show "outbox_step p st (st\<lparr>store := add_submission hex sub now webhook (Some k) fp x\<rparr>)"
    by (intro outbox_step.accept) simp
qed

lemma via_plain_add:
  assumes "db_ok (add_submission hex sub now webhook None None x)"
  shows "via p {} x (add_submission hex sub now webhook None None x)"
  by (rule via_accept [of hex sub now None None webhook x "Inr (accepted sub webhook)"])
    (simp add: store_submission_def commit_db_def assms)

lemma store_via:
  assumes V: "apart V" "\<And>i d. via p (V i) d (other i d)" and ij: "i \<noteq> j" and pos: "0 < max_attempts p"
    and run: "store_submission (other i) (other j) hex sub now key fp webhook d = (res, d')"
  shows "via p (tokens_from V {i, j}) d d'"
proof -
  have two: "via p (tokens_from V {i, j}) d (other j (other i d))"
    using via_trans [OF V(2) V(2) _ pos, of i j d] tokens_apart [OF V(1), of i "{j}"] ij by (simp add: tokens_from_def)
  have one: "via p (V i) d (other i d)" by (rule V(2))
  have sub: "V i \<subseteq> tokens_from V {i, j}" by (simp add: tokens_from_def)
  show ?thesis
  proof (cases key)
    case None
    with run have "d' = d \<or> (d' = add_submission hex sub now webhook None None d \<and> db_ok d')"
      by (auto simp: store_submission_def commit_db_def split: if_splits)
    then show ?thesis using via_refl via_plain_add via_more [where fresh = "{}"] by blast
  next
    case (Some k)
    with run have "d' \<in> {d, other j (other i d)} \<or>
        (d' = add_submission hex sub now webhook (Some k) fp (other i d) \<and> db_ok d')"
      by (auto simp: store_submission_def commit_db_def Let_def split: sum.splits option.splits if_splits)
    moreover have "via p (V i) d d'" if "d' = add_submission hex sub now webhook (Some k) fp (other i d)" "db_ok d'"
      using via_trans [OF one via_keyed_add _ pos, of hex sub now webhook k fp] that by simp
    ultimately show ?thesis using via_refl two via_more [OF _ sub] by blast
  qed
qed

lemma submit_via:
  assumes other: "accompanies p fresh other" and pos: "0 < max_attempts p"
  shows "vsteps p fresh (submit s env other parse rq)"
proof -
  from other obtain V where V: "apart V" "\<And>i d. via p (V i) d (other i d)" and sub: "(\<Union>i. V i) \<subseteq> fresh"
    unfolding accompanies_def by blast
  note between = vsteps_other [where other = other, OF V(1,2) _ pos]
  note own = vsteps_own [OF _ _ pos]
  have store: "vsteps p (tokens_from V {4, 5}) (store_accepted env other webhook key sub)" for webhook key sub
  proof -
    have "vsteps p (tokens_from V {4, 5}) (\<lambda>d. case store_submission (other 4) (other 5) hex sub now key fp webhook d of
        (Inl e, d') \<Rightarrow> (Inl (raised_store e), d') | (Inr st, d') \<Rightarrow> (Inr (acknowledge st), d'))" for hex now fp
      unfolding vsteps_def
    proof
      fix d
      obtain r d' where run: "store_submission (other 4) (other 5) hex sub now key fp webhook d = (r, d')" by fastforce
      have "via p (tokens_from V {4, 5}) d d'" by (rule store_via [OF V _ pos run]) simp
      with run show "via p (tokens_from V {4, 5}) d (snd (case store_submission (other 4) (other 5) hex sub now key fp webhook d of
          (Inl e, d') \<Rightarrow> (Inl (raised_store e), d') | (Inr st, d') \<Rightarrow> (Inr (acknowledge st), d')))"
        by (cases r) simp_all
    qed
    then show ?thesis unfolding store_accepted_def by (intro own vsteps_basics)
  qed
  have body: "vsteps p (tokens_from V {3, 4, 5}) (take_body s env other parse rq e)" for e
    unfolding take_body_def Let_def by (intro vsteps_guarded own vsteps_basics between store) simp
  have charged: "vsteps p (tokens_from V {1, 2}) (charge_endpoint s env other i)" for i
  proof -
    have sweep: "vsteps p (tokens_from V {}) (sweep_old_windows s env)"
      using vsteps_counters [OF sweep_counters_only] by (simp add: tokens_from_def)
    have "vsteps p (tokens_from V {1, 2}) (and_then (interrupted (other 1))
        (\<lambda>_. and_then (charge (env_dialect env) ENDPOINT i (endpoint_rate_limit s) (env_now env))
        (\<lambda>_. and_then (interrupted (other 2)) (\<lambda>_. sweep_old_windows s env))))"
      by (rule between, simp, rule own, rule vsteps_counters, rule charge_counters_only, rule between, simp, rule sweep)
    then show ?thesis by (simp add: charge_endpoint_def vsteps_basics)
  qed
  have apart: "tokens_from V {1, 2} \<inter> tokens_from V {3, 4, 5} = {}"
    by (rule tokens_disjoint [OF V(1)]) simp
  have join: "tokens_from V {1, 2} \<union> tokens_from V {3, 4, 5} = tokens_from V {1, 2, 3, 4, 5}"
    by (simp add: tokens_from_def Un_assoc)
  have "vsteps p (tokens_from V {1, 2, 3, 4, 5})
      (and_then (charge_endpoint s env other i) (\<lambda>_. guarded b x (take_body s env other parse rq e)))" for i b x e
    using vsteps_and_then [OF charged vsteps_guarded [OF body] apart pos] unfolding join .
  note rest = this
  have resolved: "vsteps p (tokens_from V {1, 2, 3, 4, 5}) (and_then (resolve_endpoint i)
      (\<lambda>e. and_then (charge_endpoint s env other i) (\<lambda>_. guarded (ep_is_active e) x (take_body s env other parse rq e))))" for i x
    by (rule own, rule vsteps_basics, rule rest)
  have "vsteps p (tokens_from V {0, 1, 2, 3, 4, 5}) (submit s env other parse rq)"
    unfolding submit_def
    by (rule own, rule vsteps_counters, rule charge_address_counters_only, rule vsteps_guarded, rule between, simp, rule resolved)
  moreover have "tokens_from V {0, 1, 2, 3, 4, 5} \<subseteq> fresh" using sub by (auto simp: tokens_from_def)
  ultimately show ?thesis unfolding vsteps_def by (blast intro: via_more)
qed

subsection \<open>Management requests\<close>

fun accompanied_request :: "retry_policy \<Rightarrow> pystr set \<Rightarrow> management_request \<Rightarrow> bool" where
  "accompanied_request p fresh (ExportSubmissions other now query fmt) \<longleftrightarrow> (\<forall>d. via p fresh d (other d))"
| "accompanied_request p fresh _ \<longleftrightarrow> True"

lemma manage_via:
  assumes "accompanied_request p fresh r" and pos: "0 < max_attempts p"
  shows "vsteps p fresh (authenticated writable now credentials (manage_route s r))"
proof -
  have "vsteps p fresh (manage_route s r who)" for who
    unfolding vsteps_def
  proof
    fix d
    show "via p fresh d (snd (manage_route s r who d))"
      using manage_route_cases [of d s r who]
    proof (elim disjE exE conjE)
      show "via p fresh d (snd (manage_route s r who d))" if "manages d (snd (manage_route s r who d))"
        by (rule via_more [OF via_manages [OF that]]) simp
      show "via p fresh d (snd (manage_route s r who d))"
        if "snd (manage_route s r who d) = snd (requeue_failed_delivery i now d)" for now i
        unfolding that by (rule via_more [OF via_requeue]) simp
      show "via p fresh d (snd (manage_route s r who d))"
        if "r = ExportSubmissions other now query fmt" "snd (manage_route s r who d) = other d" for other now query fmt
        unfolding that(2) using assms(1) that(1) by simp
    qed
  qed
  then show ?thesis
    unfolding authenticated_def by (intro vsteps_own [OF _ _ pos] vsteps_manages require_manages)
qed

subsection \<open>The worker\<close>

text \<open>Each recorded attempt is one step of the worker that holds the job, with other work before it.\<close>

lemma record_attempts_via:
  assumes V: "apart V" "\<And>i d. via p (V i) d (be_other env i d)" and pos: "0 < max_attempts p"
  shows "distinct (map fst results) \<Longrightarrow> set (map fst results) \<subseteq> inflight st \<Longrightarrow> system_inv p st \<Longrightarrow>
    minted st \<inter> tokens_from V {i<..} = {} \<Longrightarrow>
    \<exists>st'. rtranclp (outbox_step p) st st' \<and> store st' = snd (record_attempts env p now i results (store st)) \<and>
      inflight st - set (map fst results) \<subseteq> inflight st' \<and> minted st' \<subseteq> minted st \<union> tokens_from V {i<..}"
proof (induction results arbitrary: i st)
  case Nil
  then show ?case by (intro exI [of _ st]) simp
next
  case (Cons jr results)
  obtain job r where jr: "jr = (job, r)" by fastforce
  have split: "tokens_from V {i<..} = V (Suc i) \<union> tokens_from V {Suc i<..}"
    unfolding tokens_from_insert [symmetric] by (rule arg_cong [of _ _ "tokens_from V"]) auto
  have "minted st \<inter> V (Suc i) = {}" using Cons.prems(4) split by blast
  from viaE [OF V(2) Cons.prems(3) this] obtain m where m: "rtranclp (outbox_step p) st m"
    "store m = be_other env (Suc i) (store st)" "inflight st \<subseteq> inflight m" "minted m \<subseteq> minted st \<union> V (Suc i)" .
  obtain res d where c: "complete_attempt (be_attempt_hex env i) job r now p (whd_claim_token job) (store m) = (res, d)"
    by fastforce
  let ?n = "m\<lparr>store := d, inflight := inflight m - {job}\<rparr>"
  have "job \<in> inflight m" using Cons.prems(2) m(3) jr by auto
  from outbox_step.complete [OF this c] have step: "outbox_step p m ?n" .
  with m(1) have run: "rtranclp (outbox_step p) st ?n" by simp
  have inv: "system_inv p ?n" by (rule system_inv_run [OF run pos Cons.prems(3)])
  have jobs: "distinct (map fst results)" "set (map fst results) \<subseteq> inflight ?n" using Cons.prems(1,2) m(3) jr by auto
  have "minted ?n \<inter> tokens_from V {Suc i<..} = {}"
    using m(4) Cons.prems(4) split tokens_apart [OF V(1), of "Suc i" "{Suc i<..}"] by auto
  from Cons.IH [OF jobs inv this] obtain st' where st': "rtranclp (outbox_step p) ?n st'"
    "store st' = snd (record_attempts env p now (Suc i) results (store ?n))"
    "inflight ?n - set (map fst results) \<subseteq> inflight st'" "minted st' \<subseteq> minted ?n \<union> tokens_from V {Suc i<..}" by blast
  have "store st' = snd (record_attempts env p now i (jr # results) (store st))"
    using st'(2) c m(2) jr by (simp add: Let_def case_prod_beta)
  moreover have "inflight st - set (map fst (jr # results)) \<subseteq> inflight st'" using st'(3) m(3) jr by auto
  moreover have "minted st' \<subseteq> minted st \<union> tokens_from V {i<..}" using st'(4) m(4) split by auto
  ultimately show ?case using rtranclp_trans [OF run st'(1)] by blast
qed

definition claim_tokens :: "batch_env \<Rightarrow> pystr set" where
  "claim_tokens env = range (\<lambda>i. new_claim_token (be_claim_hex env i))"

lemma tick_via:
  assumes V: "apart V" "\<And>i d. via p (V i) d (be_other env i d)"
    and fresh: "inj (be_claim_hex env)" "claim_tokens env \<inter> (\<Union>i. V i) = {}"
    and p: "p = settings_retry_policy s" and pos: "0 < max_attempts p"
  shows "via p (claim_tokens env \<union> (\<Union>i. V i)) d (snd (tick env s now d))"
  unfolding via_def
proof (intro allI impI)
  fix st assume st: "system_inv p st \<and> store st = d \<and> minted st \<inter> (claim_tokens env \<union> (\<Union>i. V i)) = {}"
  then have out: "outbox_inv d" and tok: "tokens_ok st" by (auto simp: system_inv_def)
  note ids = outbox_inv_distinct [OF out]
  let ?good = "\<lambda>x. \<exists>st'. rtranclp (outbox_step p) st st' \<and> store st' = x \<and> inflight st \<subseteq> inflight st' \<and>
    minted st' \<subseteq> minted st \<union> (claim_tokens env \<union> (\<Union>i. V i))"
  obtain res d1 where claim: "claim_due_deliveries (be_visible env) (be_claim_hex env) now (cfg_worker_lease_seconds s)
      (nat (cfg_worker_batch_size s)) d = (res, d1)" by fastforce
  have "?good (snd (process_batch env s now d))"
  proof (cases res)
    case (Inl e)
    with claim have "d1 = d" by (auto simp: claim_due_deliveries_def Let_def split: sum.splits prod.splits)
    with claim Inl st have "snd (process_batch env s now d) = store st" by (simp add: process_batch_def)
    then show ?thesis by (intro exI [of _ st]) simp
  next
    case (Inr claimed)
    note run = claim [unfolded Inr]
    let ?t = "\<lambda>c. the (whd_claim_token c)"
    let ?st = "st\<lparr>store := d1, inflight := inflight st \<union> set claimed, minted := minted st \<union> ?t ` set claimed\<rparr>"
    have unminted: "new_claim_token (be_claim_hex env i) \<notin> minted st" for i using st by (auto simp: claim_tokens_def)
    have step: "outbox_step p st ?st"
      by (rule outbox_step.claim [OF _ fresh(1) unminted]) (use run st in simp)
    have token: "\<exists>i. whd_claim_token c = Some (new_claim_token (be_claim_hex env i))" if "c \<in> set claimed" for c
      using claimed_tokens(1) [OF ids fresh(1) run that] .
    have mine: "?t ` set claimed \<subseteq> claim_tokens env" using token by (fastforce simp: claim_tokens_def)
    have new: "c \<notin> inflight st" if "c \<in> set claimed" for c
      using tokens_okD(3) [OF tok, of c] token [OF that] unminted by auto
    have inv: "system_inv p ?st" using system_inv_step [OF _ step pos] st by blast
    have "minted ?st \<inter> V 0 = {}" using st mine fresh(2) by auto
    from viaE [OF V(2) inv this] obtain m where m: "rtranclp (outbox_step p) ?st m" "store m = be_other env 0 d1"
      "inflight ?st \<subseteq> inflight m" "minted m \<subseteq> minted ?st \<union> V 0" by auto
    have reach: "rtranclp (outbox_step p) st m" using step m(1) by (rule converse_rtranclp_into_rtranclp)
    show ?thesis
    proof (cases "snd (process_batch env s now d) \<in> {d1, be_other env 0 d1}")
      case True
      have "rtranclp (outbox_step p) st ?st" using step by (rule r_into_rtranclp)
      then have "?good d1" using mine by (intro exI [of _ ?st]) auto
      moreover have "minted m \<subseteq> minted st \<union> (claim_tokens env \<union> (\<Union>i. V i))"
        using m(4) mine by simp blast
      then have "?good (be_other env 0 d1)" using reach m(2,3) by (intro exI [of _ m]) auto
      ultimately show ?thesis using True by (elim insertE emptyE) (simp_all only:)
    next
      case False
      then obtain bodies where bodies: "snd (process_batch env s now d) =
          snd (record_attempts env p now 0 (map (\<lambda>(job, body). (job, attempt_once (be_send env) job body (attempt_deadline_seconds s)))
            (zip claimed bodies)) (be_other env 0 d1))"
        using run by (auto simp: process_batch_def Let_def case_prod_beta p split: sum.splits if_splits)
      let ?results = "map (\<lambda>(job, body). (job, attempt_once (be_send env) job body (attempt_deadline_seconds s))) (zip claimed bodies)"
      have jobs: "map fst ?results = take (length bodies) claimed"
        by (simp add: comp_def case_prod_beta) (metis map_fst_zip_take min.commute take_all_iff nat_le_linear take_take)
      have "distinct (map whd_id claimed)"
        unfolding claimed_ids [OF ids run] by (rule claim_candidates_distinct [OF ids])
      then have "distinct claimed" by (simp add: distinct_map)
      then have dist: "distinct (map fst ?results)" "set (map fst ?results) \<subseteq> set claimed"
        unfolding jobs by (auto dest: in_set_takeD)
      have held: "set (map fst ?results) \<subseteq> inflight m" using dist(2) m(3) by auto
      have mm: "minted m \<subseteq> minted st \<union> claim_tokens env \<union> V 0" using m(4) mine by simp blast
      have tf: "tokens_from V {0<..} \<subseteq> (\<Union>i. V i)" by (auto simp: tokens_from_def)
      have later: "V 0 \<inter> tokens_from V {0<..} = {}" by (rule tokens_apart [OF V(1)]) simp
      have sets: "M \<inter> T = {}" if "M \<subseteq> A \<union> C \<union> B" "T \<subseteq> W" "B \<inter> T = {}" "A \<inter> W = {}" "C \<inter> W = {}" for M A B C T W :: "pystr set"
        using that by blast
      have "minted m \<inter> tokens_from V {0<..} = {}"
        by (rule sets [OF mm tf later _ fresh(2)]) (use st in blast)
      from record_attempts_via [OF V pos dist(1) held system_inv_run [OF m(1) pos inv] this, of now] obtain st' where
        st': "rtranclp (outbox_step p) m st'" "store st' = snd (record_attempts env p now 0 ?results (store m))"
        "inflight m - set (map fst ?results) \<subseteq> inflight st'" "minted st' \<subseteq> minted m \<union> tokens_from V {0<..}" by blast
      have "inflight st \<subseteq> inflight m - set claimed" using m(3) new by auto
      then have "inflight st \<subseteq> inflight st'" using dist(2) st'(3) by blast
      moreover have "minted st' \<subseteq> minted st \<union> (claim_tokens env \<union> (\<Union>i. V i))"
        using st'(4) mm tf by blast
      moreover have "store st' = snd (process_batch env s now d)" by (simp only: bodies st'(2) m(2))
      ultimately show ?thesis using rtranclp_trans [OF reach st'(1)] by blast
    qed
  qed
  then show "?good (snd (tick env s now d))" by (simp add: tick_def case_prod_beta split: sum.split)
qed

subsection \<open>The operator\<close>

lemma command_via:
  assumes other: "\<And>d. via p fresh d (ce_other env d)" and pick: "reorders (ce_pick env)" and pos: "0 < max_attempts p"
  shows "via p fresh d (oc_db (dispatch env cmd s d))"
proof -
  have same: "via p fresh d d" by (rule via_refl)
  have after: "via p fresh d x" if "via p {} (ce_other env d) x" for x
    using via_trans [OF other that _ pos] by simp
  have m: "via p fresh d x" if "manages d x" for x by (rule via_more [OF via_manages [OF that]]) simp
  show ?thesis
  proof (cases cmd)
    case (Create_Key name)
    have "create_management_key i n pre h now d = (res, x) \<Longrightarrow> via p fresh d x" for i n pre h now res x
      using m [OF create_key_manages [of d i n pre h now]] by simp
    with Create_Key same show ?thesis
      by (auto simp: dispatch_def create_key_command_def raised_def printed_def split: sum.split prod.split)
  next
    case (Revoke_Key i)
    have "via p fresh d x" if run: "revoke_management_key (ce_other env) i now d = (res, x)" for now res x
    proof -
      have "manages (ce_other env d) ((ce_other env d)\<lparr>api_keys :=
          update_rows (\<lambda>k. mk_id k = i) (\<lambda>k. k\<lparr>mk_revoked_at := Some now\<rparr>) (api_keys (ce_other env d))\<rparr>)"
        by (auto simp: manages_def intro: update_keys_ok)
      from after [OF via_manages [OF this]] revoke_key_state [OF run] same other show ?thesis by auto
    qed
    with Revoke_Key same show ?thesis
      by (auto simp: dispatch_def revoke_key_command_def raised_def printed_def complained_def Let_def
          split: sum.split prod.split option.split)
  next
    case (Cleanup_Submissions opts)
    have "via p fresh d (snd (delete_expired_submissions (ce_pick env) before batch n (ce_other env d)))" for before batch n
      by (rule after) (rule via_retain [OF pick])
    with Cleanup_Submissions same show ?thesis
      by (auto simp: dispatch_def cleanup_command_def raised_def printed_def complained_def Let_def case_prod_beta
          split: sum.split option.split)
  qed (simp add: same dispatch_def list_keys_command_def printed_def Let_def)
qed

subsection \<open>Operations, and runs of them\<close>

text \<open>
  An operation with what commits between its transactions, and the claim tokens all of that may draw: those of
  a worker and those of the other work are different ones, and a query only reorders rows.
\<close>

fun accompanied :: "settings \<Rightarrow> operation \<Rightarrow> pystr set \<Rightarrow> bool" where
  "accompanied s (PostSubmission env other parse rq) fresh \<longleftrightarrow> accompanies (settings_retry_policy s) fresh other"
| "accompanied s (Manage writable now credentials r) fresh \<longleftrightarrow> accompanied_request (settings_retry_policy s) fresh r"
| "accompanied s (WorkerTick env now) fresh \<longleftrightarrow>
     inj (be_claim_hex env) \<and> claim_tokens env \<subseteq> fresh \<and>
     accompanies (settings_retry_policy s) (fresh - claim_tokens env) (be_other env)"
| "accompanied s (OperatorCommand env cmd) fresh \<longleftrightarrow>
     reorders (ce_pick env) \<and> (\<forall>d. via (settings_retry_policy s) fresh d (ce_other env d))"

lemma operation_via:
  assumes "settings_ok s" "accompanied s a fresh"
  shows "via (settings_retry_policy s) fresh d (run_operation s a d)"
proof -
  let ?p = "settings_retry_policy s"
  have pos: "0 < max_attempts ?p" using assms(1) by (simp add: settings_ok_def settings_retry_policy_def)
  show ?thesis
  proof (cases a)
    case (PostSubmission env other parse rq)
    with assms(2) submit_via [OF _ pos] show ?thesis by (simp add: vsteps_def)
  next
    case (Manage writable now credentials r)
    with assms(2) manage_via [OF _ pos] show ?thesis by (simp add: vsteps_def)
  next
    case (WorkerTick env now)
    with assms(2) obtain V where V: "apart V" "\<And>i d. via ?p (V i) d (be_other env i d)" "(\<Union>i. V i) \<subseteq> fresh - claim_tokens env"
      and own: "inj (be_claim_hex env)" "claim_tokens env \<subseteq> fresh" by (auto simp: accompanies_def)
    have "claim_tokens env \<inter> (\<Union>i. V i) = {}" using V(3) by blast
    from tick_via [where now = now and d = d, OF V(1,2) own(1) this refl pos] have "via ?p (claim_tokens env \<union> (\<Union>i. V i)) d (run_operation s a d)"
      by (simp add: WorkerTick)
    then show ?thesis by (rule via_more) (use own(2) V(3) in blast)
  next
    case (OperatorCommand env cmd)
    with assms(2) have "via ?p fresh d (oc_db (dispatch env cmd s d))" by (intro command_via pos) simp_all
    with OperatorCommand main_state [of env s cmd d] via_refl show ?thesis by (metis insertE run_operation.simps(4) singletonD)
  qed
qed

text \<open>Operations one after the other, each with the tokens it may draw.\<close>

primrec run_operations :: "settings \<Rightarrow> (operation \<times> pystr set) list \<Rightarrow> db \<Rightarrow> db" where
  "run_operations s [] d = d"
| "run_operations s (x # xs) d = run_operations s xs (run_operation s (fst x) d)"

lemma operations_via:
  assumes "settings_ok s"
  shows "\<forall>(a, fresh) \<in> set xs. accompanied s a fresh \<Longrightarrow> sorted_wrt (\<lambda>x y. snd x \<inter> snd y = {}) xs \<Longrightarrow>
    via (settings_retry_policy s) (\<Union>(snd ` set xs)) d (run_operations s xs d)"
proof (induction xs arbitrary: d)
  case Nil
  then show ?case by (simp add: via_refl)
next
  case (Cons x xs)
  have pos: "0 < max_attempts (settings_retry_policy s)" using assms by (simp add: settings_ok_def settings_retry_policy_def)
  have "accompanied s (fst x) (snd x)" using Cons.prems(1) by (simp add: case_prod_beta)
  note first = operation_via [OF assms this, of d]
  have "via (settings_retry_policy s) (\<Union>(snd ` set xs)) (run_operation s (fst x) d) (run_operations s xs (run_operation s (fst x) d))"
    using Cons by simp
  from via_trans [OF first this _ pos] Cons.prems(2) show ?case by fastforce
qed

subsection \<open>Properties\<close>

text \<open>
  C17. The service implements the abstract outbox. Any number of operations one after another, requests to the
  public route, management requests, ticks of a worker and operator commands, successful or not, does to the
  database what some sequence of outbox steps does from the sound state it started in. Between the transactions of
  each operation other work may commit, as long as it is itself made of outbox steps wherever it happens and
  leaves the jobs other workers hold with them; any operation that is accompanied in this way is such work
  itself, so the statement covers operations that run inside one another, though not those that overlap
  otherwise. The claim tokens drawn are assumed to be new and different, and a query to choose among rows only.
\<close>
theorem service_refines_outbox:
  assumes "settings_ok s" and "system_inv (settings_retry_policy s) st"
    and "\<forall>(a, fresh) \<in> set xs. accompanied s a fresh \<and> minted st \<inter> fresh = {}"
    and "sorted_wrt (\<lambda>x y. snd x \<inter> snd y = {}) xs"
  shows "(\<exists>st'. rtranclp (outbox_step (settings_retry_policy s)) st st' \<and> store st' = run_operations s xs (store st) \<and>
      inflight st \<subseteq> inflight st' \<and> minted st' \<subseteq> minted st \<union> \<Union>(snd ` set xs)) \<and>
    (\<forall>(a, fresh) \<in> set xs. \<forall>d. via (settings_retry_policy s) fresh d (run_operation s a d))"
proof
  have all: "\<forall>(a, fresh) \<in> set xs. accompanied s a fresh" using assms(3) by auto
  have new: "minted st \<inter> \<Union>(snd ` set xs) = {}" using assms(3) by fastforce
  from operations_via [OF assms(1) all assms(4)] have
    "via (settings_retry_policy s) (\<Union>(snd ` set xs)) (store st) (run_operations s xs (store st))" .
  from viaE [OF this assms(2) new] show "\<exists>st'. rtranclp (outbox_step (settings_retry_policy s)) st st' \<and>
      store st' = run_operations s xs (store st) \<and> inflight st \<subseteq> inflight st' \<and> minted st' \<subseteq> minted st \<union> \<Union>(snd ` set xs)" by metis
  show "\<forall>(a, fresh) \<in> set xs. \<forall>d. via (settings_retry_policy s) fresh d (run_operation s a d)"
    using all operation_via [OF assms(1)] by auto
qed

text \<open>
  A tick of a worker while an operator replays a delivery, whatever became of it, between the claim and the
  recording, and a clean-up after it.
\<close>

definition replayed_meanwhile :: batch_env where
  "replayed_meanwhile = sample_batch\<lparr>be_other := \<lambda>i d. if i = 1 then snd (requeue_failed_delivery (lit ''w1'') 5 d) else d\<rparr>"

definition sample_plan :: "(operation \<times> pystr set) list" where
  "sample_plan = [(WorkerTick replayed_meanwhile 1000000, claim_tokens replayed_meanwhile),
     (OperatorCommand calm_env (Cleanup_Submissions \<lparr>opt_dry_run = False, opt_older_than_days = Some 1, opt_batch_size = 500\<rparr>), {})]"

lemma service_refines_outbox_witness:
  "\<exists>st'. rtranclp (outbox_step (settings_retry_policy (default_settings []))) \<lparr>store = sample_db, inflight = {}, minted = {lit ''t2''}\<rparr> st' \<and>
     store st' = run_operations (default_settings []) sample_plan sample_db"
proof -
  let ?s = "default_settings []" and ?st = "\<lparr>store = sample_db, inflight = {}, minted = {lit ''t2''}\<rparr>"
  have inv: "system_inv (settings_retry_policy ?s) ?st"
    unfolding system_inv_def
  proof (intro conjI)
    show "outbox_inv (store ?st)" by (simp add: sample_inv)
  qed (simp_all add: tokens_ok_def budgets_ok_def within_budget_def sample_defs settings_retry_policy_def default_settings_def)
  have replay: "via (settings_retry_policy ?s) {} d (be_other replayed_meanwhile i d)" for i d
    by (simp add: replayed_meanwhile_def via_requeue via_refl)
  have "accompanies (settings_retry_policy ?s) (claim_tokens replayed_meanwhile - claim_tokens replayed_meanwhile) (be_other replayed_meanwhile)"
    unfolding accompanies_def by (intro exI [of _ "\<lambda>_. {}"]) (simp add: apart_def replay)
  moreover have "lit ''t2'' \<notin> claim_tokens replayed_meanwhile"
    by (simp add: claim_tokens_def new_claim_token_def lit_def image_iff)
  ultimately have plan: "\<forall>(a, fresh) \<in> set sample_plan. accompanied ?s a fresh \<and> minted ?st \<inter> fresh = {}"
    by (simp add: sample_plan_def calm_env_def reorders_def via_refl)
      (simp add: replayed_meanwhile_def sample_batch_def inj_on_def)
  have "sorted_wrt (\<lambda>x y. snd x \<inter> snd y = {}) sample_plan" by (simp add: sample_plan_def)
  from service_refines_outbox [OF default_settings_ok inv plan this] show ?thesis by fastforce
qed

end
