(* ===== verification/WorkerLoop.thy ===== *)
theory WorkerLoop
  imports Worker
begin

text \<open>
  The loop of \<^verbatim>\<open>worker.py\<close> over many ticks: a worker that is left alone with its queue, whose clock moves on
  by at least the longest retry delay between two ticks, brings every delivery to an end within a number
  of ticks that grows with the open deliveries a batch has no room for, and then finds nothing to do.
\<close>

subsection \<open>What a batch leaves alone\<close>

lemma complete_frame:
  assumes "complete_attempt hex job r now p tok d = (res, d')"
  shows "submissions d' = submissions d \<and>
    att_id ` set (attempt_log d') \<subseteq> insert (new_delivery_attempt_id hex) (att_id ` set (attempt_log d))"
proof (cases res)
  case (Inl e)
  with complete_attempt_Inl assms show ?thesis by (metis order_refl subset_insertI2)
next
  case (Inr c)
  from complete_attempt_Inr [OF assms [unfolded Inr]] obtain current f where
    "d' = completed hex job r now tok f current d" by metis
  then show ?thesis by (auto simp: new_attempt_def)
qed

lemma record_frame:
  assumes alone: "\<And>i x. be_other env i x = x"
  shows "record_attempts env p now i results d = (recorded, d') \<Longrightarrow>
    submissions d' = submissions d \<and>
    att_id ` set (attempt_log d') \<subseteq>
      att_id ` set (attempt_log d) \<union> range (\<lambda>j. new_delivery_attempt_id (be_attempt_hex env j))"
proof (induction results arbitrary: i d recorded)
  case (Cons e results)
  obtain job r where e: "e = (job, r)" by (cases e)
  obtain res d1 where one: "complete_attempt (be_attempt_hex env i) job r now p (whd_claim_token job) d = (res, d1)"
    by (cases "complete_attempt (be_attempt_hex env i) job r now p (whd_claim_token job) d")
  obtain rest where "record_attempts env p now (Suc i) results d1 = (rest, d')"
    using Cons.prems by (auto simp: e alone one Let_def split: prod.splits)
  note rest = Cons.IH [OF this] and first = complete_frame [OF one]
  have new: "new_delivery_attempt_id (be_attempt_hex env i) \<in> range (\<lambda>j. new_delivery_attempt_id (be_attempt_hex env j))" by blast
  have "A \<subseteq> B \<union> R \<Longrightarrow> B \<subseteq> insert x C \<Longrightarrow> x \<in> R \<Longrightarrow> A \<subseteq> C \<union> R" for A B C R :: "pystr set" and x by blast
  from this [OF conjunct2 [OF rest] conjunct2 [OF first] new] rest first show ?case by simp
qed simp

lemma batch_frame:
  assumes "outbox_inv d" and alone: "\<And>i x. be_other env i x = x" and "process_batch env s now d = (Inr rep, d')"
  shows "submissions d' = submissions d \<and>
    att_id ` set (attempt_log d') \<subseteq>
      att_id ` set (attempt_log d) \<union> range (\<lambda>j. new_delivery_attempt_id (be_attempt_hex env j))"
proof -
  obtain claimed d1 recorded where
    claim: "claim_due_deliveries (be_visible env) (be_claim_hex env) now (cfg_worker_lease_seconds s) (nat (cfg_worker_batch_size s)) d
       = (Inr claimed, d1)"
    and run: "record_attempts env (settings_retry_policy s) now 0 (br_results rep) d1 = (recorded, d')"
    by (rule process_batch_Inr [OF assms])
  note frame = claim_frame [OF outbox_inv_distinct [OF assms(1)] claim]
  have "submissions d1 = submissions d" "attempt_log d1 = attempt_log d"
    using arg_cong [OF frame, of submissions] arg_cong [OF frame, of attempt_log] by simp_all
  with record_frame [OF alone run] show ?thesis by simp
qed

subsection \<open>One tick\<close>

text \<open>A worker alone with its queue, for \<open>n\<close> ticks.\<close>

definition steady :: "settings \<Rightarrow> (nat \<Rightarrow> batch_env) \<Rightarrow> (nat \<Rightarrow> time) \<Rightarrow> nat \<Rightarrow> bool" where
  "steady s env clock n \<longleftrightarrow>
     (\<forall>k i x. be_other (env k) i x = x) \<and> (\<forall>k i. be_visible (env k) i) \<and>
     inj (\<lambda>(k, i). be_attempt_hex (env k) i) \<and>
     (\<forall>k<n. schedule_fits s (clock k) \<and> (\<exists>e. lease_end (clock k) (cfg_worker_lease_seconds s) = Inr e) \<and>
        clock k + round_half_even (cfg_webhook_retry_max_seconds s * 1000000) \<le> clock (Suc k))"

definition unsettled :: "delivery \<Rightarrow> bool" where
  "unsettled w \<longleftrightarrow> whd_state w \<in> {PENDING, PROCESSING}"

lemma due_unsettled: "due_condition now w \<Longrightarrow> unsettled w"
  using due_condition_state by (auto simp: unsettled_def)

text \<open>
  The attempts that are left to a delivery before it is settled whatever happens: those its cycle has not
  used, and at least the one that finds out that there are none. They are summed over the deliveries of \<open>d0\<close>.
\<close>

definition attempts_left :: "settings \<Rightarrow> delivery \<Rightarrow> nat" where
  "attempts_left s w = (if unsettled w then nat (max 1 (cfg_webhook_max_attempts s - whd_cycle_attempts w)) else 0)"

definition owed :: "settings \<Rightarrow> db \<Rightarrow> pystr \<Rightarrow> nat" where
  "owed s d j = (case get_delivery d j of None \<Rightarrow> 0 | Some w \<Rightarrow> attempts_left s w)"

definition remaining :: "settings \<Rightarrow> db \<Rightarrow> db \<Rightarrow> nat" where
  "remaining s d0 d = (\<Sum>j\<in>dom (get_delivery d0). owed s d j)"

definition open_ids :: "db \<Rightarrow> pystr set" where
  "open_ids d = {j. \<exists>w. get_delivery d j = Some w \<and> unsettled w}"

lemma delivery_dom: "dom (get_delivery d) = whd_id ` set (deliveries d)"
  by (simp only: dom_def get_delivery_def find_row_not_None Collect_mem_eq)

lemma open_ids_few: "finite (open_ids d)" "card (open_ids d) \<le> length (filter unsettled (deliveries d))"
proof -
  have sub: "open_ids d \<subseteq> set (map whd_id (filter unsettled (deliveries d)))"
    by (auto simp: open_ids_def get_delivery_def image_iff dest!: find_row_SomeD)
  then show "finite (open_ids d)" by (rule finite_subset) simp
  from card_mono [OF _ sub] have "card (open_ids d) \<le> card (set (map whd_id (filter unsettled (deliveries d))))" by simp
  also have "\<dots> \<le> length (map whd_id (filter unsettled (deliveries d)))" by (rule card_length)
  finally show "card (open_ids d) \<le> length (filter unsettled (deliveries d))" by simp
qed

lemma attempts_left_bound: "0 \<le> whd_cycle_attempts w \<Longrightarrow> 1 \<le> cfg_webhook_max_attempts s \<Longrightarrow>
    attempts_left s w \<le> nat (cfg_webhook_max_attempts s)"
  by (auto simp: attempts_left_def)

lemma remaining_start:
  assumes "outbox_inv d" "1 \<le> cfg_webhook_max_attempts s"
  shows "remaining s d d \<le> length (filter unsettled (deliveries d)) * nat (cfg_webhook_max_attempts s)"
proof -
  have one: "owed s d j \<le> (if j \<in> open_ids d then nat (cfg_webhook_max_attempts s) else 0)" for j
  proof (cases "get_delivery d j")
    case (Some w)
    then have "delivery_wf w" using assms(1) by (auto simp: get_delivery_def dest: outbox_inv_wf)
    then have "attempts_left s w \<le> nat (cfg_webhook_max_attempts s)"
      using assms(2) by (intro attempts_left_bound) (simp_all add: delivery_wf_def)
    with Some show ?thesis by (auto simp: owed_def open_ids_def attempts_left_def)
  qed (simp add: owed_def)
  have fin: "finite (dom (get_delivery d))" by (simp add: delivery_dom)
  have "remaining s d d \<le> (\<Sum>j\<in>dom (get_delivery d). if j \<in> open_ids d then nat (cfg_webhook_max_attempts s) else 0)"
    unfolding remaining_def by (rule sum_mono) (rule one)
  also have "\<dots> = card (dom (get_delivery d) \<inter> open_ids d) * nat (cfg_webhook_max_attempts s)"
    using fin by (simp add: sum.If_cases)
  also have "\<dots> \<le> card (open_ids d) * nat (cfg_webhook_max_attempts s)"
    using open_ids_few(1) [of d] by (intro mult_le_mono1 card_mono) auto
  also have "\<dots> \<le> length (filter unsettled (deliveries d)) * nat (cfg_webhook_max_attempts s)"
    using open_ids_few(2) by (rule mult_le_mono1)
  finally show ?thesis .
qed

lemma remaining_falls:
  assumes "\<And>j. owed s d' j + (if j \<in> R then 1 else 0) \<le> owed s d j" "R \<subseteq> dom (get_delivery d0)"
  shows "remaining s d0 d' + card R \<le> remaining s d0 d"
proof -
  have fin: "finite (dom (get_delivery d0))" by (simp add: delivery_dom)
  have "card R = (\<Sum>j\<in>dom (get_delivery d0). if j \<in> R then 1 else 0)"
    using assms(2) fin by (simp add: sum.If_cases Int_absorb1)
  then have "remaining s d0 d' + card R = (\<Sum>j\<in>dom (get_delivery d0). owed s d' j + (if j \<in> R then 1 else 0))"
    by (simp add: remaining_def sum.distrib)
  also have "\<dots> \<le> remaining s d0 d" unfolding remaining_def by (rule sum_mono) (rule assms(1))
  finally show ?thesis .
qed

lemma due_later: "due_condition t w \<Longrightarrow> t \<le> t' \<Longrightarrow> due_condition t' w"
  by (auto simp: due_condition_def split: option.splits)

text \<open>
  What holds before tick \<open>k\<close> of a run that started from \<open>d0\<close>, where everything open is due by tick \<open>m\<close>. The
  ticks since \<open>m\<close> were \<open>a\<close> that took a full batch and \<open>b\<close> that took all there was.
\<close>

definition batches :: "settings \<Rightarrow> db \<Rightarrow> db \<Rightarrow> nat \<Rightarrow> nat \<Rightarrow> bool" where
  "batches s d0 d a b \<longleftrightarrow>
     (0 < a \<longrightarrow> nat (cfg_worker_batch_size s) \<le> card (open_ids d0)) \<and>
     remaining s d0 d + nat (cfg_worker_batch_size s) * a \<le> remaining s d0 d0 \<and>
     (\<forall>j w. get_delivery d j = Some w \<and> unsettled w \<longrightarrow> attempts_left s w + b \<le> nat (cfg_webhook_max_attempts s))"

definition after_ticks :: "settings \<Rightarrow> (nat \<Rightarrow> batch_env) \<Rightarrow> (nat \<Rightarrow> time) \<Rightarrow> db \<Rightarrow> nat \<Rightarrow> nat \<Rightarrow> db \<Rightarrow> bool" where
  "after_ticks s env clock d0 m k d \<longleftrightarrow>
     outbox_inv d \<and> submissions d = submissions d0 \<and> dom (get_delivery d) = dom (get_delivery d0) \<and>
     (\<forall>j w. get_delivery d j = Some w \<and> unsettled w \<longrightarrow> due_condition (clock (max k m)) w) \<and>
     (\<forall>j w0. get_delivery d0 j = Some w0 \<longrightarrow>
        (if unsettled w0 then \<exists>w. get_delivery d j = Some w \<and> (w = w0 \<or> whd_attempts w0 < whd_attempts w)
         else get_delivery d j = Some w0)) \<and>
     (\<exists>a b. k - m = a + b \<and> batches s d0 d a b) \<and>
     att_id ` set (attempt_log d) \<subseteq>
       att_id ` set (attempt_log d0) \<union> {new_delivery_attempt_id (be_attempt_hex (env j) i) | j i. j < k}"

lemma after_none:
  assumes "outbox_inv d" "1 \<le> cfg_webhook_max_attempts s"
    and "\<And>w. w \<in> set (deliveries d) \<Longrightarrow> unsettled w \<Longrightarrow> due_condition (clock m) w"
  shows "after_ticks s env clock d m 0 d"
proof -
  have "attempts_left s w \<le> nat (cfg_webhook_max_attempts s)" if "get_delivery d j = Some w" for j w
  proof -
    have "delivery_wf w" using that assms(1) by (auto simp: get_delivery_def dest: outbox_inv_wf)
    then show ?thesis using assms(2) by (intro attempts_left_bound) (simp_all add: delivery_wf_def)
  qed
  then have "batches s d d 0 0" unfolding batches_def by (intro conjI allI impI) (simp_all, blast)
  then show ?thesis using assms(1,3) by (auto simp: after_ticks_def get_delivery_def dest: find_row_SomeD)
qed

text \<open>What settling leaves of a row: another attempt made, and if it is to be repeated, within the allowance and soon.\<close>

lemma settled_row_next:
  assumes "schedule_fits s now" "1 \<le> whd_cycle_attempts job + 1" "unsettled (settled (settings_retry_policy s) now job r)"
  shows "whd_state (settled (settings_retry_policy s) now job r) = PENDING"
    and "whd_cycle_attempts (settled (settings_retry_policy s) now job r) = whd_cycle_attempts job + 1"
    and "whd_cycle_attempts job + 1 < cfg_webhook_max_attempts s"
    and "whd_next_attempt_at (settled (settings_retry_policy s) now job r) \<le>
      now + round_half_even (cfg_webhook_retry_max_seconds s * 1000000)"
proof -
  let ?p = "settings_retry_policy s" and ?n = "whd_cycle_attempts job + 1"
  show pending: "whd_state (settled ?p now job r) = PENDING"
    using assms(3) by (auto simp: unsettled_def settled_def Let_def)
  show "whd_cycle_attempts (settled ?p now job r) = ?n" by (simp add: settled_def Let_def)
  have v: "verdict r ?p ?n = PENDING" using pending by (simp add: settled_def Let_def)
  then show less: "?n < cfg_webhook_max_attempts s" by (simp add: verdict_def settings_retry_policy_def split: if_splits)
  obtain delay where delay: "delay_after ?p ?n = Inr delay" using retry_representable [OF assms(1,2) less] by blast
  have "delay \<le> round_half_even (cfg_webhook_retry_max_seconds s * 1000000)"
    using delay_after_cap [OF delay] by (simp add: settings_retry_policy_def)
  with v delay show "whd_next_attempt_at (settled ?p now job r) \<le> now + round_half_even (cfg_webhook_retry_max_seconds s * 1000000)"
    by (simp add: settled_def Let_def next_due_def)
qed

text \<open>A row that was handled has at least one attempt less left, and one that is still open is due soon.\<close>

lemma handled_row:
  assumes "schedule_fits s now" "unsettled w" "0 \<le> whd_cycle_attempts w" "whd_cycle_attempts job = whd_cycle_attempts w"
    and "whd_attempts job = whd_attempts w" "v = settled (settings_retry_policy s) now job r" "delivery_wf v"
    and "now + round_half_even (cfg_webhook_retry_max_seconds s * 1000000) \<le> later"
  shows "attempts_left s v + 1 \<le> attempts_left s w" "whd_attempts v = whd_attempts w + 1"
    "unsettled v \<Longrightarrow> due_condition later v"
proof -
  show "whd_attempts v = whd_attempts w + 1" using assms(5,6) by (simp add: settled_def Let_def)
  have cycle: "1 \<le> whd_cycle_attempts job + 1" using assms(3,4) by simp
  note open_row = settled_row_next [OF assms(1) cycle, of r, folded assms(6)]
  show "attempts_left s v + 1 \<le> attempts_left s w"
  proof (cases "unsettled v")
    case True
    with open_row assms(2,4) show ?thesis by (simp add: attempts_left_def)
  qed (use assms(2) in \<open>simp add: attempts_left_def\<close>)
  assume v: "unsettled v"
  have "whd_submission_id v \<noteq> None" using assms(7) open_row(1) [OF v] by (auto simp: delivery_wf_def)
  with open_row(1,4) [OF v] assms(8) show "due_condition later v" by (simp add: due_condition_def)
qed

lemma steady_tick:
  assumes "steady s env clock n" "k < n"
  shows "be_other (env k) i x = x" "be_visible (env k) j" "inj (be_attempt_hex (env k))" "schedule_fits s (clock k)"
    "\<exists>e. lease_end (clock k) (cfg_worker_lease_seconds s) = Inr e"
    "clock k + round_half_even (cfg_webhook_retry_max_seconds s * 1000000) \<le> clock (Suc k)" "clock k \<le> clock (Suc k)"
proof -
  have hex: "inj (\<lambda>(k, i). be_attempt_hex (env k) i)" using assms(1) by (simp add: steady_def)
  show "inj (be_attempt_hex (env k))" by (rule injI) (use injD [OF hex, of "(k, a)" "(k, b)" for a b] in auto)
  show "be_other (env k) i x = x" "be_visible (env k) j" "schedule_fits s (clock k)"
    "\<exists>e. lease_end (clock k) (cfg_worker_lease_seconds s) = Inr e"
    "clock k + round_half_even (cfg_webhook_retry_max_seconds s * 1000000) \<le> clock (Suc k)"
    using assms by (simp_all add: steady_def)
  then show "clock k \<le> clock (Suc k)"
    using round_half_even_nonneg [of "cfg_webhook_retry_max_seconds s * 1000000"] by (simp add: schedule_fits_def settings_ok_def)
qed

lemma steady_mono:
  assumes "steady s env clock n"
  shows "b \<le> n \<Longrightarrow> a \<le> b \<Longrightarrow> clock a \<le> clock b"
proof (induction b)
  case (Suc b)
  then have "clock b \<le> clock (Suc b)" using steady_tick(7) [OF assms(1)] by simp
  with Suc show ?case by (cases "a = Suc b") auto
qed simp

text \<open>A tick that took a full batch, or everything.\<close>

lemma batches_step:
  assumes "batches s d0 d a b" and less: "\<And>j. owed s d' j + (if j \<in> R then 1 else 0) \<le> owed s d j"
    and R: "R \<subseteq> open_ids d" "open_ids d \<subseteq> open_ids d0"
    and all: "int (card R) < cfg_worker_batch_size s \<Longrightarrow> open_ids d' \<subseteq> R"
  shows "batches s d0 d' (a + (if int (card R) < cfg_worker_batch_size s then 0 else 1))
      (b + (if int (card R) < cfg_worker_batch_size s then 1 else 0))"
proof -
  have "R \<subseteq> dom (get_delivery d0)" using R by (auto simp: open_ids_def)
  from remaining_falls [OF less this] have fall: "remaining s d0 d' + card R \<le> remaining s d0 d" .
  have "R \<subseteq> open_ids d0" using R by blast
  then have few: "card R \<le> card (open_ids d0)" by (rule card_mono [OF open_ids_few(1)])
  have left: "attempts_left s w + (if j \<in> R then 1 else 0) + b \<le> nat (cfg_webhook_max_attempts s)"
    if w: "get_delivery d' j = Some w" "unsettled w" for j w
  proof -
    have "0 < owed s d' j" using w by (simp add: owed_def attempts_left_def)
    then have "0 < owed s d j" using less [of j] by linarith
    then obtain v where v: "get_delivery d j = Some v" "unsettled v"
      by (auto simp: owed_def attempts_left_def split: option.splits if_splits)
    with assms(1) have "attempts_left s v + b \<le> nat (cfg_webhook_max_attempts s)" by (simp add: batches_def)
    with less [of j] v(1) w(1) show ?thesis by (simp add: owed_def)
  qed
  show ?thesis
  proof (cases "int (card R) < cfg_worker_batch_size s")
    case True
    have "j \<in> R" if "get_delivery d' j = Some w" "unsettled w" for j w
      using all [OF True] that by (auto simp: open_ids_def)
    with True left fall assms(1) show ?thesis by (fastforce simp: batches_def)
  next
    case False
    then have "nat (cfg_worker_batch_size s) \<le> card R" by linarith
    with False left fall few assms(1) show ?thesis by (fastforce simp: batches_def split: if_splits)
  qed
qed

lemma one_tick:
  assumes steady: "steady s env clock n" "k < n" and m: "m \<le> n"
    and clean: "\<forall>row\<in>set (submissions d0). clean_submission (to_domain row)"
    and fresh: "\<And>k i. new_delivery_attempt_id (be_attempt_hex (env k) i) \<notin> att_id ` set (attempt_log d0)"
    and before: "after_ticks s env clock d0 m k d"
  obtains h d' where "tick (env k) s (clock k) d = (h, d')" "after_ticks s env clock d0 m (Suc k) d'"
    "(\<forall>j w. get_delivery d j = Some w \<longrightarrow> \<not> unsettled w) \<Longrightarrow> h = 0"
proof -
  let ?p = "settings_retry_policy s" and ?now = "clock k" and ?env = "env k"
  let ?key = "\<lambda>(job, r). whd_id job"
  have inv: "outbox_inv d" and subs: "submissions d = submissions d0" and dom: "dom (get_delivery d) = dom (get_delivery d0)"
    and log: "att_id ` set (attempt_log d) \<subseteq>
      att_id ` set (attempt_log d0) \<union> {new_delivery_attempt_id (be_attempt_hex (env j) i) | j i. j < k}"
    using before by (simp_all add: after_ticks_def)
  have dues: "due_condition (clock (max k m)) w" if "get_delivery d j = Some w" "unsettled w" for j w
    using before that by (simp add: after_ticks_def)
  have origins: "if unsettled w0 then \<exists>w. get_delivery d j = Some w \<and> (w = w0 \<or> whd_attempts w0 < whd_attempts w)
      else get_delivery d j = Some w0" if "get_delivery d0 j = Some w0" for j w0 using before that by (simp add: after_ticks_def)
  obtain a b where ab: "k - m = a + b" "batches s d0 d a b" using before by (auto simp: after_ticks_def)
  note tick_facts = steady_tick [OF steady]
  note alone = tick_facts(1) and fits = tick_facts(4)
  have hex: "inj (\<lambda>(k, i). be_attempt_hex (env k) i)" using steady(1) by (simp add: steady_def)
  obtain e where lease: "lease_end ?now (cfg_worker_lease_seconds s) = Inr e" using tick_facts(5) by blast
  have unused: "new_delivery_attempt_id (be_attempt_hex ?env i) \<notin> att_id ` set (attempt_log d)" for i
  proof
    assume "new_delivery_attempt_id (be_attempt_hex ?env i) \<in> att_id ` set (attempt_log d)"
    then have "new_delivery_attempt_id (be_attempt_hex ?env i) \<in>
        att_id ` set (attempt_log d0) \<union> {new_delivery_attempt_id (be_attempt_hex (env j) i) | j i. j < k}" by (rule subsetD [OF log])
    with fresh obtain j i' where "j < k" "new_delivery_attempt_id (be_attempt_hex ?env i) = new_delivery_attempt_id (be_attempt_hex (env j) i')"
      by blast
    with injD [OF hex, of "(k, i)" "(j, i')"] show False by (auto dest: new_attempt_id_inj)
  qed
  obtain rep d' where run: "process_batch ?env s ?now d = (Inr rep, d')"
    using process_batch_total [OF inv alone lease] clean unfolding subs by blast
  note batch = batch_settled [OF inv fits alone tick_facts(3) unused run]
  note sent = batch [THEN conjunct2, THEN conjunct2, THEN conjunct2, THEN conjunct2, THEN conjunct2, THEN conjunct1]
  note kept = batch [THEN conjunct2, THEN conjunct2, THEN conjunct2, THEN conjunct2, THEN conjunct2, THEN conjunct2, THEN conjunct1]
  note room = batch [THEN conjunct2, THEN conjunct2, THEN conjunct2, THEN conjunct2, THEN conjunct2, THEN conjunct2, THEN conjunct2]
  define R where "R = ?key ` set (br_results rep)"
  have "R = set (map ?key (br_results rep))" by (simp add: R_def)
  then have size: "card R = br_handled rep" using distinct_card [of "map ?key (br_results rep)"] batch by simp
  have others: "get_delivery d' j = get_delivery d j" if "j \<notin> R" for j using kept that by (simp add: R_def)
  have inv': "outbox_inv d'" by (rule conjunct1 [OF batch])
  have row: "\<exists>w v. get_delivery d j = Some w \<and> get_delivery d' j = Some v \<and> unsettled w \<and> attempts_left s v + 1 \<le> attempts_left s w \<and>
      whd_attempts v = whd_attempts w + 1 \<and> (unsettled v \<longrightarrow> due_condition (clock (Suc k)) v)" if "j \<in> R" for j
  proof -
    from that obtain job r where job: "(job, r) \<in> set (br_results rep)" "j = whd_id job" by (auto simp: R_def)
    from bspec [OF sent job(1)] obtain w where w: "get_delivery d j = Some w" "due_condition ?now w" "whd_attempts job = whd_attempts w"
      "whd_cycle_attempts job = whd_cycle_attempts w" "get_delivery d' j = Some (settled ?p ?now job r)" by (auto simp: job(2))
    have wf: "delivery_wf w" "delivery_wf (settled ?p ?now job r)"
      using w(1,5) inv inv' by (auto simp: get_delivery_def dest: outbox_inv_wf)
    then have "0 \<le> whd_cycle_attempts w" by (simp add: delivery_wf_def)
    from handled_row [OF fits due_unsettled [OF w(2)] this w(4,3) refl wf(2) tick_facts(6)] w(1,5) due_unsettled [OF w(2)]
    show ?thesis by blast
  qed
  have less: "owed s d' j + (if j \<in> R then 1 else 0) \<le> owed s d j" for j
  proof (cases "j \<in> R")
    case True
    from row [OF this] True show ?thesis by (auto simp: owed_def)
  qed (simp add: others owed_def)
  have R: "R \<subseteq> open_ids d" using row by (auto simp: open_ids_def)
  have mono: "open_ids d \<subseteq> open_ids d0"
  proof
    fix j assume "j \<in> open_ids d"
    then obtain w where w: "get_delivery d j = Some w" "unsettled w" by (auto simp: open_ids_def)
    then obtain w0 where w0: "get_delivery d0 j = Some w0" using dom by (metis domD domI)
    with origins [OF w0] w show "j \<in> open_ids d0" by (auto simp: open_ids_def split: if_splits)
  qed
  have later: "clock k \<le> clock (max (Suc k) m)" "clock (Suc k) \<le> clock (max (Suc k) m)" "clock (max k m) \<le> clock (max (Suc k) m)"
    using steady(2) m by (intro steady_mono [OF steady(1)]; simp)+
  have after_tick: "after_ticks s env clock d0 m (Suc k) d'"
    unfolding after_ticks_def
  proof (intro conjI allI impI)
    show "outbox_inv d'" by (rule inv')
    show "submissions d' = submissions d0" using batch_frame [OF inv alone run] subs by simp
    have "get_delivery d' j = None \<longleftrightarrow> get_delivery d j = None" for j
      using row [of j] others [of j] by (cases "j \<in> R") auto
    then have "dom (get_delivery d') = dom (get_delivery d)" by (simp add: dom_def)
    then show "dom (get_delivery d') = dom (get_delivery d0)" using dom by simp
    let ?ids = "\<lambda>m. {new_delivery_attempt_id (be_attempt_hex (env j) i) | j i. j < m}"
    have "range (\<lambda>i. new_delivery_attempt_id (be_attempt_hex ?env i)) \<subseteq> ?ids (Suc k)" by blast
    moreover have "?ids k \<subseteq> ?ids (Suc k)" by (blast intro: less_SucI)
    ultimately show "att_id ` set (attempt_log d') \<subseteq> att_id ` set (attempt_log d0) \<union> ?ids (Suc k)"
      using conjunct2 [OF batch_frame [OF inv alone run]] log by (meson Un_mono Un_least order_trans sup_ge1 sup_ge2)
    show "\<exists>a b. Suc k - m = a + b \<and> batches s d0 d' a b"
    proof (cases "m \<le> k")
      case True
      have "open_ids d' \<subseteq> R" if "int (card R) < cfg_worker_batch_size s"
      proof
        fix j assume "j \<in> open_ids d'"
        then obtain w where w: "get_delivery d' j = Some w" "unsettled w" by (auto simp: open_ids_def)
        show "j \<in> R"
        proof (rule ccontr)
          assume j: "j \<notin> R"
          then have "get_delivery d j = Some w" using w(1) others by simp
          moreover have "due_condition ?now w" using dues [OF calculation w(2)] True by (simp add: max_absorb1)
          ultimately have "j \<in> ?key ` set (br_results rep)" using room that [unfolded size] tick_facts(2) by blast
          with j show False by (simp add: R_def)
        qed
      qed
      from batches_step [OF ab(2) less R mono this] ab(1) True show ?thesis
        by (intro exI conjI) (assumption?, auto simp: Suc_diff_le)
    next
      case False
      then have "a = 0" "b = 0" using ab(1) by simp_all
      moreover have "remaining s d0 d' \<le> remaining s d0 d"
        unfolding remaining_def by (rule sum_mono) (use less add_leD1 in blast)
      moreover have "attempts_left s w \<le> nat (cfg_webhook_max_attempts s)" if w: "get_delivery d' j = Some w" "unsettled w" for j w
      proof -
        have "delivery_wf w" using w(1) inv' by (auto simp: get_delivery_def dest: outbox_inv_wf)
        then show ?thesis using fits by (intro attempts_left_bound) (simp_all add: delivery_wf_def schedule_fits_def settings_ok_def)
      qed
      ultimately have "batches s d0 d' 0 0" using ab(2) by (auto simp: batches_def)
      with False show ?thesis by auto
    qed
  next
    fix j w assume w: "get_delivery d' j = Some w \<and> unsettled w"
    show "due_condition (clock (max (Suc k) m)) w"
    proof (cases "j \<in> R")
      case True
      from row [OF this] w later(2) show ?thesis by (auto intro: due_later)
    next
      case False
      with w others dues later(3) show ?thesis by (metis due_later)
    qed
  next
    fix j w0 assume w0: "get_delivery d0 j = Some w0"
    show "if unsettled w0 then \<exists>w. get_delivery d' j = Some w \<and> (w = w0 \<or> whd_attempts w0 < whd_attempts w)
      else get_delivery d' j = Some w0"
    proof (cases "j \<in> R")
      case True
      from row [OF this] obtain w v where v: "get_delivery d j = Some w" "get_delivery d' j = Some v" "unsettled w"
        "whd_attempts v = whd_attempts w + 1" by blast
      with origins [OF w0] show ?thesis by (auto split: if_splits)
    next
      case False
      with origins [OF w0] others show ?thesis by simp
    qed
  qed
  show thesis
  proof (rule that)
    show "tick ?env s ?now d = (br_handled rep, d')" by (simp add: tick_def run)
    show "br_handled rep = 0" if "\<forall>j w. get_delivery d j = Some w \<longrightarrow> \<not> unsettled w"
    proof -
      have "R = {}" using R that by (auto simp: open_ids_def)
      with size show ?thesis by simp
    qed
  qed (rule after_tick)
qed

subsection \<open>Many ticks\<close>

text \<open>
  The ticks that are enough for a number of open deliveries: as many as the policy allows attempts when a batch
  has room for them all, and as many more as full batches can be made of all the attempts they are allowed.
\<close>

definition drain_ticks :: "settings \<Rightarrow> nat \<Rightarrow> nat" where
  "drain_ticks s opened =
     nat (cfg_webhook_max_attempts s) +
     (if int opened < cfg_worker_batch_size s then 0
      else opened * nat (cfg_webhook_max_attempts s) div nat (cfg_worker_batch_size s))"

lemma exhausted_settled:
  assumes "after_ticks s env clock d0 m k d" "outbox_inv d0" "settings_ok s"
    and "drain_ticks s (length (filter unsettled (deliveries d0))) \<le> k - m" "get_delivery d j = Some w"
  shows "\<not> unsettled w"
proof
  let ?M = "nat (cfg_webhook_max_attempts s)" and ?B = "nat (cfg_worker_batch_size s)"
  let ?L = "length (filter unsettled (deliveries d0))"
  assume u: "unsettled w"
  have pos: "1 \<le> cfg_webhook_max_attempts s" "0 < ?B" using assms(3) by (simp_all add: settings_ok_def)
  obtain a b where ab: "k - m = a + b" "batches s d0 d a b" using assms(1) by (auto simp: after_ticks_def)
  have "attempts_left s w + b \<le> ?M" using ab(2) assms(5) u by (simp add: batches_def)
  moreover have one: "1 \<le> attempts_left s w" using u by (simp add: attempts_left_def)
  ultimately have b: "b < ?M" by linarith
  with assms(4) ab(1) have "0 < a" by (simp add: drain_ticks_def split: if_splits)
  with ab(2) have "?B \<le> card (open_ids d0)" by (simp add: batches_def)
  then have "?B \<le> ?L" using open_ids_few(2) [of d0] by linarith
  then have drain: "drain_ticks s ?L = ?M + ?L * ?M div ?B" by (simp add: drain_ticks_def)
  have "j \<in> dom (get_delivery d0)" using assms(1,5) by (auto simp: after_ticks_def)
  then have "owed s d j \<le> remaining s d0 d"
    unfolding remaining_def by (intro member_le_sum) (simp_all add: delivery_dom)
  then have "1 \<le> remaining s d0 d" using one assms(5) by (simp add: owed_def)
  with ab(2) have "?B * a \<le> remaining s d0 d0" by (simp add: batches_def)
  also have "\<dots> \<le> ?L * ?M" by (rule remaining_start [OF assms(2) pos(1)])
  finally have "a \<le> ?L * ?M div ?B" using pos(2) by (simp add: less_eq_div_iff_mult_less_eq mult.commute)
  with b drain assms(4) ab(1) show False by linarith
qed

lemma many_ticks:
  assumes steady: "steady s env clock n" and m: "m \<le> n"
    and clean: "\<forall>row\<in>set (submissions d0). clean_submission (to_domain row)"
    and fresh: "\<And>k i. new_delivery_attempt_id (be_attempt_hex (env k) i) \<notin> att_id ` set (attempt_log d0)"
    and ok: "settings_ok s" "outbox_inv d0"
  shows "after_ticks s env clock d0 m k d \<Longrightarrow> k + j \<le> n \<Longrightarrow> run_loop (\<lambda>_. False) env clock s j k d = (ticks, d') \<Longrightarrow>
    after_ticks s env clock d0 m (k + j) d' \<and> length ticks = j \<and>
    (\<forall>i<j. m + drain_ticks s (length (filter unsettled (deliveries d0))) \<le> k + i \<longrightarrow> ticks ! i = (0, True))"
proof (induction j arbitrary: k d ticks)
  case (Suc j)
  let ?drain = "drain_ticks s (length (filter unsettled (deliveries d0)))"
  have k: "k < n" using Suc.prems(2) by simp
  obtain h d1 where one: "tick (env k) s (clock k) d = (h, d1)" "after_ticks s env clock d0 m (Suc k) d1"
    and idle: "(\<forall>j w. get_delivery d j = Some w \<longrightarrow> \<not> unsettled w) \<Longrightarrow> h = 0"
    using one_tick [OF steady k m clean fresh Suc.prems(1)] by blast
  obtain rest where rest: "run_loop (\<lambda>_. False) env clock s j (Suc k) d1 = (rest, d')" "ticks = (h, h = 0) # rest"
    using Suc.prems(3) by (auto simp: one(1) Let_def split: prod.splits)
  have later: "after_ticks s env clock d0 m (Suc k + j) d' \<and> length rest = j \<and>
      (\<forall>i<j. m + ?drain \<le> Suc k + i \<longrightarrow> rest ! i = (0, True))"
    by (rule Suc.IH [OF one(2) _ rest(1)]) (use Suc.prems(2) in simp)
  have "h = 0" if "m + ?drain \<le> k"
    using idle exhausted_settled [OF Suc.prems(1) ok(2,1)] that by simp
  with later show ?case by (auto simp: rest(2) nth_Cons split: nat.split)
qed simp


definition hourly :: "nat \<Rightarrow> time" where
  "hourly k = 10000000 + int k * 3600000000"

definition refused :: "nat \<Rightarrow> batch_env" where
  "refused k = \<lparr>be_visible = \<lambda>_. True, be_claim_hex = \<lambda>i. [i], be_attempt_hex = \<lambda>i. [k, i],
     be_send = \<lambda>_. Responded 503, be_other = \<lambda>_ d. d\<rparr>"

lemma hourly_steady: "steady (default_settings []) refused hourly 6"
  unfolding steady_def
proof (intro conjI allI impI)
  show "inj (\<lambda>(k, i). be_attempt_hex (refused k) i)" by (auto simp: refused_def inj_on_def)
  have longest: "round_half_even (3600000000 :: rat) = 3600000000" using round_half_even_of_int [of 3600000000] by simp
  have lease: "timedelta_seconds 60 = Inr 60000000"
    using timedelta_seconds_total [of 60] round_half_even_of_int [of 60000000] by (simp add: timedelta_cap_def)
  fix k :: nat assume "k < 6"
  then have k: "0 \<le> hourly k" "hourly k \<le> 28810000000" by (auto simp: hourly_def)
  then show "schedule_fits (default_settings []) (hourly k)"
    using default_settings_ok [of "[]"] longest
    by (simp add: schedule_fits_def default_settings_def timedelta_cap_def dt_min_def dt_max_def)
  show "\<exists>e. lease_end (hourly k) (cfg_worker_lease_seconds (default_settings [])) = Inr e"
    using k lease by (simp add: lease_end_def default_settings_def dt_add_def dt_min_def dt_max_def)
  show "hourly k + round_half_even (cfg_webhook_retry_max_seconds (default_settings []) * 1000000) \<le> hourly (Suc k)"
    using longest by (simp add: hourly_def default_settings_def)
qed (simp_all add: refused_def)


end
