(* ===== verification/Spec2Isabelle.thy ===== *)
theory Spec2Isabelle
  imports Application Migrations Paging Refinement WorkerLoop
begin

text \<open>
  Hymical Forms accepts HTML form submissions for registered endpoints, stores each exactly once, and owes
  each a webhook delivery that a separate worker makes and retries. This development models the Python
  package \<^verbatim>\<open>src/src/hymical_forms\<close> as Isabelle functions on an explicit database, and proves what its parts
  promise, alone and together. Paths below are relative to that package.

  The shape of the model. A Python \<^verbatim>\<open>str\<close> is the list of its code points, \<^verbatim>\<open>bytes\<close> are words of eight bits,
  an instant is the integer of microseconds since 1970 with the range checks of \<^verbatim>\<open>datetime\<close>, a float setting
  is its exact rational value (so an infinite setting has no counterpart, and where \<^verbatim>\<open>timedelta\<close> multiplies the
  fraction of a second as a double the model rounds the exact product, which may be a microsecond off). A fallible operation returns \<^verbatim>\<open>error + value\<close>. The database is one record of
  six tables, a table is a list of rows in insertion order, and \<^verbatim>\<open>db_ok\<close> is the conjunction of the keys,
  foreign keys and checks the schema declares; a commit that would break it is an integrity error and
  changes nothing. An operation of \<^verbatim>\<open>storage.py\<close> is a function from a database to a result and a database.
  Where the code runs in several transactions, or reads before it writes, the model takes as an argument
  what other processes commit in between, so a property with such an argument holds under interference.

  The theories, by the part of the program they model.

  Foundations. \<^verbatim>\<open>Prelude\<close>: strings, instants, exceptions, tables, the locales \<^verbatim>\<open>row_store\<close> (lookup, insert,
  update by key) and \<^verbatim>\<open>invariant_system\<close> (an initial state, steps, an invariant all reachable states keep).
  \<^verbatim>\<open>Text\<close>, \<^verbatim>\<open>Regex\<close>, \<^verbatim>\<open>Json\<close>, \<^verbatim>\<open>Sha256\<close>, \<^verbatim>\<open>Calendar\<close>: what the program uses of the standard library (string
  methods, UTF-8, \<^verbatim>\<open>re.fullmatch\<close>, \<^verbatim>\<open>json.dumps\<close>, \<^verbatim>\<open>hashlib\<close> and \<^verbatim>\<open>hmac\<close>, \<^verbatim>\<open>isoformat\<close>), written out because
  stored identities and signatures depend on it. \<^verbatim>\<open>Encodable\<close>: which payloads UTF-8 can carry.

  Rules without state. \<^verbatim>\<open>Ingestion\<close> (\<^verbatim>\<open>ingestion.py\<close>): identifiers, keys, normalising a form, the content
  fingerprint. \<^verbatim>\<open>Webhooks\<close> and \<^verbatim>\<open>WebhookUrl\<close> (\<^verbatim>\<open>webhooks.py\<close>): outcomes, states, back-off, payloads and
  signatures, and which destinations are refused. \<^verbatim>\<open>RateLimit\<close> and \<^verbatim>\<open>IpAddress\<close> (\<^verbatim>\<open>ratelimit.py\<close>): windows,
  decisions, the client address and its bucket. \<^verbatim>\<open>Config\<close> (\<^verbatim>\<open>config.py\<close>), \<^verbatim>\<open>Errors\<close> (\<^verbatim>\<open>errors.py\<close>,
  \<^verbatim>\<open>api/validation.py\<close>): settings with their bounds, and the one envelope all failures are answered in.

  The store. \<^verbatim>\<open>Models\<close> (\<^verbatim>\<open>models.py\<close>): rows and constraints. \<^verbatim>\<open>DeliveryStore\<close>, \<^verbatim>\<open>SubmissionStore\<close>, \<^verbatim>\<open>Retention\<close>,
  \<^verbatim>\<open>CounterStore\<close>, \<^verbatim>\<open>EndpointStore\<close>, \<^verbatim>\<open>KeyStore\<close> and \<^verbatim>\<open>Paging\<close> are \<^verbatim>\<open>storage.py\<close> by table, with \<^verbatim>\<open>retention.py\<close>,
  \<^verbatim>\<open>apikeys.py\<close> and \<^verbatim>\<open>api/pagination.py\<close>. \<^verbatim>\<open>DeliveryFacts\<close>, \<^verbatim>\<open>DeliveryTheorems\<close> and \<^verbatim>\<open>SubmissionFacts\<close> hold their
  invariants and properties; \<^verbatim>\<open>Examples\<close> a small database the properties are exercised on.

  The processes. \<^verbatim>\<open>Security\<close> (\<^verbatim>\<open>api/security.py\<close>), \<^verbatim>\<open>SubmitApi\<close> with \<^verbatim>\<open>SubmitFacts\<close> and \<^verbatim>\<open>SubmitTheorems\<close>
  (\<^verbatim>\<open>api/submissions.py\<close>), \<^verbatim>\<open>EndpointsApi\<close>, \<^verbatim>\<open>DeliveriesApi\<close>, \<^verbatim>\<open>SubmissionsApi\<close> with \<^verbatim>\<open>Export\<close> (the management
  routes and \<^verbatim>\<open>export.py\<close>), \<^verbatim>\<open>Middleware\<close> (\<^verbatim>\<open>middleware.py\<close>), \<^verbatim>\<open>Delivery\<close>, \<^verbatim>\<open>Worker\<close> and \<^verbatim>\<open>WorkerLoop\<close>
  (\<^verbatim>\<open>delivery.py\<close>, \<^verbatim>\<open>worker.py\<close>), \<^verbatim>\<open>Schema\<close> (\<^verbatim>\<open>schema.py\<close>), \<^verbatim>\<open>Cli\<close> (\<^verbatim>\<open>cli.py\<close>),
  \<^verbatim>\<open>Engine\<close> (\<^verbatim>\<open>db.py\<close> and \<^verbatim>\<open>migrations/env.py\<close>: which database a process works on, and how). \<^verbatim>\<open>Application\<close>
  (\<^verbatim>\<open>app.py\<close>, \<^verbatim>\<open>api/health.py\<close>) puts the public route behind the body cap, on the messages of the server.

  The schema. \<^verbatim>\<open>Ddl\<close> gives the statements of a migration their effect on a schema and on rows; \<^verbatim>\<open>Migrations\<close>
  holds the six revisions of \<^verbatim>\<open>migrations/versions\<close> and the schema \<^verbatim>\<open>models.py\<close> declares.

  The whole. \<^verbatim>\<open>Outbox\<close>: the abstract system, one committed transaction per step in any order. \<^verbatim>\<open>Service\<close>:
  every request, tick and command as one operation. \<^verbatim>\<open>Refinement\<close>: those operations, one after
  another and with other such work between their transactions, are sequences of abstract steps.

  How the parts interact. The public route checks the endpoint identifier, spends a unit of the address
  budget, reads the endpoint, spends a unit of the endpoint budget, parses the body and stores; the
  submission and the delivery it owes are committed together. A worker claims what is due under a lease
  and a random token, sends with no transaction open, and records each attempt; the token decides whether
  it still owns the delivery. Operators replay failed deliveries, and a sweep deletes submissions that are
  old and owe nothing. All meet only in the database, which is why \<^verbatim>\<open>outbox_inv\<close> (the constraints, claims
  held exactly while processing, completion exactly when terminal, a submission kept until it is
  delivered, attempts numbered without a gap) is stated on it and kept by every operation.

  What the groups of lemmas show. Exactly once: one submission per idempotency key whoever competes, with
  the same answer to retries and a refusal of other content (\<^verbatim>\<open>SubmissionFacts\<close>). Deliveries: claims are
  exclusive, a superseded worker cannot overwrite and a settled claim makes every other one of its delivery useless, an owner can always record, every state change is one of
  the life cycle, and a worker left alone drains the queue within a stated number of ticks
  (\<^verbatim>\<open>DeliveryTheorems\<close>, \<^verbatim>\<open>Outbox\<close>, \<^verbatim>\<open>Worker\<close>, \<^verbatim>\<open>WorkerLoop\<close>). Budgets: no window overspent, every attempt
  charged before anything is read, refusals say when to come back (\<^verbatim>\<open>CounterStore\<close>, \<^verbatim>\<open>SubmitFacts\<close>,
  \<^verbatim>\<open>SubmitTheorems\<close>). Retention: nothing that is owed or could be replayed loses its payload (\<^verbatim>\<open>Retention\<close>).
  Management: only live keys pass, a stored secret is in no answer, a replay starts a new cycle, pages and exports are complete, edits change
  what they name (\<^verbatim>\<open>KeyStore\<close>, \<^verbatim>\<open>Security\<close>, \<^verbatim>\<open>EndpointsApi\<close>, \<^verbatim>\<open>DeliveriesApi\<close>, \<^verbatim>\<open>SubmissionsApi\<close>, \<^verbatim>\<open>Paging\<close>).
  Operators: dry runs predict, a password a driver repeats as it is does not get through (\<^verbatim>\<open>Cli\<close>). Input: the body cap and the destination
  filter (\<^verbatim>\<open>Middleware\<close>, \<^verbatim>\<open>WebhookUrl\<close>), and that a body cut off in the middle of the public route
  costs its sender the charge and stores nothing (\<^verbatim>\<open>Application\<close>). Migrations: the chain builds the declared schema and each revision
  carries populated databases both ways (\<^verbatim>\<open>Migrations\<close>).

  The interfaces. The locales \<^verbatim>\<open>row_store\<close>, \<^verbatim>\<open>invariant_system\<close>, \<^verbatim>\<open>budget_store\<close>, \<^verbatim>\<open>credential_store\<close>,
  \<^verbatim>\<open>paged_list\<close> and \<^verbatim>\<open>self_delimiting\<close> state what a client relies on; each is interpreted on the definitions
  of the component that provides it, and the properties use the interpreted facts.

  Bounds and fuel. The sweep runs at most \<^verbatim>\<open>max_batches\<close> batches, as the code does. The loop of the worker
  runs without end in the code; \<^verbatim>\<open>run_loop\<close> takes the number of ticks, and the properties hold for every
  number, or for every number from \<^verbatim>\<open>drain_ticks\<close> on, which is proved to be enough. The client that follows the
  cursors of a list, \<^verbatim>\<open>walk_pages\<close>, is not code of the program; it gives up with None when its fuel runs out or
  a page is refused, and one page more than there are rows is proved to be enough. \<^verbatim>\<open>dec_exponent\<close> takes 700 steps, more than the decimal exponents of a double. The recursion of the
  address parser and of the calendar is proved to terminate. A reader of a request body is a finite tree of
  receives, so what the stream promises (\<^verbatim>\<open>streams\<close>) is stated for bodies of up to \<^verbatim>\<open>n\<close> pieces, and the property
  takes as many as the body has. Nothing else is bounded.

  Parameters stand for what is not in the repository: random parts of identifiers and keys (a hypothesis
  says they are fresh where that matters), clock readings, the order in which the database returns rows
  without an ORDER BY, which rows are locked, answers of the HTTP client, the form parsers and how they read
  the stream of a request, the Unicode
  tables behind NFKC, IDNA and \<^verbatim>\<open>str.isprintable\<close>, the URL parser of the database library, and what the
  migration library reads.

  Not modelled, and why. Human-readable messages of the API, except where a property is about one; logging
  and signals; the parsing and schema generation of the web framework and of its validation library (a
  request arrives parsed, \<^verbatim>\<open>settings_ok\<close> and the \<^verbatim>\<open>*_ok\<close> predicates state the declared bounds); \<^verbatim>\<open>argparse\<close>;
  column lengths and types at run time, which SQLite does not enforce and which the validated inputs fit;
  \<^verbatim>\<open>main.py\<close>, which only calls \<^verbatim>\<open>create_app\<close>; the routing of the web framework; the session factory and the session
  of a request in \<^verbatim>\<open>db.py\<close>, configuration of the database library (a request that raises leaves nothing
  uncommitted behind, as every handler is modelled); the order of strings in the database is taken as that of
  their code points;
  autogenerated descriptions of the API; an exception that leaves the application altogether, which the outermost
  layer of the framework answers past the body cap (the handlers modelled turn every exception of theirs into an
  answer). The batch mode one migration uses on SQLite is taken as the plain
  statement it is on PostgreSQL. Overflow of column integers is not modelled, Python's are unbounded.
\<close>

end
